(* ===== verification/Oxide_Prelude.thy ===== *)
theory Oxide_Prelude
  imports Main "HOL-Library.Word" "HOL-Library.Monad_Syntax" "HOL-Library.Multiset"
begin

text \<open>
  Shared vocabulary of the development: the machine integers of the kernel, Rust's checked and
  saturating arithmetic, and generic facts about lists and options.

  The kernel image is the debug build (\<^verbatim>\<open>oxide-os/Makefile\<close>, target \<open>kernel\<close>), so a plain
  \<open>+\<close>, \<open>-\<close> or \<open>*\<close> that overflows panics; it does not wrap.  A computation that can panic has
  an \<open>option\<close> type: \<open>None\<close> means that the kernel panicked and halted.  A Rust
  \<open>Result<T, E>\<close> is a sum \<open>E + T\<close> inside it, so errors and panics are never confused.
\<close>

unbundle bit_operations_syntax

type_synonym u8 = "8 word"
type_synonym u16 = "16 word"
type_synonym u32 = "32 word"
type_synonym u64 = "64 word"

named_theorems wf_defs "definitions of the well-formedness invariants"
named_theorems arith_defs "definitions of checked and saturating arithmetic"
named_theorems frame_rules "what an operation leaves unchanged"

section \<open>Rust arithmetic\<close>

text \<open>The overflow-checked operators of a debug build, and \<open>saturating_add\<close>.\<close>

definition checked_add :: "'a::len word \<Rightarrow> 'a word \<Rightarrow> 'a word option" where
  [arith_defs]: "checked_add a b = (if unat a + unat b < 2 ^ LENGTH('a) then Some (a + b) else None)"

definition checked_sub :: "'a::len word \<Rightarrow> 'a word \<Rightarrow> 'a word option" where
  [arith_defs]: "checked_sub a b = (if b \<le> a then Some (a - b) else None)"

definition checked_mul :: "'a::len word \<Rightarrow> 'a word \<Rightarrow> 'a word option" where
  [arith_defs]: "checked_mul a b = (if unat a * unat b < 2 ^ LENGTH('a) then Some (a * b) else None)"

definition saturating_add :: "'a::len word \<Rightarrow> 'a word \<Rightarrow> 'a word" where
  [arith_defs]: "saturating_add a b = (if unat a + unat b < 2 ^ LENGTH('a) then a + b else - 1)"

lemma checked_add_Some_iff:
  "checked_add a b = Some c \<longleftrightarrow> unat (a :: 'a::len word) + unat b < 2 ^ LENGTH('a) \<and> c = a + b"
  by (auto simp: checked_add_def)

lemma unat_add_no_overflow:
  "unat (a :: 'a::len word) + unat b < 2 ^ LENGTH('a) \<Longrightarrow> unat (a + b) = unat a + unat b"
  by (simp add: unat_word_ariths)

lemma checked_add_unat:
  "checked_add a b = Some c \<Longrightarrow> unat c = unat (a :: 'a::len word) + unat b"
  by (auto simp: checked_add_Some_iff unat_add_no_overflow)

lemma checked_sub_unat:
  "checked_sub a b = Some c \<Longrightarrow> unat c = unat (a :: 'a::len word) - unat b"
  by (auto simp: checked_sub_def unat_sub split: if_splits)

lemma checked_mul_unat:
  "checked_mul a b = Some c \<Longrightarrow> unat c = unat (a :: 'a::len word) * unat b"
  by (auto simp: checked_mul_def unat_word_ariths split: if_splits)

lemma unat_inject [simp]: "unat (a :: 'a::len word) = unat b \<longleftrightarrow> a = b"
  by (auto intro: unsigned_word_eqI)

lemma unat_of_nat_small: "k < 2 ^ LENGTH('a) \<Longrightarrow> unat (of_nat k :: 'a::len word) = k"
  by (simp add: unat_of_nat)

lemma unat_max_word: "unat (- 1 :: 'a::len word) = 2 ^ LENGTH('a) - 1"
  by (simp add: unsigned_minus_1_eq_mask mask_eq_exp_minus_1)

lemma unat_saturating_add:
  "unat (saturating_add a b) = min (unat (a :: 'a::len word) + unat b) (2 ^ LENGTH('a) - 1)"
  by (auto simp: saturating_add_def unat_add_no_overflow unat_max_word)

lemma unat_eq_max_iff: "unat (a :: 'a::len word) = 2 ^ LENGTH('a) - 1 \<longleftrightarrow> a = - 1"
  by (metis unat_max_word unsigned_word_eqI)

lemma checked_add_1_Some_iff:
  "checked_add (a :: 'a::len word) 1 = Some b \<longleftrightarrow> a \<noteq> - 1 \<and> b = a + 1"
proof -
  have "unat a < 2 ^ LENGTH('a)" by (rule unsigned_less)
  then have "unat a + 1 < 2 ^ LENGTH('a) \<longleftrightarrow> a \<noteq> - 1"
    unfolding unat_eq_max_iff [symmetric] by linarith
  then show ?thesis by (auto simp: checked_add_Some_iff)
qed

lemma unat_plus_1: "(a :: 'a::len word) \<noteq> - 1 \<Longrightarrow> unat (a + 1) = unat a + 1"
  using checked_add_unat [of a 1] by (simp add: checked_add_1_Some_iff)

lemma less_plus_1: "(a :: 'a::len word) < n \<Longrightarrow> n \<noteq> - 1 \<Longrightarrow> a < n + 1"
  by (simp add: word_less_nat_alt unat_plus_1)

lemma self_less_plus_1: "(n :: 'a::len word) \<noteq> - 1 \<Longrightarrow> n < n + 1"
  by (simp add: word_less_nat_alt unat_plus_1)

section \<open>Indices of type \<open>usize\<close>\<close>

text \<open>A \<open>usize\<close> that only counts or indexes is a natural number; its checked addition keeps the
  width of the machine.\<close>

definition usize_add :: "nat \<Rightarrow> nat \<Rightarrow> nat option" where
  [arith_defs]: "usize_add a b = (if a + b < 2 ^ 64 then Some (a + b) else None)"

definition usize_sub :: "nat \<Rightarrow> nat \<Rightarrow> nat option" where
  [arith_defs]: "usize_sub a b = (if b \<le> a then Some (a - b) else None)"

definition usize_mul :: "nat \<Rightarrow> nat \<Rightarrow> nat option" where
  [arith_defs]: "usize_mul a b = (if a * b < 2 ^ 64 then Some (a * b) else None)"

lemma usize_add_Some_iff: "usize_add a b = Some c \<longleftrightarrow> a + b < 2 ^ 64 \<and> c = a + b"
  by (auto simp: usize_add_def)

text \<open>\<open>slice[i]\<close>: out of range is a panic.\<close>

definition index :: "'a list \<Rightarrow> nat \<Rightarrow> 'a option" where
  "index xs i = (if i < length xs then Some (xs ! i) else None)"

definition store :: "'a list \<Rightarrow> nat \<Rightarrow> 'a \<Rightarrow> 'a list option" where
  "store xs i v = (if i < length xs then Some (xs[i := v]) else None)"

lemma index_Some_iff: "index xs i = Some v \<longleftrightarrow> i < length xs \<and> v = xs ! i"
  by (auto simp: index_def)

lemma store_Some_iff: "store xs i v = Some ys \<longleftrightarrow> i < length xs \<and> ys = xs[i := v]"
  by (auto simp: store_def)

lemma find_SomeD: "List.find P xs = Some x \<Longrightarrow> x \<in> set xs \<and> P x"
  by (auto simp: find_Some_iff)

lemma distinct_mset_subset:
  assumes "mset xs \<subseteq># mset ys" "distinct ys" shows "distinct xs"
proof -
  have le: "count (mset zs) a \<le> 1" if "distinct zs" for zs and a :: 'a
    using that by (simp add: distinct_count_atmost_1)
  have "count (mset xs) a \<le> 1" for a
    using mset_subset_eq_count [OF assms(1), of a] le [OF assms(2), of a] by linarith
  then have "count (mset xs) a = (if a \<in> set xs then 1 else 0)" for a
    by (metis One_nat_def count_mset_0_iff le_SucE le_zero_eq)
  then show ?thesis by (simp add: distinct_count_atmost_1)
qed

text \<open>A \<open>for\<close> loop whose body may panic.\<close>

fun for_each :: "('a \<Rightarrow> 's \<Rightarrow> 's option) \<Rightarrow> 'a list \<Rightarrow> 's \<Rightarrow> 's option" where
  "for_each f [] s = Some s"
| "for_each f (x # xs) s = do { s' \<leftarrow> f x s; for_each f xs s' }"

lemma for_each_append: "for_each f (xs @ ys) s = do { s' \<leftarrow> for_each f xs s; for_each f ys s' }"
  by (induction xs arbitrary: s) (auto split: bind_splits)

lemma for_each_inv:
  assumes "for_each f xs s = Some s'" "P s"
    and "\<And>x s s'. x \<in> set xs \<Longrightarrow> P s \<Longrightarrow> f x s = Some s' \<Longrightarrow> P s'"
  shows "P s'"
  using assms
proof (induction xs arbitrary: s)
  case (Cons x xs)
  from Cons.prems(1) obtain u where u: "f x s = Some u" "for_each f xs u = Some s'"
    by (auto split: bind_splits)
  then have "P u" using Cons.prems(2,3) by auto
  with u(2) Cons.IH Cons.prems(3) show ?case by (metis list.set_intros(2))
qed simp

lemma for_each_total:
  assumes "P s" and "\<And>x s. x \<in> set xs \<Longrightarrow> P s \<Longrightarrow> \<exists>s'. f x s = Some s' \<and> P s'"
  shows "\<exists>s'. for_each f xs s = Some s' \<and> P s'"
  using assms
proof (induction xs arbitrary: s)
  case (Cons x xs)
  from Cons.prems(2) [of x s] Cons.prems(1) obtain u where "f x s = Some u" "P u" by auto
  with Cons.IH [of u] Cons.prems(2) show ?case by auto
qed simp

end
