(* ===== verification/Btree_Map.thy ===== *)
theory Btree_Map
  imports Oxide_Prelude
begin

text \<open>
  The standard library's \<^verbatim>\<open>BTreeMap\<close>, as the kernel uses it: an association list in ascending key
  order, so that \<open>iter\<close>, \<open>keys\<close> and \<open>values\<close> have the order the source sees.  The look-up laws
  need no side condition; the order invariant \<open>bt_wf\<close> matters for iteration and \<open>len\<close> only.

  The locale \<open>kv_store\<close> is the contract a keyed store offers its clients.  It is interpreted here
  on the map itself, and later on the file system and on the agents' context store.
\<close>

type_synonym ('k, 'v) btree = "('k \<times> 'v) list"

definition bt_get :: "('k, 'v) btree \<Rightarrow> 'k \<Rightarrow> 'v option" where
  "bt_get m k = map_of m k"

fun bt_insert :: "'k::linorder \<Rightarrow> 'v \<Rightarrow> ('k, 'v) btree \<Rightarrow> ('k, 'v) btree" where
  "bt_insert k v [] = [(k, v)]"
| "bt_insert k v ((k', v') # m) =
     (if k < k' then (k, v) # (k', v') # m
      else if k = k' then (k, v) # m
      else (k', v') # bt_insert k v m)"

definition bt_remove :: "'k \<Rightarrow> ('k, 'v) btree \<Rightarrow> ('k, 'v) btree" where
  "bt_remove k m = filter (\<lambda>(k', _). k' \<noteq> k) m"

text \<open>A write through the reference returned by \<open>get_mut\<close>.\<close>

definition bt_modify :: "'k \<Rightarrow> ('v \<Rightarrow> 'v) \<Rightarrow> ('k, 'v) btree \<Rightarrow> ('k, 'v) btree" where
  "bt_modify k f m = map (\<lambda>(k', v). (k', if k' = k then f v else v)) m"

definition bt_keys :: "('k, 'v) btree \<Rightarrow> 'k list" where
  "bt_keys m = map fst m"

definition bt_wf :: "('k::linorder, 'v) btree \<Rightarrow> bool" where
  [wf_defs]: "bt_wf m \<longleftrightarrow> sorted_wrt (<) (map fst m)"

lemma bt_get_Nil [simp]: "bt_get [] k = None"
  by (simp add: bt_get_def)

lemma bt_get_insert [simp]: "bt_get (bt_insert k v m) k' = (if k' = k then Some v else bt_get m k')"
  by (induction m) (auto simp: bt_get_def)

lemma bt_get_insert_fun: "bt_get (bt_insert k v m) = (bt_get m)(k \<mapsto> v)"
  by (rule ext) simp

lemma bt_get_remove [simp]: "bt_get (bt_remove k m) k' = (if k' = k then None else bt_get m k')"
  by (induction m) (auto simp: bt_get_def bt_remove_def)

lemma bt_get_modify [simp]:
  "bt_get (bt_modify k f m) k' = (if k' = k then map_option f (bt_get m k) else bt_get m k')"
  by (induction m) (auto simp: bt_get_def bt_modify_def)

lemma bt_get_mem: "bt_get m k = Some v \<Longrightarrow> (k, v) \<in> set m"
  by (auto simp: bt_get_def dest: map_of_SomeD)

lemma set_keys_insert [simp]: "fst ` set (bt_insert k v m) = insert k (fst ` set m)"
  by (induction m) (simp, case_tac a, auto split: if_splits)

lemma dom_bt_get: "dom (bt_get m) = fst ` set m"
  by (simp add: bt_get_def [abs_def] dom_map_of_conv_image_fst)

lemma bt_wf_insert [simp, intro]: "bt_wf m \<Longrightarrow> bt_wf (bt_insert k v m)"
proof (induction m)
  case (Cons a m)
  obtain k' v' where a: "a = (k', v')" by (cases a)
  have "set (map fst (bt_insert k v m)) = insert k (set (map fst m))"
    using set_keys_insert [of k v m] by simp
  with Cons a show ?case by (auto simp: bt_wf_def)
qed (simp add: bt_wf_def)

lemma bt_wf_remove [simp, intro]: "bt_wf m \<Longrightarrow> bt_wf (bt_remove k m)"
  by (induction m) (auto simp: bt_wf_def bt_remove_def)

lemma bt_keys_modify [simp]: "map fst (bt_modify k f m) = map fst m"
  by (simp add: bt_modify_def case_prod_unfold comp_def)

lemma bt_wf_modify [simp, intro]: "bt_wf (bt_modify k f m) = bt_wf m"
  by (simp add: bt_wf_def)

lemma bt_wf_Nil [simp]: "bt_wf []"
  by (simp add: bt_wf_def)

lemma bt_wf_distinct: "bt_wf m \<Longrightarrow> distinct (map fst m)"
  by (simp add: bt_wf_def strict_sorted_iff)

lemma bt_wf_mem_get: "bt_wf m \<Longrightarrow> (k, v) \<in> set m \<Longrightarrow> bt_get m k = Some v"
  by (simp add: bt_get_def bt_wf_distinct)

lemma bt_mem_iff: "bt_wf m \<Longrightarrow> (k, v) \<in> set m \<longleftrightarrow> bt_get m k = Some v"
  by (auto intro: bt_wf_mem_get bt_get_mem)

text \<open>Two well-formed maps with the same bindings are the same list.\<close>

lemma bt_wf_eqI:
  assumes "bt_wf m" "bt_wf m'" "bt_get m = bt_get m'"
  shows "m = m'"
proof (rule map_sorted_distinct_set_unique [where f = fst])
  show sets: "set m = set m'"
    using assms bt_mem_iff by (metis subrelI subset_antisym)
  show "inj_on fst (set m \<union> set m')"
    using sets bt_wf_distinct [OF assms(1)] by (simp add: distinct_map)
qed (use assms in \<open>simp_all add: bt_wf_def strict_sorted_iff\<close>)

lemma bt_length_insert:
  "length (bt_insert k v m) \<le> Suc (length m)"
  by (induction m) auto

lemma bt_insert_last:
  "\<forall>k' \<in> fst ` set m. k' < k \<Longrightarrow> bt_insert k v m = m @ [(k, v)]"
  by (induction m) auto

section \<open>Keyed stores as an interface\<close>

datatype ('k, 'v) kv_op = Put 'k 'v | Del 'k

text \<open>A run of operations on an implementation, and the same run on a finite map.\<close>

fun kv_run :: "('k \<Rightarrow> 'v \<Rightarrow> 's \<Rightarrow> 's option) \<Rightarrow> ('k \<Rightarrow> 's \<Rightarrow> 's) \<Rightarrow> ('k, 'v) kv_op list \<Rightarrow> 's \<Rightarrow> 's option" where
  "kv_run put del [] s = Some s"
| "kv_run put del (Put k v # ops) s = (case put k v s of None \<Rightarrow> None | Some s' \<Rightarrow> kv_run put del ops s')"
| "kv_run put del (Del k # ops) s = kv_run put del ops (del k s)"

fun kv_spec :: "('k, 'v) kv_op list \<Rightarrow> ('k \<rightharpoonup> 'v) \<Rightarrow> ('k \<rightharpoonup> 'v)" where
  "kv_spec [] m = m"
| "kv_spec (Put k v # ops) m = kv_spec ops (m(k \<mapsto> v))"
| "kv_spec (Del k # ops) m = kv_spec ops (m(k := None))"

locale kv_store =
  fixes lookup :: "'s \<Rightarrow> 'k \<Rightarrow> 'v option"
    and put :: "'k \<Rightarrow> 'v \<Rightarrow> 's \<Rightarrow> 's option"
    and del :: "'k \<Rightarrow> 's \<Rightarrow> 's"
    and inv :: "'s \<Rightarrow> bool"
  assumes lookup_put: "inv s \<Longrightarrow> put k v s = Some s' \<Longrightarrow> lookup s' = (lookup s)(k \<mapsto> v)"
    and lookup_del: "inv s \<Longrightarrow> lookup (del k s) = (lookup s)(k := None)"
    and inv_put: "inv s \<Longrightarrow> put k v s = Some s' \<Longrightarrow> inv s'"
    and inv_del: "inv s \<Longrightarrow> inv (del k s)"
begin

lemma run_refines:
  "inv s \<Longrightarrow> kv_run put del ops s = Some s' \<Longrightarrow> lookup s' = kv_spec ops (lookup s) \<and> inv s'"
proof (induction ops arbitrary: s)
  case (Cons x ops)
  show ?case
  proof (cases x)
    case (Put k v)
    then obtain s1 where "put k v s = Some s1" "kv_run put del ops s1 = Some s'"
      using Cons.prems by (auto split: option.splits)
    moreover have "lookup s1 = (lookup s)(k \<mapsto> v)" "inv s1"
      using calculation Cons.prems(1) by (auto intro: lookup_put inv_put)
    ultimately show ?thesis using Put Cons.IH [of s1] by (simp only: kv_spec.simps)
  next
    case (Del k)
    then show ?thesis
      using Cons.IH [of "del k s"] Cons.prems lookup_del inv_del by (simp only: kv_spec.simps kv_run.simps)
  qed
qed simp

lemma run_other_keys:
  assumes "inv s" "kv_run put del ops s = Some s'"
    and "\<And>v. Put k v \<notin> set ops" "Del k \<notin> set ops"
  shows "lookup s' k = lookup s k"
proof -
  have "kv_spec ops m k = m k" for m :: "'k \<rightharpoonup> 'v"
    using assms(3,4) by (induction ops m rule: kv_spec.induct) auto
  with run_refines [OF assms(1,2)] show ?thesis by simp
qed

end

interpretation bt: kv_store bt_get "\<lambda>k v m. Some (bt_insert k v m)" bt_remove bt_wf
  by unfold_locales (auto simp: fun_eq_iff)

end
