(* ===== verification/Block_Cache.thy ===== *)
theory Block_Cache
  imports Btree_Map
begin

text \<open>
  \<^verbatim>\<open>storage/block_cache.rs\<close>: a write-back cache of at most 256 blocks with least-recently-used eviction, over a block device given by
  its two operations \<open>rd\<close> and \<open>wr\<close>.  \<open>None\<close> is a panic, of the access counter or inside the driver.
\<close>

type_synonym block = "u8 list"

type_synonym 'd read_fn = "u64 \<Rightarrow> 'd \<Rightarrow> ((string + block) \<times> 'd) option"
type_synonym 'd write_fn = "u64 \<Rightarrow> block \<Rightarrow> 'd \<Rightarrow> ((string + unit) \<times> 'd) option"

definition CACHE_SIZE :: nat where
  "CACHE_SIZE = 256"

record CachedBlock =
  cb_data :: block
  dirty :: bool
  access_count :: u64

record BlockCache =
  bc_cache :: "(u64, CachedBlock) btree"
  access_counter :: u64

definition bc_new :: BlockCache where
  "bc_new = \<lparr>bc_cache = [], access_counter = 0\<rparr>"

text \<open>\<open>iter().min_by_key(access_count)\<close>: the first entry with the smallest count.\<close>

fun min_by_count :: "(u64 \<times> CachedBlock) list \<Rightarrow> (u64 \<times> CachedBlock) option" where
  "min_by_count [] = None"
| "min_by_count (x # xs) =
     (case min_by_count xs of
        None \<Rightarrow> Some x
      | Some y \<Rightarrow> if access_count (snd y) < access_count (snd x) then Some y else Some x)"

definition evict_one :: "'d write_fn \<Rightarrow> BlockCache \<times> 'd \<Rightarrow> (BlockCache \<times> 'd) option" where
  "evict_one wr = (\<lambda>(c, d).
     case min_by_count (bc_cache c) of
       None \<Rightarrow> Some (c, d)
     | Some (num, block) \<Rightarrow> do {
         d \<leftarrow> (if dirty block then map_option snd (wr num (cb_data block) d) else Some d);
         Some (c\<lparr>bc_cache := bt_remove num (bc_cache c)\<rparr>, d)
       })"

definition bc_read :: "'d read_fn \<Rightarrow> 'd write_fn \<Rightarrow> u64 \<Rightarrow> BlockCache \<times> 'd \<Rightarrow> ((string + block) \<times> BlockCache \<times> 'd) option" where
  "bc_read rd wr block_num = (\<lambda>(c, d). do {
     n \<leftarrow> checked_add (access_counter c) 1;
     let c = c\<lparr>access_counter := n\<rparr>;
     case bt_get (bc_cache c) block_num of
       Some cached \<Rightarrow>
         Some (Inr (cb_data cached), c\<lparr>bc_cache := bt_modify block_num (\<lambda>b. b\<lparr>access_count := n\<rparr>) (bc_cache c)\<rparr>, d)
     | None \<Rightarrow> do {
         (r, d) \<leftarrow> rd block_num d;
         case r of
           Inl e \<Rightarrow> Some (Inl e, c, d)
         | Inr data \<Rightarrow> do {
             (c, d) \<leftarrow> (if CACHE_SIZE \<le> length (bc_cache c) then evict_one wr (c, d) else Some (c, d));
             let b = \<lparr>cb_data = data, dirty = False, access_count = n\<rparr>;
             Some (Inr data, c\<lparr>bc_cache := bt_insert block_num b (bc_cache c)\<rparr>, d)
           }
       }
   })"

definition bc_write :: "'d write_fn \<Rightarrow> u64 \<Rightarrow> block \<Rightarrow> BlockCache \<times> 'd \<Rightarrow> ((string + unit) \<times> BlockCache \<times> 'd) option" where
  "bc_write wr block_num data = (\<lambda>(c, d). do {
     n \<leftarrow> checked_add (access_counter c) 1;
     let c = c\<lparr>access_counter := n\<rparr>;
     (c, d) \<leftarrow> (if CACHE_SIZE \<le> length (bc_cache c) \<and> bt_get (bc_cache c) block_num = None then evict_one wr (c, d) else Some (c, d));
     let b = \<lparr>cb_data = data, dirty = True, access_count = n\<rparr>;
     Some (Inr (), c\<lparr>bc_cache := bt_insert block_num b (bc_cache c)\<rparr>, d)
   })"

text \<open>The loop of \<open>flush\<close>, which ends with the first error.\<close>

fun write_all :: "'d write_fn \<Rightarrow> (u64 \<times> block) list \<Rightarrow> 'd \<Rightarrow> ((string + unit) \<times> 'd) option" where
  "write_all wr [] d = Some (Inr (), d)"
| "write_all wr ((num, data) # bs) d = do {
     (r, d) \<leftarrow> wr num data d;
     case r of Inl e \<Rightarrow> Some (Inl e, d) | Inr _ \<Rightarrow> write_all wr bs d
   }"

definition bc_flush :: "'d write_fn \<Rightarrow> BlockCache \<times> 'd \<Rightarrow> ((string + nat) \<times> BlockCache \<times> 'd) option" where
  "bc_flush wr = (\<lambda>(c, d). do {
     let ds = map (\<lambda>(n, b). (n, cb_data b)) (filter (\<lambda>(_, b). dirty b) (bc_cache c));
     (r, d) \<leftarrow> write_all wr ds d;
     case r of
       Inl e \<Rightarrow> Some (Inl e, c, d)
     | Inr _ \<Rightarrow>
         Some (Inr (length ds), c\<lparr>bc_cache := fold (\<lambda>(n, _). bt_modify n (\<lambda>b. b\<lparr>dirty := False\<rparr>)) ds (bc_cache c)\<rparr>, d)
   })"

section \<open>The device's contract and what the cache shows\<close>

definition bc_view :: "('d \<Rightarrow> u64 \<Rightarrow> block) \<Rightarrow> BlockCache \<times> 'd \<Rightarrow> u64 \<Rightarrow> block" where
  "bc_view disk = (\<lambda>(c, d) n. case bt_get (bc_cache c) n of Some b \<Rightarrow> cb_data b | None \<Rightarrow> disk d n)"

text \<open>The cache is sorted and bounded, holds blocks of the device only, and a clean block agrees with the device.\<close>

definition bc_wf :: "('d \<Rightarrow> u64 \<Rightarrow> block) \<Rightarrow> ('d \<Rightarrow> bool) \<Rightarrow> u64 \<Rightarrow> BlockCache \<times> 'd \<Rightarrow> bool" where
  [wf_defs]: "bc_wf disk ok cap = (\<lambda>(c, d). bt_wf (bc_cache c) \<and> length (bc_cache c) \<le> CACHE_SIZE \<and> ok d
     \<and> (\<forall>n b. bt_get (bc_cache c) n = Some b \<longrightarrow> n < cap \<and> length (cb_data b) = 512 \<and> (\<not> dirty b \<longrightarrow> cb_data b = disk d n)))"

lemma bt_length_remove:
  assumes "bt_wf m" "bt_get m k = Some v" shows "Suc (length (bt_remove k m)) = length m"
  using assms
proof (induction m)
  case (Cons x m)
  obtain k' v' where x: "x = (k', v')" by (cases x)
  show ?case
  proof (cases "k' = k")
    case True
    with Cons.prems x have "\<forall>y \<in> set m. fst y \<noteq> k" by (auto simp: bt_wf_def)
    then have "filter (\<lambda>(k', _). k' \<noteq> k) m = m" by (intro filter_True) auto
    with True x show ?thesis by (simp add: bt_remove_def)
  next
    case False
    with Cons x show ?thesis by (auto simp: bt_remove_def bt_get_def bt_wf_def)
  qed
qed simp

lemma bt_length_insert_new:
  assumes "bt_wf m" "bt_get m k = None" shows "length (bt_insert k v m) = Suc (length m)"
  using assms by (induction m) (auto simp: bt_get_def bt_wf_def split: if_splits)

lemma bt_length_insert_old:
  assumes "bt_wf m" "bt_get m k = Some w" shows "length (bt_insert k v m) = length m"
  using assms
proof (induction m)
  case (Cons x m)
  obtain k' v' where x: "x = (k', v')" by (cases x)
  have "\<not> k < k'" if "k \<noteq> k'"
    using Cons.prems x that by (force simp: bt_wf_def bt_get_def dest: map_of_SomeD)
  with Cons x show ?case by (auto simp: bt_get_def bt_wf_def split: if_splits)
qed simp

lemma min_by_count_mem: "min_by_count xs = Some x \<Longrightarrow> x \<in> set xs"
  by (induction xs arbitrary: x) (auto split: option.splits if_splits)

lemma min_by_count_None: "min_by_count xs = None \<longleftrightarrow> xs = []"
  by (cases xs) (auto split: option.splits)

text \<open>Inserting a block after making room.\<close>

lemma insert_ok:
  assumes "bc_wf disk ok cap (c, d)" "n < cap" "length (cb_data b) = 512" "\<not> dirty b \<longrightarrow> cb_data b = disk d n"
    "length (bc_cache c) < CACHE_SIZE \<or> bt_get (bc_cache c) n \<noteq> None"
  shows "bc_wf disk ok cap (c\<lparr>bc_cache := bt_insert n b (bc_cache c)\<rparr>, d)"
    "bc_view disk (c\<lparr>bc_cache := bt_insert n b (bc_cache c)\<rparr>, d) = (bc_view disk (c, d))(n := cb_data b)"
proof -
  have wf: "bt_wf (bc_cache c)" "length (bc_cache c) \<le> CACHE_SIZE" using assms(1) by (auto simp: bc_wf_def)
  have "length (bt_insert n b (bc_cache c)) \<le> CACHE_SIZE"
    using assms(5) wf bt_length_insert_new [OF wf(1), of n b] bt_length_insert_old [OF wf(1), of n _ b]
    by (cases "bt_get (bc_cache c) n") auto
  then show "bc_wf disk ok cap (c\<lparr>bc_cache := bt_insert n b (bc_cache c)\<rparr>, d)"
    using assms by (auto simp: bc_wf_def)
  show "bc_view disk (c\<lparr>bc_cache := bt_insert n b (bc_cache c)\<rparr>, d) = (bc_view disk (c, d))(n := cb_data b)"
    by (auto simp: bc_view_def fun_eq_iff)
qed

lemma counter_ok [simp]:
  "bc_wf disk ok cap (c\<lparr>access_counter := i\<rparr>, d) = bc_wf disk ok cap (c, d)" "bc_view disk (c\<lparr>access_counter := i\<rparr>, d) = bc_view disk (c, d)"
  by (simp_all add: bc_wf_def bc_view_def)

lemma fold_upd_lookup:
  "distinct (map fst bs) \<Longrightarrow> fold (\<lambda>(n, b) f. f(n := b)) bs f n = (case map_of bs n of Some b \<Rightarrow> b | None \<Rightarrow> f n)"
proof (induction bs arbitrary: f)
  case (Cons x bs)
  obtain k b where x: "x = (k, b)" by (cases x)
  have "map_of bs k = None" using Cons.prems x by (simp add: map_of_eq_None_iff)
  with Cons.IH [of "f(k := b)"] Cons.prems x show ?case by (cases "k = n") (auto split: option.splits)
qed simp

lemma fold_clean_get:
  "bt_get (fold (\<lambda>(n, _). bt_modify n (\<lambda>b. b\<lparr>dirty := False\<rparr>)) bs m) k =
     map_option (\<lambda>b. if k \<in> fst ` set bs then b\<lparr>dirty := False\<rparr> else b) (bt_get m k)"
proof (induction bs arbitrary: m)
  case (Cons x bs)
  show ?case by (cases "bt_get m k") (auto simp: Cons split: prod.splits)
qed (simp add: option.map_ident)

lemma fold_clean_keys: "map fst (fold (\<lambda>(n, _). bt_modify n f) bs m) = map fst m"
  by (induction bs arbitrary: m) auto

lemma dirty_lookup:
  "distinct (map fst m) \<Longrightarrow> map_of (map (\<lambda>(n, b). (n, cb_data b)) (filter (\<lambda>(_, b). dirty b) m)) n =
     (case map_of m n of Some b \<Rightarrow> if dirty b then Some (cb_data b) else None | None \<Rightarrow> None)"
proof (induction m)
  case (Cons x m)
  obtain k b where x: "x = (k, b)" by (cases x)
  have "map_of m k = None" using Cons.prems x by (simp add: map_of_eq_None_iff)
  with Cons x show ?case by (cases "k = n") auto
qed simp

text \<open>
  What the cache needs of a device with blocks \<open>n < cap\<close>: reads return the stored block and change nothing, writes store it and
  change no other block, and neither fails.
\<close>

locale block_device =
  fixes rd :: "'d read_fn" and wr :: "'d write_fn" and disk :: "'d \<Rightarrow> u64 \<Rightarrow> block" and ok :: "'d \<Rightarrow> bool" and cap :: u64
  assumes read_law: "\<lbrakk>n < cap; ok d\<rbrakk> \<Longrightarrow> \<exists>d'. rd n d = Some (Inr (disk d n), d') \<and> ok d' \<and> disk d' = disk d"
    and write_law: "\<lbrakk>n < cap; ok d; length b = 512\<rbrakk> \<Longrightarrow> \<exists>d'. wr n b d = Some (Inr (), d') \<and> ok d' \<and> disk d' = (disk d)(n := b)"
    and size_law: "\<lbrakk>n < cap; ok d\<rbrakk> \<Longrightarrow> length (disk d n) = 512"
begin

text \<open>Eviction frees a slot and changes nothing that can be seen.\<close>

lemma evict_one_ok:
  assumes wf: "bc_wf disk ok cap (c, d)"
  obtains c' d' where "evict_one wr (c, d) = Some (c', d')" "bc_wf disk ok cap (c', d')" "bc_view disk (c', d') = bc_view disk (c, d)"
    "bc_cache c \<noteq> [] \<longrightarrow> Suc (length (bc_cache c')) = length (bc_cache c)"
    "\<forall>n. bt_get (bc_cache c) n = None \<longrightarrow> bt_get (bc_cache c') n = None" "access_counter c' = access_counter c"
proof (cases "min_by_count (bc_cache c)")
  case None
  then show thesis using wf by (intro that [of c d]) (simp_all add: evict_one_def min_by_count_None)
next
  case (Some x)
  obtain num b where x: "x = (num, b)" by (cases x)
  have m: "bt_wf (bc_cache c)" "length (bc_cache c) \<le> CACHE_SIZE" "ok d"
    "\<And>n b. bt_get (bc_cache c) n = Some b \<Longrightarrow> n < cap \<and> length (cb_data b) = 512 \<and> (\<not> dirty b \<longrightarrow> cb_data b = disk d n)"
    using wf by (auto simp: bc_wf_def)
  have get: "bt_get (bc_cache c) num = Some b" using min_by_count_mem [OF Some] m(1) x by (auto intro: bt_wf_mem_get)
  note b = m(4) [OF get]
  obtain d' where d': "(if dirty b then map_option snd (wr num (cb_data b) d) else Some d) = Some d'" "ok d'"
    "disk d' = (disk d)(num := cb_data b)"
  proof (cases "dirty b")
    case True
    from b have "num < cap" "length (cb_data b) = 512" by auto
    then obtain d' where "wr num (cb_data b) d = Some (Inr (), d')" "ok d'" "disk d' = (disk d)(num := cb_data b)"
      using write_law [OF _ m(3)] by metis
    with True that show thesis by simp
  next
    case False
    with b m(3) that show thesis by (simp add: fun_upd_idem)
  qed
  have len: "Suc (length (bt_remove num (bc_cache c))) = length (bc_cache c)" by (rule bt_length_remove [OF m(1) get])
  show thesis
  proof (rule that [of "c\<lparr>bc_cache := bt_remove num (bc_cache c)\<rparr>" d'])
    show "evict_one wr (c, d) = Some (c\<lparr>bc_cache := bt_remove num (bc_cache c)\<rparr>, d')" using Some x d'(1) by (simp add: evict_one_def Let_def)
    show "bc_wf disk ok cap (c\<lparr>bc_cache := bt_remove num (bc_cache c)\<rparr>, d')"
      using m(1,2) d'(2,3) len m(4) by (auto simp: bc_wf_def split: if_splits)
    show "bc_view disk (c\<lparr>bc_cache := bt_remove num (bc_cache c)\<rparr>, d') = bc_view disk (c, d)"
      using d'(3) get by (auto simp: bc_view_def fun_eq_iff split: option.splits)
  qed (use len in simp_all)
qed

text \<open>Making room for a block that is not cached.\<close>

lemma make_room:
  assumes wf: "bc_wf disk ok cap (c, d)" and p: "p \<longleftrightarrow> CACHE_SIZE \<le> length (bc_cache c)"
  obtains c' d' where "(if p then evict_one wr (c, d) else Some (c, d)) = Some (c', d')" "bc_wf disk ok cap (c', d')"
    "bc_view disk (c', d') = bc_view disk (c, d)" "length (bc_cache c') < CACHE_SIZE"
    "\<forall>n. bt_get (bc_cache c) n = None \<longrightarrow> bt_get (bc_cache c') n = None" "access_counter c' = access_counter c"
proof (cases p)
  case True
  with p wf have "bc_cache c \<noteq> []" "length (bc_cache c) = CACHE_SIZE" by (auto simp: CACHE_SIZE_def bc_wf_def)
  moreover obtain c' d' where "evict_one wr (c, d) = Some (c', d')" "bc_wf disk ok cap (c', d')" "bc_view disk (c', d') = bc_view disk (c, d)"
    "bc_cache c \<noteq> [] \<longrightarrow> Suc (length (bc_cache c')) = length (bc_cache c)"
    "\<forall>n. bt_get (bc_cache c) n = None \<longrightarrow> bt_get (bc_cache c') n = None" "access_counter c' = access_counter c"
    by (rule evict_one_ok [OF wf])
  ultimately show thesis using that [of c' d'] True by simp
next
  case False
  with p wf show thesis by (intro that [of c d]) simp_all
qed

text \<open>Both operations return while the access counter is below its maximum.\<close>

lemma bc_write_ok:
  assumes wf: "bc_wf disk ok cap s" and n: "n < cap" "length b = 512" and room: "Suc (unat (access_counter (fst s))) < 2 ^ 64"
  obtains s' where "bc_write wr n b s = Some (Inr (), s')" "bc_wf disk ok cap s'" "bc_view disk s' = (bc_view disk s)(n := b)"
    "unat (access_counter (fst s')) = Suc (unat (access_counter (fst s)))"
proof -
  obtain c d where s: "s = (c, d)" by (cases s)
  from room s obtain i where i: "checked_add (access_counter c) 1 = Some i" by (simp add: checked_add_def)
  then have u: "unat i = Suc (unat (access_counter c))" by (auto dest: checked_add_unat)
  let ?c = "c\<lparr>access_counter := i\<rparr>" and ?b = "\<lparr>cb_data = b, dirty = True, access_count = i\<rparr>"
  let ?full = "CACHE_SIZE \<le> length (bc_cache c) \<and> bt_get (bc_cache c) n = None"
  have wf1: "bc_wf disk ok cap (?c, d)" using wf s by simp
  obtain c1 d1 where e: "(if ?full then evict_one wr (?c, d) else Some (?c, d)) = Some (c1, d1)" "bc_wf disk ok cap (c1, d1)"
    "bc_view disk (c1, d1) = bc_view disk s" "length (bc_cache c1) < CACHE_SIZE \<or> bt_get (bc_cache c1) n \<noteq> None" "access_counter c1 = i"
  proof (cases "bt_get (bc_cache c) n")
    case None
    show thesis by (rule make_room [OF wf1, of ?full]) (use None s that in auto)
  next
    case (Some x)
    with that [of ?c d] wf1 s show thesis by simp
  qed
  have "bc_write wr n b s = Some (Inr (), c1\<lparr>bc_cache := bt_insert n ?b (bc_cache c1)\<rparr>, d1)"
    using s i e(1) by (simp add: bc_write_def)
  with insert_ok [of disk ok cap c1 d1 n ?b] e n s u that show thesis by simp
qed

lemma bc_read_ok:
  assumes wf: "bc_wf disk ok cap s" and n: "n < cap" and room: "Suc (unat (access_counter (fst s))) < 2 ^ 64"
  obtains s' where "bc_read rd wr n s = Some (Inr (bc_view disk s n), s')" "bc_wf disk ok cap s'" "bc_view disk s' = bc_view disk s"
    "unat (access_counter (fst s')) = Suc (unat (access_counter (fst s)))"
proof -
  obtain c d where s: "s = (c, d)" by (cases s)
  from room s obtain i where i: "checked_add (access_counter c) 1 = Some i" by (simp add: checked_add_def)
  then have u: "unat i = Suc (unat (access_counter c))" by (auto dest: checked_add_unat)
  let ?c = "c\<lparr>access_counter := i\<rparr>"
  have wf1: "bc_wf disk ok cap (?c, d)" using wf s by simp
  show thesis
  proof (cases "bt_get (bc_cache c) n")
    case (Some b)
    let ?s = "(?c\<lparr>bc_cache := bt_modify n (\<lambda>b. b\<lparr>access_count := i\<rparr>) (bc_cache c)\<rparr>, d)"
    have r: "bc_read rd wr n s = Some (Inr (cb_data b), ?s)" using s i Some by (simp add: bc_read_def)
    have "length (bt_modify n (\<lambda>b. b\<lparr>access_count := i\<rparr>) (bc_cache c)) = length (bc_cache c)" by (simp add: bt_modify_def)
    then have "bc_wf disk ok cap ?s" using wf s by (auto simp: bc_wf_def split: if_splits)
    moreover have "bc_view disk ?s = bc_view disk s" using s Some by (auto simp: bc_view_def fun_eq_iff split: option.splits)
    moreover have "cb_data b = bc_view disk s n" using s Some by (simp add: bc_view_def)
    ultimately show thesis using that [of ?s] r u s by simp
  next
    case None
    have "ok d" using wf s by (simp add: bc_wf_def)
    then obtain d1 where rd: "rd n d = Some (Inr (disk d n), d1)" "ok d1" "disk d1 = disk d" using read_law [OF n] by metis
    have len: "length (disk d n) = 512" by (rule size_law [OF n \<open>ok d\<close>])
    have wf2: "bc_wf disk ok cap (?c, d1)" using wf1 rd by (auto simp: bc_wf_def)
    have view: "bc_view disk (?c, d1) = bc_view disk s" using rd s by (auto simp: bc_view_def fun_eq_iff split: option.splits)
    obtain c2 d2 where e: "(if CACHE_SIZE \<le> length (bc_cache c) then evict_one wr (?c, d1) else Some (?c, d1)) = Some (c2, d2)"
      "bc_wf disk ok cap (c2, d2)" "bc_view disk (c2, d2) = bc_view disk s" "length (bc_cache c2) < CACHE_SIZE" "bt_get (bc_cache c2) n = None"
      "access_counter c2 = i"
      by (rule make_room [OF wf2, of "CACHE_SIZE \<le> length (bc_cache c)"]) (use view None that in auto)
    have dn: "bc_view disk s n = disk d n" using None s by (simp add: bc_view_def)
    with e(3) e(5) have "disk d n = disk d2 n" by (metis (no_types, lifting) bc_view_def case_prod_conv option.simps(4))
    let ?s = "(c2\<lparr>bc_cache := bt_insert n \<lparr>cb_data = disk d n, dirty = False, access_count = i\<rparr> (bc_cache c2)\<rparr>, d2)"
    have "bc_read rd wr n s = Some (Inr (disk d n), ?s)" using s i None rd(1) e(1) by (simp add: bc_read_def)
    moreover have "bc_wf disk ok cap ?s" "bc_view disk ?s = (bc_view disk s)(n := disk d n)"
      using insert_ok [of disk ok cap c2 d2 n "\<lparr>cb_data = disk d n, dirty = False, access_count = i\<rparr>"] e(2-4) n len \<open>disk d n = disk d2 n\<close>
      by simp_all
    moreover have "(bc_view disk s)(n := disk d n) = bc_view disk s" using dn by (metis fun_upd_triv)
    ultimately show thesis using that [of ?s] dn u e(6) s by simp
  qed
qed

lemma write_all_ok:
  assumes "ok d" "\<forall>(n, b) \<in> set bs. n < cap \<and> length b = 512"
  shows "\<exists>d'. write_all wr bs d = Some (Inr (), d') \<and> ok d' \<and> disk d' = fold (\<lambda>(n, b) f. f(n := b)) bs (disk d)"
  using assms
proof (induction bs arbitrary: d)
  case (Cons x bs)
  obtain n b where x: "x = (n, b)" by (cases x)
  with Cons.prems have "n < cap" "length b = 512" by auto
  then obtain d1 where "wr n b d = Some (Inr (), d1)" "ok d1" "disk d1 = (disk d)(n := b)"
    using write_law [OF _ Cons.prems(1)] by metis
  with Cons.IH [of d1] Cons.prems x show ?case by auto
qed simp

lemma bc_flush_ok:
  assumes wf: "bc_wf disk ok cap s"
  shows "\<exists>s'. bc_flush wr s = Some (Inr (length (filter (\<lambda>(_, b). dirty b) (bc_cache (fst s)))), s') \<and> bc_wf disk ok cap s'
    \<and> access_counter (fst s') = access_counter (fst s)
    \<and> bc_view disk s' = bc_view disk s \<and> disk (snd s') = bc_view disk s
    \<and> (\<forall>n b. bt_get (bc_cache (fst s')) n = Some b \<longrightarrow> \<not> dirty b)"
proof -
  obtain c d where s: "s = (c, d)" by (cases s)
  let ?ds = "filter (\<lambda>(_, b). dirty b) (bc_cache c)"
  let ?ws = "map (\<lambda>(n, b). (n, cb_data b)) ?ds"
  have m: "bt_wf (bc_cache c)" "length (bc_cache c) \<le> CACHE_SIZE" "ok d"
    "\<And>n b. bt_get (bc_cache c) n = Some b \<Longrightarrow> n < cap \<and> length (cb_data b) = 512 \<and> (\<not> dirty b \<longrightarrow> cb_data b = disk d n)"
    using wf s by (auto simp: bc_wf_def)
  have dist: "distinct (map fst ?ws)"
    using distinct_map_filter [OF bt_wf_distinct [OF m(1)], of "\<lambda>(_, b). dirty b"] by (simp add: comp_def case_prod_unfold)
  have look: "map_of ?ws n = (case bt_get (bc_cache c) n of Some b \<Rightarrow> if dirty b then Some (cb_data b) else None | None \<Rightarrow> None)" for n
    using dirty_lookup [OF bt_wf_distinct [OF m(1)]] by (simp add: bt_get_def)
  have "\<forall>(n, b) \<in> set ?ws. n < cap \<and> length b = 512" using m(4) bt_wf_mem_get [OF m(1)] by fastforce
  from write_all_ok [OF m(3) this] obtain d' where d': "write_all wr ?ws d = Some (Inr (), d')" "ok d'"
    "disk d' = fold (\<lambda>(n, b) f. f(n := b)) ?ws (disk d)" by blast
  have disk: "disk d' = bc_view disk (c, d)"
    using m(4) by (auto simp: d'(3) fun_eq_iff fold_upd_lookup [OF dist] look bc_view_def split: option.splits)
  define c' where "c' = c\<lparr>bc_cache := fold (\<lambda>(n, _). bt_modify n (\<lambda>b. b\<lparr>dirty := False\<rparr>)) ?ws (bc_cache c)\<rparr>"
  have keys: "map fst (bc_cache c') = map fst (bc_cache c)" by (simp add: c'_def fold_clean_keys)
  have in_ws: "n \<in> fst ` set ?ws \<longleftrightarrow> (\<exists>b. bt_get (bc_cache c) n = Some b \<and> dirty b)" for n
  proof -
    have "n \<in> fst ` set ?ws \<longleftrightarrow> map_of ?ws n \<noteq> None" by (simp only: map_of_eq_None_iff not_not)
    then show ?thesis unfolding look by (simp split: option.splits)
  qed
  have get: "bt_get (bc_cache c') n = map_option (\<lambda>b. b\<lparr>dirty := False\<rparr>) (bt_get (bc_cache c) n)" for n
  proof (cases "bt_get (bc_cache c) n")
    case (Some b)
    then have "bt_get (bc_cache c') n = Some (if n \<in> fst ` set ?ws then b\<lparr>dirty := False\<rparr> else b)"
      using fold_clean_get [of ?ws "bc_cache c" n] by (simp add: c'_def)
    moreover have "n \<in> fst ` set ?ws \<longleftrightarrow> dirty b" using Some unfolding in_ws by simp
    moreover have "\<not> dirty b \<Longrightarrow> b\<lparr>dirty := False\<rparr> = b" by simp
    ultimately show ?thesis unfolding Some by (cases "dirty b") simp_all
  qed (simp add: c'_def fold_clean_get)
  have len: "length (bc_cache c') = length (bc_cache c)" using arg_cong [OF keys, of length] by simp
  have "bt_wf (bc_cache c')" using m(1) keys by (simp add: bt_wf_def)
  then have "bc_wf disk ok cap (c', d')" using m(2,4) d'(2) len by (auto simp: bc_wf_def get disk bc_view_def split: option.splits)
  moreover have "bc_view disk (c', d') = bc_view disk (c, d)"
    by (auto simp: bc_view_def get disk fun_eq_iff split: option.splits)
  moreover have "bc_flush wr s = Some (Inr (length ?ds), c', d')" using d'(1) s by (simp add: bc_flush_def Let_def c'_def)
  moreover have "access_counter c' = access_counter c" by (simp add: c'_def)
  ultimately show ?thesis using s disk get by auto
qed

end

section \<open>Runs of operations\<close>

datatype cache_op = Read_block u64 | Write_block u64 block | Flush_cache

fun op_ok :: "u64 \<Rightarrow> cache_op \<Rightarrow> bool" where
  "op_ok cap (Read_block n) = (n < cap)"
| "op_ok cap (Write_block n b) = (n < cap \<and> length b = 512)"
| "op_ok cap Flush_cache = True"

text \<open>A run on the cache with the blocks it read, and the same run on an array of blocks.\<close>

fun cache_run :: "'d read_fn \<Rightarrow> 'd write_fn \<Rightarrow> cache_op list \<Rightarrow> BlockCache \<times> 'd \<Rightarrow> ((string + block) list \<times> BlockCache \<times> 'd) option" where
  "cache_run rd wr [] s = Some ([], s)"
| "cache_run rd wr (Read_block n # ops) s = do { (r, s) \<leftarrow> bc_read rd wr n s; (rs, s) \<leftarrow> cache_run rd wr ops s; Some (r # rs, s) }"
| "cache_run rd wr (Write_block n b # ops) s = do { (_, s) \<leftarrow> bc_write wr n b s; cache_run rd wr ops s }"
| "cache_run rd wr (Flush_cache # ops) s = do { (_, s) \<leftarrow> bc_flush wr s; cache_run rd wr ops s }"

fun array_run :: "cache_op list \<Rightarrow> (u64 \<Rightarrow> block) \<Rightarrow> (string + block) list \<times> (u64 \<Rightarrow> block)" where
  "array_run [] a = ([], a)"
| "array_run (Read_block n # ops) a = (case array_run ops a of (rs, a') \<Rightarrow> (Inr (a n) # rs, a'))"
| "array_run (Write_block n b # ops) a = array_run ops (a(n := b))"
| "array_run (Flush_cache # ops) a = array_run ops a"

context block_device
begin

lemma cache_run_ok:
  assumes "bc_wf disk ok cap s" "\<forall>x \<in> set ops. op_ok cap x" "unat (access_counter (fst s)) + length ops < 2 ^ 64"
  shows "\<exists>s'. cache_run rd wr ops s = Some (fst (array_run ops (bc_view disk s)), s') \<and> bc_wf disk ok cap s'
    \<and> bc_view disk s' = snd (array_run ops (bc_view disk s))"
  using assms
proof (induction ops arbitrary: s)
  case (Cons x ops)
  show ?case
  proof (cases x)
    case (Read_block n)
    with Cons.prems obtain s1 where r: "bc_read rd wr n s = Some (Inr (bc_view disk s n), s1)" "bc_wf disk ok cap s1"
      "bc_view disk s1 = bc_view disk s" "unat (access_counter (fst s1)) = Suc (unat (access_counter (fst s)))"
      by (auto elim: bc_read_ok [of s n])
    with Cons.IH [of s1] Cons.prems obtain s' where "cache_run rd wr ops s1 = Some (fst (array_run ops (bc_view disk s)), s')"
      "bc_wf disk ok cap s'" "bc_view disk s' = snd (array_run ops (bc_view disk s))" by auto
    with Read_block r show ?thesis by (simp split: prod.splits)
  next
    case (Write_block n b)
    with Cons.prems obtain s1 where r: "bc_write wr n b s = Some (Inr (), s1)" "bc_wf disk ok cap s1"
      "bc_view disk s1 = (bc_view disk s)(n := b)" "unat (access_counter (fst s1)) = Suc (unat (access_counter (fst s)))"
      by (auto elim: bc_write_ok [of s n b])
    then have "unat (access_counter (fst s1)) + length ops < 2 ^ 64" using Cons.prems(3) by simp
    with Cons.IH [OF r(2)] Cons.prems(2) obtain s' where "cache_run rd wr ops s1 = Some (fst (array_run ops (bc_view disk s1)), s')"
      "bc_wf disk ok cap s'" "bc_view disk s' = snd (array_run ops (bc_view disk s1))" by (meson list.set_intros(2))
    with Write_block r show ?thesis by simp
  next
    case Flush_cache
    from bc_flush_ok [OF Cons.prems(1)] obtain r s1 where s1: "bc_flush wr s = Some (r, s1)" "bc_wf disk ok cap s1"
      "bc_view disk s1 = bc_view disk s" "access_counter (fst s1) = access_counter (fst s)" by blast
    with Cons.IH [of s1] Cons.prems Flush_cache show ?thesis by auto
  qed
qed simp

text \<open>A whole run from the empty cache, with a final flush.\<close>

lemma cache_refines:
  assumes "ok d" "\<forall>x \<in> set ops. op_ok cap x" "length ops < 2 ^ 64"
  shows "\<exists>s' n s2. cache_run rd wr ops (bc_new, d) = Some (fst (array_run ops (disk d)), s') \<and> length (bc_cache (fst s')) \<le> CACHE_SIZE
    \<and> bc_flush wr s' = Some (Inr n, s2) \<and> disk (snd s2) = snd (array_run ops (disk d))"
proof -
  have wf: "bc_wf disk ok cap (bc_new, d)" using assms(1) by (simp add: bc_wf_def bc_new_def)
  have view: "bc_view disk (bc_new, d) = disk d" by (simp add: bc_view_def bc_new_def)
  obtain s' where s': "cache_run rd wr ops (bc_new, d) = Some (fst (array_run ops (disk d)), s')" "bc_wf disk ok cap s'"
    "bc_view disk s' = snd (array_run ops (disk d))"
    using cache_run_ok [OF wf assms(2)] assms(3) unfolding view by (auto simp: bc_new_def)
  then have "length (bc_cache (fst s')) \<le> CACHE_SIZE" by (cases s') (simp add: bc_wf_def)
  with s' bc_flush_ok [OF s'(2)] show ?thesis by auto
qed

end

text \<open>An eviction whose write fails loses the block: the error is dropped and the old contents of the device reappear.\<close>

lemma eviction_loses_block:
  assumes "min_by_count (bc_cache c) = Some (n, b)" "dirty b" "wr n (cb_data b) d = Some (Inl e, d)"
  obtains s' where "evict_one wr (c, d) = Some s'" "bc_view disk s' n = disk d n"
  using assms by (simp add: evict_one_def bc_view_def)

section \<open>Properties\<close>

text \<open>C13. The block cache refines an array of blocks: over a device that serves its blocks, any sequence of fewer than $2^{64}$ reads, writes
  and flushes from the empty cache returns what the same sequence on an array returns, through hits, misses and evictions, with
  never more than 256 blocks cached; a final flush leaves the array on the device.\<close>

theorem cache_refines_array:
  assumes "block_device rd wr disk ok cap" "ok d" "\<forall>x \<in> set ops. op_ok cap x" "length ops < 2 ^ 64"
  shows "\<exists>s' n s2. cache_run rd wr ops (bc_new, d) = Some (fst (array_run ops (disk d)), s') \<and> length (bc_cache (fst s')) \<le> CACHE_SIZE
    \<and> bc_flush wr s' = Some (Inr n, s2) \<and> disk (snd s2) = snd (array_run ops (disk d))"
  using assms by (rule block_device.cache_refines)

text \<open>A device that is an array.\<close>

definition array_read :: "(u64 \<Rightarrow> block) read_fn" where
  "array_read n a = Some (Inr (a n), a)"

definition array_write :: "(u64 \<Rightarrow> block) write_fn" where
  "array_write n b a = Some (Inr (), a(n := b))"

theorem cache_refines_array_witness:
  "\<exists>s'. cache_run array_read array_write [Write_block 3 (replicate 512 7), Read_block 3, Flush_cache, Read_block 4] (bc_new, \<lambda>_. replicate 512 0) =
     Some ([Inr (replicate 512 7), Inr (replicate 512 0)], s')"
proof -
  have dev: "block_device array_read array_write (\<lambda>a. a) (\<lambda>a. \<forall>n. length (a n) = 512) 100"
    by unfold_locales (auto simp: array_read_def array_write_def)
  show ?thesis
    using cache_refines_array [OF dev, of "\<lambda>_. replicate 512 0" "[Write_block 3 (replicate 512 7), Read_block 3, Flush_cache, Read_block 4]"]
    by (auto simp: word_less_nat_alt)
qed

end
