(* ===== verification/Byte_Codec.thy ===== *)
theory Byte_Codec
  imports Oxide_Prelude
begin

text \<open>
  Bytes as the kernel handles them: \<open>to_le_bytes\<close> and \<open>from_le_bytes\<close> at the width of the integer, slices with their bounds
  checks, and \<open>copy_from_slice\<close>.  The disk layout, the virtqueues and the loader of executables share it.
\<close>

section \<open>Little-endian integers\<close>

definition to_le_bytes :: "'a::len word \<Rightarrow> u8 list" where
  "to_le_bytes w = map (\<lambda>i. ucast (drop_bit (8 * i) w)) [0..<LENGTH('a) div 8]"

fun from_le_bytes :: "u8 list \<Rightarrow> 'a::len word" where
  "from_le_bytes [] = 0"
| "from_le_bytes (b # bs) = ucast b OR push_bit 8 (from_le_bytes bs)"

lemma length_to_le_bytes [simp]: "length (to_le_bytes (w :: 'a::len word)) = LENGTH('a) div 8"
  by (simp add: to_le_bytes_def)

lemma bit_from_le_bytes:
  "bit (from_le_bytes bs :: 'a::len word) n \<longleftrightarrow> n < LENGTH('a) \<and> n div 8 < length bs \<and> bit (bs ! (n div 8)) (n mod 8)"
proof (induction bs arbitrary: n)
  case (Cons b bs)
  show ?case
  proof (cases "n < 8")
    case True
    then show ?thesis by (auto simp: bit_simps)
  next
    case False
    then have "n div 8 = Suc ((n - 8) div 8)" "(n - 8) mod 8 = n mod 8"
      by (simp_all add: le_div_geq le_mod_geq not_less)
    moreover have "\<not> bit b n" using False bit_imp_le_length [of b n] by auto
    ultimately show ?thesis using False by (auto simp: bit_simps Cons.IH)
  qed
qed simp

lemma from_to_le_bytes:
  assumes "8 dvd LENGTH('a)" shows "from_le_bytes (to_le_bytes w) = (w :: 'a::len word)"
proof (rule bit_word_eqI)
  fix n assume n: "n < LENGTH('a)"
  with assms have "n div 8 < LENGTH('a) div 8" by (auto elim!: dvdE)
  moreover have "8 * (n div 8) + n mod 8 = n" by simp
  ultimately show "bit (from_le_bytes (to_le_bytes w) :: 'a word) n = bit w n"
    using n by (simp add: bit_from_le_bytes to_le_bytes_def bit_simps)
qed

lemma from_to_le_bytes_u [simp]:
  "from_le_bytes (to_le_bytes (a :: u16)) = a" "from_le_bytes (to_le_bytes (b :: u32)) = b" "from_le_bytes (to_le_bytes (c :: u64)) = c"
  by (simp_all add: from_to_le_bytes)

text \<open>The other direction, for a list of the right length.\<close>

lemma to_from_le_bytes:
  assumes "8 * length bs = LENGTH('a)" shows "to_le_bytes (from_le_bytes bs :: 'a::len word) = bs"
proof (rule nth_equalityI)
  show len: "length (to_le_bytes (from_le_bytes bs :: 'a word)) = length bs" using assms by simp
  fix i assume "i < length (to_le_bytes (from_le_bytes bs :: 'a word))"
  then have i: "i < length bs" using len by simp
  have "ucast (drop_bit (8 * i) (from_le_bytes bs :: 'a word)) = bs ! i"
  proof (rule bit_word_eqI)
    fix n assume "n < LENGTH(8)"
    then have n: "n < 8" by simp
    then have "(8 * i + n) div 8 = i" "(8 * i + n) mod 8 = n" "8 * i + n < LENGTH('a)" using i assms by auto
    with n i show "bit (ucast (drop_bit (8 * i) (from_le_bytes bs :: 'a word)) :: u8) n = bit (bs ! i) n"
      by (simp add: bit_simps bit_from_le_bytes)
  qed
  moreover have "i < LENGTH('a) div 8" using i assms by simp
  ultimately show "to_le_bytes (from_le_bytes bs :: 'a word) ! i = bs ! i" by (simp add: to_le_bytes_def)
qed

section \<open>Slices\<close>

text \<open>\<open>xs[a..b]\<close>, with the panic of a range out of order or out of bounds.\<close>

definition slice :: "'a list \<Rightarrow> nat \<Rightarrow> nat \<Rightarrow> 'a list option" where
  "slice xs a b = (if a \<le> b \<and> b \<le> length xs then Some (take (b - a) (drop a xs)) else None)"

text \<open>\<open>xs[a..a + src.len()].copy_from_slice(src)\<close>.\<close>

definition blit :: "nat \<Rightarrow> 'a list \<Rightarrow> 'a list \<Rightarrow> 'a list option" where
  "blit a src xs = (if a + length src \<le> length xs then Some (take a xs @ src @ drop (a + length src) xs) else None)"

lemma slice_Some_iff: "slice xs a b = Some ys \<longleftrightarrow> a \<le> b \<and> b \<le> length xs \<and> ys = take (b - a) (drop a xs)"
  by (auto simp: slice_def)

lemma slice_append1 [simp]: "b \<le> length xs \<Longrightarrow> slice (xs @ ys) a b = slice xs a b"
  by (cases "a \<le> b") (auto simp: slice_def)

lemma slice_prefix: "b = length xs \<Longrightarrow> slice (xs @ ys) 0 b = Some xs"
  by (simp add: slice_def)

lemma slice_skip: "length xs \<le> a \<Longrightarrow> a \<le> b \<Longrightarrow> slice (xs @ ys) a b = slice ys (a - length xs) (b - length xs)"
  by (auto simp: slice_def)

lemma length_blit: "blit a src xs = Some ys \<Longrightarrow> length ys = length xs"
  by (auto simp: blit_def split: if_splits)

text \<open>Filling a block of zeros from the left.\<close>

lemma blit_fill:
  assumes "a = length xs" "length src \<le> n"
  shows "blit a src (xs @ replicate n z) = Some (xs @ src @ replicate (n - length src) z)"
  using assms by (simp add: blit_def)

end
