(* ===== verification/Port_Io.thy ===== *)
theory Port_Io
  imports Oxide_Prelude
begin

text \<open>
  Port input and output as the x86_64 crate offers it.  The machine behind the ports is not part of the kernel: its state has a type
  parameter, and the record gives the effect of each access on it.
\<close>

record 'h ports =
  in8 :: "u16 \<Rightarrow> 'h \<Rightarrow> u8 \<times> 'h"
  in16 :: "u16 \<Rightarrow> 'h \<Rightarrow> u16 \<times> 'h"
  in32 :: "u16 \<Rightarrow> 'h \<Rightarrow> u32 \<times> 'h"
  out8 :: "u16 \<Rightarrow> u8 \<Rightarrow> 'h \<Rightarrow> 'h"
  out16 :: "u16 \<Rightarrow> u16 \<Rightarrow> 'h \<Rightarrow> 'h"
  out32 :: "u16 \<Rightarrow> u32 \<Rightarrow> 'h \<Rightarrow> 'h"

end
