(* ===== verification/Pci.thy ===== *)
theory Pci
  imports Port_Io
begin

text \<open>
  \<^verbatim>\<open>pci/mod.rs\<close>: enumeration of the PCI bus through configuration mechanism 1.  The configuration space answers through two
  ports; what it answers is the hypothesis \<open>config_mechanism\<close>.
\<close>

definition PCI_CONFIG_ADDR :: u16 where
  "PCI_CONFIG_ADDR = 0xCF8"

definition PCI_CONFIG_DATA :: u16 where
  "PCI_CONFIG_DATA = 0xCFC"

record PciDevice =
  pci_bus :: u8
  pci_device :: u8
  pci_function :: u8
  vendor_id :: u16
  device_id :: u16
  class_code :: u8
  pci_subclass :: u8
  header_type :: u8
  bars :: "u32 list"
  interrupt_line :: u8

text \<open>The address word of a register, built alike by the read and the write.\<close>

definition config_address :: "u8 \<Rightarrow> u8 \<Rightarrow> u8 \<Rightarrow> u8 \<Rightarrow> u32" where
  "config_address bus dev func offset =
     push_bit 31 1 OR push_bit 16 (ucast bus) OR push_bit 11 (ucast dev) OR push_bit 8 (ucast func) OR (ucast offset AND 0xFC)"

definition pci_config_read :: "'h ports \<Rightarrow> u8 \<Rightarrow> u8 \<Rightarrow> u8 \<Rightarrow> u8 \<Rightarrow> 'h \<Rightarrow> u32 \<times> 'h" where
  "pci_config_read io bus dev func offset h =
     in32 io PCI_CONFIG_DATA (out32 io PCI_CONFIG_ADDR (config_address bus dev func offset) h)"

definition pci_config_write :: "'h ports \<Rightarrow> u8 \<Rightarrow> u8 \<Rightarrow> u8 \<Rightarrow> u8 \<Rightarrow> u32 \<Rightarrow> 'h \<Rightarrow> 'h" where
  "pci_config_write io bus dev func offset v h =
     out32 io PCI_CONFIG_DATA v (out32 io PCI_CONFIG_ADDR (config_address bus dev func offset) h)"

fun read_bars_loop :: "'h ports \<Rightarrow> u8 \<Rightarrow> u8 \<Rightarrow> u8 \<Rightarrow> nat list \<Rightarrow> 'h \<Rightarrow> u32 list \<times> 'h" where
  "read_bars_loop io bus dev func [] h = ([], h)"
| "read_bars_loop io bus dev func (i # is) h =
     (let (v, h) = pci_config_read io bus dev func (0x10 + of_nat i * 4) h;
          (vs, h) = read_bars_loop io bus dev func is h
      in (v # vs, h))"

definition read_bars :: "'h ports \<Rightarrow> u8 \<Rightarrow> u8 \<Rightarrow> u8 \<Rightarrow> 'h \<Rightarrow> u32 list \<times> 'h" where
  "read_bars io bus dev func h = read_bars_loop io bus dev func [0..<6] h"

text \<open>The body of the inner loop, for functions 1 to 7 of a multi-function device.\<close>

definition scan_function :: "'h ports \<Rightarrow> u8 \<Rightarrow> u8 \<Rightarrow> u8 \<Rightarrow> PciDevice list \<times> 'h \<Rightarrow> PciDevice list \<times> 'h" where
  "scan_function io bus dev func = (\<lambda>(devices, h).
     let (vd, h) = pci_config_read io bus dev func 0 h;
         vid = ucast (vd AND 0xFFFF)
     in if vid = 0xFFFF then (devices, h)
        else
          let did = ucast (drop_bit 16 vd AND 0xFFFF);
              (cr, h) = pci_config_read io bus dev func 0x08 h;
              (ir, h) = pci_config_read io bus dev func 0x3C h;
              (fb, h) = read_bars io bus dev func h
          in (devices @ [\<lparr>pci_bus = bus, pci_device = dev, pci_function = func, vendor_id = vid, device_id = did,
                class_code = ucast (drop_bit 24 cr AND 0xFF), pci_subclass = ucast (drop_bit 16 cr AND 0xFF), header_type = 0,
                bars = fb, interrupt_line = ucast (ir AND 0xFF)\<rparr>], h))"

definition scan_device :: "'h ports \<Rightarrow> u8 \<Rightarrow> u8 \<Rightarrow> PciDevice list \<times> 'h \<Rightarrow> PciDevice list \<times> 'h" where
  "scan_device io bus dev = (\<lambda>(devices, h).
     let (vendor_device, h) = pci_config_read io bus dev 0 0 h;
         vid = ucast (vendor_device AND 0xFFFF)
     in if vid = 0xFFFF then (devices, h)
        else
          let did = ucast (drop_bit 16 vendor_device AND 0xFFFF);
              (class_reg, h) = pci_config_read io bus dev 0 0x08 h;
              (header_reg, h) = pci_config_read io bus dev 0 0x0C h;
              ht = ucast (drop_bit 16 header_reg AND 0xFF);
              (int_reg, h) = pci_config_read io bus dev 0 0x3C h;
              (bs, h) = read_bars io bus dev 0 h;
              devices = devices @ [\<lparr>pci_bus = bus, pci_device = dev, pci_function = 0, vendor_id = vid, device_id = did,
                class_code = ucast (drop_bit 24 class_reg AND 0xFF), pci_subclass = ucast (drop_bit 16 class_reg AND 0xFF), header_type = ht,
                bars = bs, interrupt_line = ucast (int_reg AND 0xFF)\<rparr>]
          in if ht AND 0x80 \<noteq> 0
             then fold (\<lambda>func. scan_function io bus dev (of_nat func)) [1..<8] (devices, h)
             else (devices, h))"

definition scan_bus :: "'h ports \<Rightarrow> u8 \<Rightarrow> PciDevice list \<times> 'h \<Rightarrow> PciDevice list \<times> 'h" where
  "scan_bus io bus = fold (\<lambda>dev. scan_device io bus (of_nat dev)) [0..<32]"

definition scan :: "'h ports \<Rightarrow> 'h \<Rightarrow> PciDevice list \<times> 'h" where
  "scan io h = fold (\<lambda>bus. scan_bus io (of_nat bus)) [0..<256] ([], h)"

definition find_device :: "'h ports \<Rightarrow> u16 \<Rightarrow> u16 \<Rightarrow> 'h \<Rightarrow> PciDevice option \<times> 'h" where
  "find_device io vid did h =
     (let (devices, h) = scan io h in (List.find (\<lambda>d. vendor_id d = vid \<and> device_id d = did) devices, h))"

definition find_by_vendor :: "'h ports \<Rightarrow> u16 \<Rightarrow> 'h \<Rightarrow> PciDevice list \<times> 'h" where
  "find_by_vendor io vid h = (let (devices, h) = scan io h in (filter (\<lambda>d. vendor_id d = vid) devices, h))"

definition enable_bus_master :: "'h ports \<Rightarrow> PciDevice \<Rightarrow> 'h \<Rightarrow> 'h" where
  "enable_bus_master io d h =
     (let (cmd, h) = pci_config_read io (pci_bus d) (pci_device d) (pci_function d) 0x04 h
      in pci_config_write io (pci_bus d) (pci_device d) (pci_function d) 0x04 (cmd OR 0x04) h)"

section \<open>Configuration mechanism 1\<close>

text \<open>The fields of an address word, as the host bridge decodes them.\<close>

definition addr_bus :: "u32 \<Rightarrow> u8" where "addr_bus a = ucast (drop_bit 16 a)"
definition addr_device :: "u32 \<Rightarrow> u8" where "addr_device a = ucast (drop_bit 11 a AND 0x1F)"
definition addr_function :: "u32 \<Rightarrow> u8" where "addr_function a = ucast (drop_bit 8 a AND 7)"
definition addr_register :: "u32 \<Rightarrow> u8" where "addr_register a = ucast (a AND 0xFC)"

text \<open>
  A machine whose configuration space holds \<open>cfg h bus device function register\<close>: with the enable bit set, a read of the data port
  returns the selected register, and reads change no register.
\<close>

definition config_mechanism :: "'h ports \<Rightarrow> ('h \<Rightarrow> bool) \<Rightarrow> ('h \<Rightarrow> u8 \<Rightarrow> u8 \<Rightarrow> u8 \<Rightarrow> u8 \<Rightarrow> u32) \<Rightarrow> bool" where
  "config_mechanism io ok cfg \<longleftrightarrow> (\<forall>h a. ok h \<and> bit a 31 \<longrightarrow>
     (\<exists>h'. in32 io 0xCFC (out32 io 0xCF8 a h) = (cfg h (addr_bus a) (addr_device a) (addr_function a) (addr_register a), h')
        \<and> ok h' \<and> cfg h' = cfg h))"

lemma word_high_bits:
  assumes "unat (w :: 'a::len word) < 2 ^ k" "k \<le> n" shows "\<not> bit w n"
proof -
  have "(2 :: nat) ^ k \<le> 2 ^ n" using assms(2) by (simp add: power_increasing)
  with assms(1) have "unat w div 2 ^ n = 0" by (intro div_less) (rule less_le_trans)
  then have "\<not> bit (unat w) n" by (simp add: bit_iff_odd)
  then show ?thesis using bit_imp_le_length [of w n] by (auto simp: bit_unsigned_iff)
qed

lemma field_masks:
  "bit (0xFC :: 'a::len word) n \<longleftrightarrow> n < LENGTH('a) \<and> 2 \<le> n \<and> n < 8"
  "bit (0x1F :: 'a::len word) n \<longleftrightarrow> n < LENGTH('a) \<and> n < 5" "bit (7 :: 'a::len word) n \<longleftrightarrow> n < LENGTH('a) \<and> n < 3"
proof -
  have eq: "(0xFC :: 'a word) = push_bit 2 (mask 6)" "(0x1F :: 'a word) = mask 5" "(7 :: 'a word) = mask 3"
    by (simp_all add: mask_eq_exp_minus_1)
  show "bit (0xFC :: 'a::len word) n \<longleftrightarrow> n < LENGTH('a) \<and> 2 \<le> n \<and> n < 8"
    "bit (0x1F :: 'a::len word) n \<longleftrightarrow> n < LENGTH('a) \<and> n < 5" "bit (7 :: 'a::len word) n \<longleftrightarrow> n < LENGTH('a) \<and> n < 3"
    unfolding eq bit_push_bit_iff bit_mask_iff by auto
qed

text \<open>The address word selects the register it was built for.\<close>

lemma config_address_fields:
  assumes "dev < 32" "func < 8"
  shows "bit (config_address bus dev func off) 31" "addr_bus (config_address bus dev func off) = bus"
    "addr_device (config_address bus dev func off) = dev" "addr_function (config_address bus dev func off) = func"
    "addr_register (config_address bus dev func off) = off AND 0xFC"
proof -
  have d: "n < 5" if "bit dev n" for n using word_high_bits [of dev 5 n] assms(1) that by (force simp: word_less_nat_alt)
  have f: "n < 3" if "bit func n" for n using word_high_bits [of func 3 n] assms(2) that by (force simp: word_less_nat_alt)
  define e :: u32 where "e = push_bit 31 1"
  have e: "bit e n \<longleftrightarrow> n = 31" for n unfolding e_def bit_push_bit_iff bit_1_iff by auto
  note defs = config_address_def [folded e_def] addr_bus_def addr_device_def addr_function_def addr_register_def
  show "bit (config_address bus dev func off) 31" by (simp add: defs bit_simps e)
  show "addr_bus (config_address bus dev func off) = bus"
    by (rule bit_word_eqI) (auto simp: defs bit_simps e field_masks simp del: bit_numeral_word_iff dest: d f)
  show "addr_device (config_address bus dev func off) = dev"
    by (rule bit_word_eqI) (auto simp: defs bit_simps e field_masks simp del: bit_numeral_word_iff dest: d f)
  show "addr_function (config_address bus dev func off) = func"
    by (rule bit_word_eqI) (auto simp: defs bit_simps e field_masks simp del: bit_numeral_word_iff dest: d f)
  show "addr_register (config_address bus dev func off) = off AND 0xFC"
    by (rule bit_word_eqI) (auto simp: defs bit_simps e field_masks simp del: bit_numeral_word_iff dest: d f)
qed

section \<open>What a scan finds\<close>

type_synonym config_space = "u8 \<Rightarrow> u8 \<Rightarrow> u8 \<Rightarrow> u8 \<Rightarrow> u32"

definition vendor_at :: "config_space \<Rightarrow> u8 \<Rightarrow> u8 \<Rightarrow> u8 \<Rightarrow> u16" where
  "vendor_at cfg bus dev func = ucast (cfg bus dev func 0 AND 0xFFFF)"

definition header_at :: "config_space \<Rightarrow> u8 \<Rightarrow> u8 \<Rightarrow> u8" where
  "header_at cfg bus dev = ucast (drop_bit 16 (cfg bus dev 0 0x0C) AND 0xFF)"

definition device_at :: "config_space \<Rightarrow> u8 \<Rightarrow> u8 \<Rightarrow> u8 \<Rightarrow> PciDevice" where
  "device_at cfg bus dev func =
     \<lparr>pci_bus = bus, pci_device = dev, pci_function = func, vendor_id = vendor_at cfg bus dev func,
      device_id = ucast (drop_bit 16 (cfg bus dev func 0) AND 0xFFFF), class_code = ucast (drop_bit 24 (cfg bus dev func 0x08) AND 0xFF),
      pci_subclass = ucast (drop_bit 16 (cfg bus dev func 0x08) AND 0xFF),
      header_type = (if func = 0 then header_at cfg bus dev else 0),
      bars = map (\<lambda>i. cfg bus dev func (0x10 + of_nat i * 4)) [0..<6], interrupt_line = ucast (cfg bus dev func 0x3C AND 0xFF)\<rparr>"

definition present :: "config_space \<Rightarrow> u8 \<Rightarrow> u8 \<Rightarrow> u8 \<Rightarrow> bool" where
  "present cfg bus dev func \<longleftrightarrow> vendor_at cfg bus dev func \<noteq> 0xFFFF"

definition slot_devices :: "config_space \<Rightarrow> u8 \<Rightarrow> u8 \<Rightarrow> PciDevice list" where
  "slot_devices cfg bus dev =
     (if present cfg bus dev 0
      then device_at cfg bus dev 0 # (if header_at cfg bus dev AND 0x80 \<noteq> 0
        then map (\<lambda>f. device_at cfg bus dev (of_nat f)) (filter (\<lambda>f. present cfg bus dev (of_nat f)) [1..<8]) else [])
      else [])"

definition bus_devices :: "config_space \<Rightarrow> PciDevice list" where
  "bus_devices cfg = concat (map (\<lambda>bus. concat (map (\<lambda>dev. slot_devices cfg (of_nat bus) (of_nat dev)) [0..<32])) [0..<256])"

text \<open>A loop that collects.\<close>

lemma fold_collect:
  assumes "\<And>x ds h. x \<in> set xs \<Longrightarrow> P h \<Longrightarrow> \<exists>h'. f x (ds, h) = (ds @ g x, h') \<and> P h'" "P h"
  shows "\<exists>h'. fold f xs (ds, h) = (ds @ concat (map g xs), h') \<and> P h'"
  using assms
proof (induction xs arbitrary: ds h)
  case (Cons x xs)
  then obtain h1 where h1: "f x (ds, h) = (ds @ g x, h1)" "P h1" by (metis list.set_intros(1))
  from Cons.IH [of h1 "ds @ g x"] Cons.prems(1) h1(2) obtain h' where
    "fold f xs (ds @ g x, h1) = ((ds @ g x) @ concat (map g xs), h')" "P h'" by (metis list.set_intros(2))
  with h1(1) show ?case by simp
qed simp

lemma byte_of_nat_less: "k < 32 \<Longrightarrow> (of_nat k :: u8) < 32" "k < 8 \<Longrightarrow> (of_nat k :: u8) < 8"
  by (simp_all add: word_less_nat_alt unat_of_nat)

text \<open>A machine with the configuration space \<open>C\<close>.\<close>

definition machine :: "'h ports \<Rightarrow> ('h \<Rightarrow> bool) \<Rightarrow> ('h \<Rightarrow> config_space) \<Rightarrow> config_space \<Rightarrow> 'h \<Rightarrow> bool" where
  "machine io ok cfg C h \<longleftrightarrow> config_mechanism io ok cfg \<and> ok h \<and> cfg h = C"

lemma config_read_ok:
  assumes "machine io ok cfg C h" "dev < 32" "func < 8" "off AND 0xFC = off"
  shows "\<exists>h'. pci_config_read io bus dev func off h = (C bus dev func off, h') \<and> machine io ok cfg C h'"
proof -
  let ?a = "config_address bus dev func off"
  note f = config_address_fields [OF assms(2,3), of bus off]
  from assms(1) f(1) obtain h' where
    "in32 io 0xCFC (out32 io 0xCF8 ?a h) = (cfg h (addr_bus ?a) (addr_device ?a) (addr_function ?a) (addr_register ?a), h')" "ok h'" "cfg h' = cfg h"
    unfolding machine_def config_mechanism_def by blast
  with f assms(1,4) show ?thesis by (simp add: pci_config_read_def PCI_CONFIG_ADDR_def PCI_CONFIG_DATA_def machine_def)
qed

lemma read_bars_loop_ok:
  assumes "machine io ok cfg C h" "dev < 32" "func < 8" "set is \<subseteq> {0..<6}"
  shows "\<exists>h'. read_bars_loop io bus dev func is h = (map (\<lambda>i. C bus dev func (0x10 + of_nat i * 4)) is, h') \<and> machine io ok cfg C h'"
  using assms(1,4)
proof (induction "is" arbitrary: h)
  case (Cons i "is")
  then have "i \<in> {0, 1, 2, 3, 4, 5}" by auto
  then have "(0x10 + of_nat i * 4 :: u8) AND 0xFC = 0x10 + of_nat i * 4" by auto
  from config_read_ok [OF Cons.prems(1) assms(2,3) this, of bus] obtain h1 where
    h1: "pci_config_read io bus dev func (0x10 + of_nat i * 4) h = (C bus dev func (0x10 + of_nat i * 4), h1)" "machine io ok cfg C h1" by blast
  from Cons.IH [OF h1(2)] Cons.prems(2) h1(1) show ?case by auto
qed simp

lemma scan_function_ok:
  assumes m: "machine io ok cfg C h" "dev < 32" "func < 8" "func \<noteq> 0"
  shows "\<exists>h'. scan_function io bus dev func (ds, h) = (ds @ (if present C bus dev func then [device_at C bus dev func] else []), h')
    \<and> machine io ok cfg C h'"
proof -
  note rd = config_read_ok [OF _ m(2,3)]
  from rd [OF m(1), of 0 bus] obtain h1 where h1: "pci_config_read io bus dev func 0 h = (C bus dev func 0, h1)" "machine io ok cfg C h1" by auto
  from rd [OF h1(2), of 8 bus] obtain h2 where h2: "pci_config_read io bus dev func 8 h1 = (C bus dev func 8, h2)" "machine io ok cfg C h2" by auto
  from rd [OF h2(2), of "0x3C" bus] obtain h3 where h3: "pci_config_read io bus dev func 0x3C h2 = (C bus dev func 0x3C, h3)" "machine io ok cfg C h3" by auto
  from read_bars_loop_ok [OF h3(2) m(2,3), of "[0..<6]" bus] obtain h4 where
    h4: "read_bars io bus dev func h3 = (map (\<lambda>i. C bus dev func (0x10 + of_nat i * 4)) [0..<6], h4)" "machine io ok cfg C h4"
    by (auto simp: read_bars_def)
  show ?thesis
  proof (cases "present C bus dev func")
    case True
    then have "scan_function io bus dev func (ds, h) = (ds @ [device_at C bus dev func], h4)"
      using h1(1) h2(1) h3(1) h4(1) m(4) by (simp add: scan_function_def present_def vendor_at_def device_at_def Let_def)
    with True h4(2) show ?thesis by simp
  next
    case False
    with h1 show ?thesis by (simp add: scan_function_def present_def vendor_at_def Let_def)
  qed
qed

lemma scan_device_ok:
  assumes m: "machine io ok cfg C h" "dev < 32"
  shows "\<exists>h'. scan_device io bus dev (ds, h) = (ds @ slot_devices C bus dev, h') \<and> machine io ok cfg C h'"
proof -
  note rd = config_read_ok [OF _ m(2), of _ _ _ _ _ 0, simplified]
  from rd [OF m(1), of 0 bus] obtain h1 where h1: "pci_config_read io bus dev 0 0 h = (C bus dev 0 0, h1)" "machine io ok cfg C h1" by auto
  from rd [OF h1(2), of 8 bus] obtain h2 where h2: "pci_config_read io bus dev 0 8 h1 = (C bus dev 0 8, h2)" "machine io ok cfg C h2" by auto
  from rd [OF h2(2), of "0xC" bus] obtain h3 where h3: "pci_config_read io bus dev 0 0xC h2 = (C bus dev 0 0xC, h3)" "machine io ok cfg C h3" by auto
  from rd [OF h3(2), of "0x3C" bus] obtain h4 where h4: "pci_config_read io bus dev 0 0x3C h3 = (C bus dev 0 0x3C, h4)" "machine io ok cfg C h4" by auto
  from read_bars_loop_ok [OF h4(2) m(2), of 0 "[0..<6]" bus] obtain h5 where
    h5: "read_bars io bus dev 0 h4 = (map (\<lambda>i. C bus dev 0 (0x10 + of_nat i * 4)) [0..<6], h5)" "machine io ok cfg C h5"
    by (auto simp: read_bars_def)
  let ?g = "\<lambda>f. if present C bus dev (of_nat f) then [device_at C bus dev (of_nat f)] else []"
  have "\<exists>h'. scan_function io bus dev (of_nat f) (ds, h) = (ds @ ?g f, h') \<and> machine io ok cfg C h'"
    if "f \<in> set [1..<8]" "machine io ok cfg C h" for f ds h
  proof (rule scan_function_ok [OF that(2) m(2)])
    have "f \<in> {1, 2, 3, 4, 5, 6, 7}" using that(1) by auto
    then show "(of_nat f :: u8) < 8" "(of_nat f :: u8) \<noteq> 0" by auto
  qed
  from fold_collect [where xs = "[1..<8]" and f = "\<lambda>f. scan_function io bus dev (of_nat f)" and g = ?g and ds = "ds @ [device_at C bus dev 0]", OF this h5(2)] obtain h6 where
    h6: "fold (\<lambda>f. scan_function io bus dev (of_nat f)) [1..<8] (ds @ [device_at C bus dev 0], h5)
      = ((ds @ [device_at C bus dev 0]) @ concat (map ?g [1..<8]), h6)" "machine io ok cfg C h6" by blast
  have g: "concat (map ?g xs) = map (\<lambda>f. device_at C bus dev (of_nat f)) (filter (\<lambda>f. present C bus dev (of_nat f)) xs)" for xs
    by (induction xs) auto
  show ?thesis
  proof (cases "present C bus dev 0")
    case True
    have "scan_device io bus dev (ds, h) = (if header_at C bus dev AND 0x80 \<noteq> 0
        then fold (\<lambda>f. scan_function io bus dev (of_nat f)) [1..<8] (ds @ [device_at C bus dev 0], h5) else (ds @ [device_at C bus dev 0], h5))"
      using True h1(1) h2(1) h3(1) h4(1) h5(1)
      by (simp add: scan_device_def present_def vendor_at_def header_at_def device_at_def Let_def del: fold_simps)
    with True h5(2) h6 show ?thesis unfolding slot_devices_def g by (simp del: fold_simps upt_rec_numeral)
  next
    case False
    with h1 show ?thesis by (simp add: scan_device_def slot_devices_def present_def vendor_at_def Let_def)
  qed
qed

lemma scan_ok:
  assumes "machine io ok cfg C h"
  shows "\<exists>h'. scan io h = (bus_devices C, h') \<and> machine io ok cfg C h'"
proof -
  have "\<exists>h'. scan_bus io bus (ds, h) = (ds @ concat (map (\<lambda>dev. slot_devices C bus (of_nat dev)) [0..<32]), h') \<and> machine io ok cfg C h'"
    if "machine io ok cfg C h" for bus ds h
    unfolding scan_bus_def
    by (rule fold_collect [where f = "\<lambda>dev. scan_device io bus (of_nat dev)" and g = "\<lambda>dev. slot_devices C bus (of_nat dev)", OF scan_device_ok that])
      (auto simp: byte_of_nat_less)
  from fold_collect [where xs = "[0..<256]" and f = "\<lambda>bus. scan_bus io (of_nat bus)" and ds = "[]"
      and g = "\<lambda>bus. concat (map (\<lambda>dev. slot_devices C (of_nat bus) (of_nat dev)) [0..<32])", OF this assms]
  show ?thesis by (simp add: scan_def bus_devices_def del: upt_rec_numeral)
qed

section \<open>The scan as a set of functions\<close>

lemma distinct_concat_map:
  assumes "distinct xs" "\<And>x. x \<in> set xs \<Longrightarrow> distinct (g x)"
    "\<And>x y. x \<in> set xs \<Longrightarrow> y \<in> set xs \<Longrightarrow> x \<noteq> y \<Longrightarrow> set (g x) \<inter> set (g y) = {}"
  shows "distinct (concat (map g xs))"
  using assms
proof (induction xs)
  case (Cons x xs)
  have "set (g x) \<inter> set (concat (map g xs)) = {}" using Cons.prems(1,3) by fastforce
  with Cons show ?case by simp
qed simp

definition location :: "PciDevice \<Rightarrow> u8 \<times> u8 \<times> u8" where
  "location d = (pci_bus d, pci_device d, pci_function d)"

lemma location_device_at [simp]: "location (device_at cfg bus dev func) = (bus, dev, func)"
  by (simp add: location_def device_at_def)

lemma byte_of_nat_inj: "i < 256 \<Longrightarrow> j < 256 \<Longrightarrow> (of_nat i :: u8) = of_nat j \<longleftrightarrow> i = j"
proof -
  assume "i < 256" "j < 256"
  then have "unat (of_nat i :: u8) = i" "unat (of_nat j :: u8) = j" by (simp_all add: unat_of_nat)
  then show "(of_nat i :: u8) = of_nat j \<longleftrightarrow> i = j" by metis
qed

lemma slot_devices_mem:
  "d \<in> set (slot_devices cfg bus dev) \<longleftrightarrow> (\<exists>func < 8. d = device_at cfg bus dev func \<and> present cfg bus dev 0 \<and> present cfg bus dev func
     \<and> (func = 0 \<or> header_at cfg bus dev AND 0x80 \<noteq> 0))"
proof -
  have "(\<exists>func < 8. func \<noteq> 0 \<and> P func) \<longleftrightarrow> (\<exists>f \<in> set [1..<8]. P (of_nat f))" for P :: "u8 \<Rightarrow> bool"
  proof
    assume "\<exists>func < 8. func \<noteq> 0 \<and> P func"
    then obtain func where f: "func < 8" "func \<noteq> 0" "P func" by blast
    then have "unat func \<in> set [1..<8]" by (simp add: word_less_nat_alt unat_gt_0 Suc_le_eq del: upt_rec_numeral)
    moreover have "P (of_nat (unat func))" using f(3) by simp
    ultimately show "\<exists>f \<in> set [1..<8]. P (of_nat f)" by (rule bexI [rotated])
  next
    assume "\<exists>f \<in> set [1..<8]. P (of_nat f)"
    then obtain f where f: "f \<in> set [1..<8]" "P (of_nat f)" by blast
    then have "f \<in> {1, 2, 3, 4, 5, 6, 7}" by auto
    then have "(of_nat f :: u8) < 8" "(of_nat f :: u8) \<noteq> 0" by auto
    with f(2) show "\<exists>func < 8. func \<noteq> 0 \<and> P func" by blast
  qed
  note e = this [of "\<lambda>f. present cfg bus dev f \<and> d = device_at cfg bus dev f"]
  have "d \<in> set (slot_devices cfg bus dev) \<longleftrightarrow> present cfg bus dev 0 \<and> (d = device_at cfg bus dev 0
      \<or> header_at cfg bus dev AND 0x80 \<noteq> 0 \<and> (\<exists>f \<in> set [1..<8]. present cfg bus dev (of_nat f) \<and> d = device_at cfg bus dev (of_nat f)))"
    unfolding slot_devices_def by (simp add: image_iff Bex_def del: upt_rec_numeral)
  also have "\<dots> \<longleftrightarrow> present cfg bus dev 0 \<and> (d = device_at cfg bus dev 0
      \<or> header_at cfg bus dev AND 0x80 \<noteq> 0 \<and> (\<exists>func < 8. func \<noteq> 0 \<and> present cfg bus dev func \<and> d = device_at cfg bus dev func))"
    unfolding e ..
  finally have eq: "d \<in> set (slot_devices cfg bus dev) \<longleftrightarrow> \<dots>" .
  have "(0 :: u8) < 8" by simp
  then show ?thesis unfolding eq by blast
qed

lemma bus_devices_mem:
  "d \<in> set (bus_devices cfg) \<longleftrightarrow> (\<exists>bus dev func. dev < 32 \<and> func < 8 \<and> d = device_at cfg bus dev func \<and> present cfg bus dev 0
     \<and> present cfg bus dev func \<and> (func = 0 \<or> header_at cfg bus dev AND 0x80 \<noteq> 0))"
proof -
  have b: "(\<exists>i < 256. P (of_nat i)) \<longleftrightarrow> (\<exists>bus. P bus)" for P :: "u8 \<Rightarrow> bool"
  proof
    assume "\<exists>bus. P bus"
    then obtain bus where "P bus" by blast
    moreover have "unat bus < 2 ^ LENGTH(8)" by (rule unsigned_less)
    ultimately show "\<exists>i < 256. P (of_nat i)" by (intro exI [of _ "unat bus"]) simp
  qed auto
  have d: "(\<exists>i < 32. P (of_nat i)) \<longleftrightarrow> (\<exists>dev < 32. P dev)" for P :: "u8 \<Rightarrow> bool"
  proof
    assume "\<exists>dev < 32. P dev"
    then obtain dev where "dev < 32" "P dev" by blast
    then show "\<exists>i < 32. P (of_nat i)" by (intro exI [of _ "unat dev"]) (simp add: word_less_nat_alt)
  qed (blast intro: byte_of_nat_less)
  have "d \<in> set (bus_devices cfg) \<longleftrightarrow> (\<exists>i < 256. \<exists>j < 32. d \<in> set (slot_devices cfg (of_nat i) (of_nat j)))"
    unfolding bus_devices_def by (simp add: Bex_def del: upt_rec_numeral)
  also have "\<dots> \<longleftrightarrow> (\<exists>bus. \<exists>j < 32. d \<in> set (slot_devices cfg bus (of_nat j)))" by (rule b)
  also have "\<dots> \<longleftrightarrow> (\<exists>bus. \<exists>dev < 32. d \<in> set (slot_devices cfg bus dev))" by (rule iff_exI) (rule d)
  finally show ?thesis unfolding slot_devices_mem by blast
qed

lemma bus_devices_distinct: "distinct (map location (bus_devices cfg))"
proof -
  have slot: "distinct (map location (slot_devices cfg bus dev))" "location ` set (slot_devices cfg bus dev) \<subseteq> {bus} \<times> {dev} \<times> UNIV" for bus dev
  proof -
    have "inj_on (of_nat :: nat \<Rightarrow> u8) {0..<8}" by (auto simp: inj_on_def byte_of_nat_inj)
    then have "distinct (map (\<lambda>f. (bus, dev, of_nat f :: u8)) (filter P [1..<8]))" for P
      by (auto simp: distinct_map inj_on_def)
    moreover have "(0 :: u8) \<noteq> of_nat f" if "1 \<le> f" "f < 8" for f using byte_of_nat_inj [of 0 f] that by auto
    ultimately show "distinct (map location (slot_devices cfg bus dev))"
      by (auto simp: slot_devices_def comp_def simp del: upt_rec_numeral)
    show "location ` set (slot_devices cfg bus dev) \<subseteq> {bus} \<times> {dev} \<times> UNIV" by (auto simp: slot_devices_def)
  qed
  let ?bus = "\<lambda>bus. concat (map (\<lambda>dev. map location (slot_devices cfg (of_nat bus) (of_nat dev))) [0..<32])"
  have row: "set (?bus i) \<subseteq> {of_nat i} \<times> UNIV" for i using slot(2) by fastforce
  have "distinct (concat (map ?bus [0..<256]))"
  proof (rule distinct_concat_map)
    fix i assume i: "i \<in> set [0..<256]"
    show "distinct (?bus i)"
    proof (rule distinct_concat_map)
      fix j k assume "j \<in> set [0..<32]" "k \<in> set [0..<32]" "j \<noteq> k"
      then have "(of_nat j :: u8) \<noteq> of_nat k" by (simp add: byte_of_nat_inj)
      then show "set (map location (slot_devices cfg (of_nat i) (of_nat j))) \<inter> set (map location (slot_devices cfg (of_nat i) (of_nat k))) = {}"
        using slot(2) [of "of_nat i" "of_nat j"] slot(2) [of "of_nat i" "of_nat k"] by fastforce
    qed (simp_all add: slot(1))
  next
    fix i j assume "i \<in> set [0..<256]" "j \<in> set [0..<256]" "i \<noteq> j"
    then have "(of_nat i :: u8) \<noteq> of_nat j" by (simp add: byte_of_nat_inj)
    then show "set (?bus i) \<inter> set (?bus j) = {}" using row [of i] row [of j] by blast
  qed simp
  then show ?thesis by (simp add: bus_devices_def map_concat comp_def del: upt_rec_numeral)
qed

section \<open>Properties\<close>

text \<open>C20. On a machine with configuration mechanism 1 a scan reports every PCI function exactly once, with the identifiers, base addresses and
  interrupt line of its own registers: function 0 of every slot that answers, and functions 1 to 7 that answer when the
  slot is marked multi-function.  It changes no register.\<close>

theorem pci_scan_exact:
  assumes "config_mechanism io ok cfg" "ok h"
  shows "\<exists>ds h'. scan io h = (ds, h') \<and> ok h' \<and> cfg h' = cfg h \<and> distinct (map location ds)
    \<and> (\<forall>d. d \<in> set ds \<longleftrightarrow> (\<exists>bus dev func. dev < 32 \<and> func < 8 \<and> d = device_at (cfg h) bus dev func \<and> present (cfg h) bus dev 0
         \<and> present (cfg h) bus dev func \<and> (func = 0 \<or> header_at (cfg h) bus dev AND 0x80 \<noteq> 0)))"
proof -
  have "machine io ok cfg (cfg h) h" using assms by (simp add: machine_def)
  from scan_ok [OF this] obtain h' where "scan io h = (bus_devices (cfg h), h')" "ok h'" "cfg h' = cfg h" by (auto simp: machine_def)
  then show ?thesis by (intro exI [of _ "bus_devices (cfg h)"] exI [of _ h'] conjI allI bus_devices_distinct bus_devices_mem)
qed

text \<open>A machine with one device, a virtio block device at 00:03.0; its state is the address latch of the host bridge.\<close>

definition demo_space :: config_space where
  "demo_space bus dev func reg =
     (if bus = 0 \<and> dev = 3 \<and> func = 0
      then if reg = 0 then 0x10011AF4 else if reg = 8 then 0x01000000 else if reg = 0x10 then 0xC001 else 0
      else 0xFFFFFFFF)"

definition demo_bridge :: "u32 ports" where
  "demo_bridge = \<lparr>in8 = \<lambda>_ a. (0xFF, a), in16 = \<lambda>_ a. (0xFFFF, a),
     in32 = \<lambda>p a. (if p = 0xCFC then demo_space (addr_bus a) (addr_device a) (addr_function a) (addr_register a) else 0xFFFFFFFF, a),
     out8 = \<lambda>_ _ a. a, out16 = \<lambda>_ _ a. a, out32 = \<lambda>p v a. if p = 0xCF8 then v else a\<rparr>"

theorem pci_scan_exact_witness:
  "\<exists>ds h' d. scan demo_bridge 0 = (ds, h') \<and> d \<in> set ds \<and> location d = (0, 3, 0) \<and> vendor_id d = 0x1AF4 \<and> device_id d = 0x1001 \<and> hd (bars d) = 0xC001"
proof -
  have m: "config_mechanism demo_bridge (\<lambda>_. True) (\<lambda>_. demo_space)" by (simp add: config_mechanism_def demo_bridge_def)
  let ?d = "device_at demo_space 0 3 0"
  have d: "vendor_id ?d = 0x1AF4" "device_id ?d = 0x1001" "hd (bars ?d) = 0xC001" "present demo_space 0 3 0"
    by (simp_all add: device_at_def demo_space_def vendor_at_def present_def upt_conv_Cons)
  from pci_scan_exact [OF m, of 0] obtain ds h' where s: "scan demo_bridge 0 = (ds, h')"
    "\<forall>d. d \<in> set ds \<longleftrightarrow> (\<exists>bus dev func. dev < 32 \<and> func < 8 \<and> d = device_at demo_space bus dev func \<and> present demo_space bus dev 0
         \<and> present demo_space bus dev func \<and> (func = 0 \<or> header_at demo_space bus dev AND 0x80 \<noteq> 0))" by blast
  have "(3 :: u8) < 32" "(0 :: u8) < 8" by simp_all
  with s(2) d(4) have "?d \<in> set ds" by blast
  with s(1) d show ?thesis by (metis location_device_at)
qed

text \<open>What the drivers look for.\<close>

lemma find_device_ok:
  assumes "machine io ok cfg C h"
  obtains h' where "find_device io vid did h = (List.find (\<lambda>d. vendor_id d = vid \<and> device_id d = did) (bus_devices C), h')" "machine io ok cfg C h'"
  using scan_ok [OF assms] by (auto simp: find_device_def)

lemma find_by_vendor_ok:
  assumes "machine io ok cfg C h"
  obtains h' where "find_by_vendor io vid h = (filter (\<lambda>d. vendor_id d = vid) (bus_devices C), h')" "machine io ok cfg C h'"
  using scan_ok [OF assms] by (auto simp: find_by_vendor_def)

end
