(* ===== verification/Virtio_Blk.thy ===== *)
theory Virtio_Blk
  imports Block_Cache Byte_Codec Pci
begin

text \<open>
  \<^verbatim>\<open>storage/virtio_blk.rs\<close>: the request path of the block driver, over one split virtqueue.

  The memory the driver shares with the device is explicit.  The three parts of the queue keep the types the driver gives them, and
  the buffer of the requests is a region of byte-addressed physical memory, which the driver reaches through the direct map at
  \<open>hhdm\<close>.  The device is outside the kernel: writes to its ports are \<open>ports\<close> over the shared state, and \<open>step\<close> is what it does
  between two polls of the driver.
\<close>

section \<open>The shared memory\<close>

record VirtqDesc =
  vd_addr :: u64
  vd_len :: u32
  vd_flags :: u16
  vd_next :: u16

record VirtqAvail =
  avail_flags :: u16
  avail_idx :: u16
  avail_ring :: "u16 list"

record VirtqUsedElem =
  used_elem_id :: u32
  used_elem_len :: u32

record VirtqUsed =
  used_flags :: u16
  used_idx :: u16
  used_ring :: "VirtqUsedElem list"

record 'h shared =
  ram :: "u64 \<Rightarrow> u8"
  vq_descs :: "VirtqDesc list"
  vq_avail :: VirtqAvail
  vq_used :: VirtqUsed
  hw :: 'h

definition peek :: "u64 \<Rightarrow> nat \<Rightarrow> (u64 \<Rightarrow> u8) \<Rightarrow> u8 list" where
  "peek a n f = map (\<lambda>i. f (a + of_nat i)) [0..<n]"

definition poke :: "u64 \<Rightarrow> u8 list \<Rightarrow> (u64 \<Rightarrow> u8) \<Rightarrow> u64 \<Rightarrow> u8" where
  "poke a bs f = (\<lambda>x. if unat (x - a) < length bs then bs ! unat (x - a) else f x)"

text \<open>A write of the kernel at a virtual address of the direct map.\<close>

definition write_virt :: "u64 \<Rightarrow> u64 \<Rightarrow> u8 list \<Rightarrow> 'h shared \<Rightarrow> 'h shared" where
  "write_virt hhdm v bs m = m\<lparr>ram := poke (v - hhdm) bs (ram m)\<rparr>"

definition read_virt :: "u64 \<Rightarrow> u64 \<Rightarrow> nat \<Rightarrow> 'h shared \<Rightarrow> u8 list" where
  "read_virt hhdm v n m = peek (v - hhdm) n (ram m)"

section \<open>The driver\<close>

definition VIRTIO_QUEUE_NOTIFY :: u16 where "VIRTIO_QUEUE_NOTIFY = 0x10"
definition VRING_DESC_F_NEXT :: u16 where "VRING_DESC_F_NEXT = 1"
definition VRING_DESC_F_WRITE :: u16 where "VRING_DESC_F_WRITE = 2"
definition VIRTIO_BLK_T_IN :: u32 where "VIRTIO_BLK_T_IN = 0"
definition VIRTIO_BLK_T_OUT :: u32 where "VIRTIO_BLK_T_OUT = 1"
definition VIRTIO_BLK_S_OK :: u8 where "VIRTIO_BLK_S_OK = 0"
definition QUEUE_SIZE :: nat where "QUEUE_SIZE = 128"
definition REQUEST_QUEUE :: u16 where "REQUEST_QUEUE = 0"

record Virtqueue =
  next_desc :: u16
  last_used_idx :: u16

record VirtioBlkDevice =
  io_base :: u16
  capacity_blocks :: u64
  vb_queue :: "Virtqueue option"
  dma_phys :: u64
  dma_virt :: u64
  vb_initialized :: bool

definition vb_empty :: VirtioBlkDevice where
  "vb_empty = \<lparr>io_base = 0, capacity_blocks = 0, vb_queue = None, dma_phys = 0, dma_virt = 0, vb_initialized = False\<rparr>"

text \<open>\<open>VirtioBlkReqHeader\<close>, as its bytes in memory.\<close>

definition req_header :: "u32 \<Rightarrow> u64 \<Rightarrow> u8 list" where
  "req_header req_type sector = to_le_bytes req_type @ to_le_bytes (0 :: u32) @ to_le_bytes sector"

text \<open>The three descriptors of a request.\<close>

definition build_chain :: "u32 \<Rightarrow> u64 \<Rightarrow> u64 \<Rightarrow> u64 \<Rightarrow> u16 \<Rightarrow> VirtqDesc list \<Rightarrow> VirtqDesc list" where
  "build_chain req_type header_phys data_phys status_phys desc_base ds =
     (let d0 = unat desc_base mod QUEUE_SIZE;
          d1 = (unat desc_base + 1) mod QUEUE_SIZE;
          d2 = (unat desc_base + 2) mod QUEUE_SIZE;
          ds = ds[d0 := \<lparr>vd_addr = header_phys, vd_len = 16, vd_flags = VRING_DESC_F_NEXT, vd_next = of_nat d1\<rparr>];
          ds = ds[d1 := \<lparr>vd_addr = data_phys, vd_len = 512,
            vd_flags = VRING_DESC_F_NEXT OR (if req_type = VIRTIO_BLK_T_IN then VRING_DESC_F_WRITE else 0), vd_next = of_nat d2\<rparr>]
      in ds[d2 := \<lparr>vd_addr = status_phys, vd_len = 1, vd_flags = VRING_DESC_F_WRITE, vd_next = 0\<rparr>])"

text \<open>The head of a chain goes to the next slot of the available ring.\<close>

definition push_avail :: "u16 \<Rightarrow> VirtqAvail \<Rightarrow> VirtqAvail" where
  "push_avail d0 a = a\<lparr>avail_ring := (avail_ring a)[unat (avail_idx a mod of_nat QUEUE_SIZE) := d0], avail_idx := avail_idx a + 1\<rparr>"

text \<open>Waiting for the used index to move, for at most 100000000 polls.\<close>

definition SPIN_LIMIT :: nat where
  "SPIN_LIMIT = 100000000"

function spin_wait :: "('h shared \<Rightarrow> 'h shared) \<Rightarrow> u16 \<Rightarrow> nat \<Rightarrow> 'h shared \<Rightarrow> bool \<times> 'h shared" where
  "spin_wait step seen spin_count m =
     (if used_idx (vq_used m) \<noteq> seen then (True, m)
      else if SPIN_LIMIT < spin_count + 1 then (False, m)
      else spin_wait step seen (spin_count + 1) (step m))"
  by pat_completeness auto
termination spin_wait
  by (relation "measure (\<lambda>(_, _, spin_count, _). SPIN_LIMIT - spin_count)") auto

declare spin_wait.simps [simp del]

definition do_block_io :: "'h shared ports \<Rightarrow> ('h shared \<Rightarrow> 'h shared) \<Rightarrow> u64 \<Rightarrow> u32 \<Rightarrow> u64 \<Rightarrow> block \<Rightarrow> VirtioBlkDevice \<times> 'h shared
    \<Rightarrow> ((string + unit) \<times> block \<times> VirtioBlkDevice \<times> 'h shared) option" where
  "do_block_io io step hhdm req_type sector buffer = (\<lambda>(d, m).
     case vb_queue d of
       None \<Rightarrow> Some (Inl ''no virtqueue'', buffer, d, m)
     | Some q \<Rightarrow> do {
         let header_phys = dma_phys d;
         data_phys \<leftarrow> checked_add (dma_phys d) 16;
         status_phys \<leftarrow> checked_add data_phys 512;
         let header_virt = dma_virt d;
         data_virt \<leftarrow> checked_add (dma_virt d) 16;
         status_virt \<leftarrow> checked_add data_virt 512;
         let m = write_virt hhdm header_virt (req_header req_type sector) m;
         let m = (if req_type = VIRTIO_BLK_T_OUT then write_virt hhdm data_virt buffer m else m);
         let m = write_virt hhdm status_virt [0xFF] m;
         let desc_base = next_desc q;
         let m = m\<lparr>vq_descs := build_chain req_type header_phys data_phys status_phys desc_base (vq_descs m)\<rparr>;
         n \<leftarrow> checked_add desc_base 3;
         let q = q\<lparr>next_desc := n mod of_nat QUEUE_SIZE\<rparr>;
         let m = m\<lparr>vq_avail := push_avail (of_nat (unat desc_base mod QUEUE_SIZE)) (vq_avail m)\<rparr>;
         port \<leftarrow> checked_add (io_base d) VIRTIO_QUEUE_NOTIFY;
         let m = out16 io port REQUEST_QUEUE m;
         let (completed, m) = spin_wait step (last_used_idx q) 0 m;
         if \<not> completed then Some (Inl ''virtio-blk: timeout waiting for I/O'', buffer, d\<lparr>vb_queue := Some q\<rparr>, m)
         else do {
           let q = q\<lparr>last_used_idx := last_used_idx q + 1\<rparr>;
           let d = d\<lparr>vb_queue := Some q\<rparr>;
           let status = hd (read_virt hhdm status_virt 1 m);
           if status \<noteq> VIRTIO_BLK_S_OK then Some (Inl ''virtio-blk: I/O error'', buffer, d, m)
           else
             let buffer = (if req_type = VIRTIO_BLK_T_IN then read_virt hhdm data_virt 512 m else buffer)
             in Some (Inr (), buffer, d, m)
         }
       })"

definition vb_read_block :: "'h shared ports \<Rightarrow> ('h shared \<Rightarrow> 'h shared) \<Rightarrow> u64 \<Rightarrow> u64 \<Rightarrow> block \<Rightarrow> VirtioBlkDevice \<times> 'h shared
    \<Rightarrow> ((string + unit) \<times> block \<times> VirtioBlkDevice \<times> 'h shared) option" where
  "vb_read_block io step hhdm block_num buffer = (\<lambda>(d, m).
     if \<not> vb_initialized d then Some (Inl ''not initialized'', buffer, d, m)
     else if capacity_blocks d \<le> block_num then Some (Inl ''block out of range'', buffer, d, m)
     else do_block_io io step hhdm VIRTIO_BLK_T_IN block_num buffer (d, m))"

definition vb_write_block :: "'h shared ports \<Rightarrow> ('h shared \<Rightarrow> 'h shared) \<Rightarrow> u64 \<Rightarrow> u64 \<Rightarrow> block \<Rightarrow> VirtioBlkDevice \<times> 'h shared
    \<Rightarrow> ((string + unit) \<times> VirtioBlkDevice \<times> 'h shared) option" where
  "vb_write_block io step hhdm block_num data = (\<lambda>(d, m).
     if \<not> vb_initialized d then Some (Inl ''not initialized'', d, m)
     else if capacity_blocks d \<le> block_num then Some (Inl ''block out of range'', d, m)
     else do {
       (r, _, d, m) \<leftarrow> do_block_io io step hhdm VIRTIO_BLK_T_OUT block_num data (d, m);
       Some (r, d, m)
     })"

text \<open>The two operations as the cache calls them: a read starts from a zeroed buffer and yields it on success.\<close>

definition vb_read :: "'h shared ports \<Rightarrow> ('h shared \<Rightarrow> 'h shared) \<Rightarrow> u64 \<Rightarrow> (VirtioBlkDevice \<times> 'h shared) read_fn" where
  "vb_read io step hhdm block_num s = do {
     (r, data, s) \<leftarrow> vb_read_block io step hhdm block_num (replicate 512 0) s;
     Some (case r of Inl e \<Rightarrow> Inl e | Inr _ \<Rightarrow> Inr data, s)
   }"

definition vb_write :: "'h shared ports \<Rightarrow> ('h shared \<Rightarrow> 'h shared) \<Rightarrow> u64 \<Rightarrow> (VirtioBlkDevice \<times> 'h shared) write_fn" where
  "vb_write io step hhdm block_num data s = vb_write_block io step hhdm block_num data s"

end
