(* ===== verification/Virtio_Blk_Theorems.thy ===== *)
theory Virtio_Blk_Theorems
  imports Virtio_Blk
begin

text \<open>
  The block driver against the virtio specification: what a device reads from the shared memory, what it promises, and that
  driver and device together are a block device for the cache.
\<close>

section \<open>Memory regions at fixed offsets\<close>

lemma length_peek [simp]: "length (peek a n f) = n"
  by (simp add: peek_def)

lemma offset_diff:
  assumes "x < 2 ^ 64" "y < 2 ^ 64"
  shows "unat (base + of_nat x - (base + of_nat y) :: u64) = (if y \<le> x then x - y else x + 2 ^ 64 - y)"
proof -
  have "base + of_nat x - (base + of_nat y) = (of_nat x - of_nat y :: u64)" by simp
  moreover have "unat (of_nat x :: u64) = x" "unat (of_nat y :: u64) = y" using assms by (simp_all add: unat_of_nat)
  ultimately show ?thesis by (simp add: unat_sub_if')
qed

text \<open>Reading inside a region just written, and reading beside it.\<close>

lemma peek_poke_in:
  assumes "y \<le> x" "x + n \<le> y + length bs" "y + length bs < 2 ^ 64"
  shows "peek (base + of_nat x) n (poke (base + of_nat y) bs f) = take n (drop (x - y) bs)"
proof (rule nth_equalityI)
  fix i assume "i < length (peek (base + of_nat x) n (poke (base + of_nat y) bs f))"
  then have i: "i < n" by simp
  have e: "base + of_nat x + of_nat i = base + of_nat (x + i)" by simp
  have "unat (base + of_nat x + of_nat i - (base + of_nat y)) = x + i - y"
    unfolding e by (subst offset_diff) (use assms i in simp_all)
  with i assms show "peek (base + of_nat x) n (poke (base + of_nat y) bs f) ! i = take n (drop (x - y) bs) ! i"
    by (auto simp: peek_def poke_def)
qed (use assms in simp)

lemma peek_poke_out:
  assumes "x + n \<le> y \<or> y + length bs \<le> x" "x + n < 2 ^ 64" "y + length bs < 2 ^ 64"
  shows "peek (base + of_nat x) n (poke (base + of_nat y) bs f) = peek (base + of_nat x) n f"
proof (rule nth_equalityI)
  fix i assume "i < length (peek (base + of_nat x) n (poke (base + of_nat y) bs f))"
  then have i: "i < n" by simp
  have e: "base + of_nat x + of_nat i = base + of_nat (x + i)" by simp
  have "\<not> unat (base + of_nat x + of_nat i - (base + of_nat y)) < length bs"
    unfolding e by (subst offset_diff) (use assms i in auto)
  with i show "peek (base + of_nat x) n (poke (base + of_nat y) bs f) ! i = peek (base + of_nat x) n f ! i"
    by (simp add: peek_def poke_def)
qed simp

section \<open>What the device reads and promises\<close>

text \<open>
  The newest request in the available ring of a queue of 128 entries, as a device reads it: type, sector, address of
  the data and address of the status byte.  \<open>None\<close> is a chain that is not a valid request.
\<close>

definition blk_request :: "'h shared \<Rightarrow> (u32 \<times> u64 \<times> u64 \<times> u64) option" where
  "blk_request m = do {
     head \<leftarrow> index (avail_ring (vq_avail m)) (unat (avail_idx (vq_avail m) - 1) mod 128);
     d0 \<leftarrow> index (vq_descs m) (unat head);
     d1 \<leftarrow> index (vq_descs m) (unat (vd_next d0));
     d2 \<leftarrow> index (vq_descs m) (unat (vd_next d1));
     let t = from_le_bytes (peek (vd_addr d0) 4 (ram m));
     if vd_len d0 = 16 \<and> vd_flags d0 = 1 \<and> vd_len d1 = 512 \<and> vd_len d2 = 1 \<and> vd_flags d2 = 2
        \<and> (t = 0 \<and> vd_flags d1 = 3 \<or> t = 1 \<and> vd_flags d1 = 1)
     then Some (t, from_le_bytes (peek (vd_addr d0 + 8) 8 (ram m)), vd_addr d1, vd_addr d2)
     else None
   }"

text \<open>
  A device of \<open>cap\<close> blocks that serves a single outstanding request, after the notification on its port and at most
  \<open>SPIN_LIMIT\<close> further steps, when the status byte lies outside the data: until then the used index stays, then it has moved by one, the status byte is zero, and the data have been
  written to the buffer or to the disk.  It may use its buffers freely meanwhile, and it leaves descriptors and available ring alone.
\<close>

definition serves :: "('h \<Rightarrow> u64 \<Rightarrow> block) \<Rightarrow> ('h \<Rightarrow> bool) \<Rightarrow> u32 \<times> u64 \<times> u64 \<times> u64 \<Rightarrow> 'h shared \<Rightarrow> 'h shared \<Rightarrow> bool" where
  "serves disk alive = (\<lambda>(t, s, data, status) m m'.
     used_idx (vq_used m') = used_idx (vq_used m) + 1 \<and> vq_descs m' = vq_descs m \<and> vq_avail m' = vq_avail m \<and> alive (hw m') \<and> peek status 1 (ram m') = [0]
     \<and> (if t = 0 then peek data 512 (ram m') = disk (hw m) s \<and> disk (hw m') = disk (hw m)
        else disk (hw m') = (disk (hw m))(s := peek data 512 (ram m))))"

definition conforming :: "'h shared ports \<Rightarrow> ('h shared \<Rightarrow> 'h shared) \<Rightarrow> u16 \<Rightarrow> u64 \<Rightarrow> ('h \<Rightarrow> u64 \<Rightarrow> block) \<Rightarrow> ('h \<Rightarrow> bool) \<Rightarrow> bool" where
  "conforming io step port cap disk alive \<longleftrightarrow>
     (\<forall>h n. alive h \<and> n < cap \<longrightarrow> length (disk h n) = 512)
     \<and> (\<forall>m t s data status. alive (hw m) \<and> avail_idx (vq_avail m) = used_idx (vq_used m) + 1 \<and> blk_request m = Some (t, s, data, status) \<and> s < cap
            \<and> 512 \<le> unat (status - data) \<longrightarrow>
          (\<exists>k \<le> SPIN_LIMIT. (\<forall>j < k. used_idx (vq_used ((step ^^ j) (out16 io port 0 m))) = used_idx (vq_used m))
             \<and> serves disk alive (t, s, data, status) m ((step ^^ k) (out16 io port 0 m))))"

section \<open>Waiting\<close>

lemma spin_wait_done:
  assumes "\<forall>j < k. used_idx (vq_used ((step ^^ j) m)) = seen" "used_idx (vq_used ((step ^^ k) m)) \<noteq> seen" "c + k \<le> SPIN_LIMIT"
  shows "spin_wait step seen c m = (True, (step ^^ k) m)"
  using assms
proof (induction k arbitrary: c m)
  case 0
  then show ?case by (simp add: spin_wait.simps)
next
  case (Suc k)
  have "\<forall>j < k. used_idx (vq_used ((step ^^ j) (step m))) = seen"
  proof (intro allI impI)
    fix j assume "j < k"
    with Suc.prems(1) have "used_idx (vq_used ((step ^^ Suc j) m)) = seen" by blast
    then show "used_idx (vq_used ((step ^^ j) (step m))) = seen" by (simp add: funpow_swap1)
  qed
  moreover have "used_idx (vq_used ((step ^^ k) (step m))) \<noteq> seen" using Suc.prems(2) by (simp add: funpow_swap1)
  ultimately have "spin_wait step seen (c + 1) (step m) = (True, (step ^^ k) (step m))" using Suc.prems(3) by (intro Suc.IH) simp_all
  moreover have "used_idx (vq_used m) = seen" using Suc.prems(1) by force
  ultimately show ?case using Suc.prems(3) by (subst spin_wait.simps) (simp add: funpow_swap1)
qed

lemma spin_wait_timeout:
  assumes "\<forall>j. used_idx (vq_used ((step ^^ j) m)) = seen" "c \<le> SPIN_LIMIT"
  shows "spin_wait step seen c m = (False, (step ^^ (SPIN_LIMIT - c)) m)"
  using assms
proof (induction "SPIN_LIMIT - c" arbitrary: c m)
  case 0
  then have "used_idx (vq_used m) = seen" using "0.prems"(1) [rule_format, of 0] by simp
  with 0 show ?case by (simp add: spin_wait.simps)
next
  case (Suc n)
  have u: "used_idx (vq_used m) = seen" using Suc.prems(1) [rule_format, of 0] by simp
  have "\<forall>j. used_idx (vq_used ((step ^^ j) (step m))) = seen"
    using Suc.prems(1) by (metis funpow_swap1 funpow.simps(2) o_apply)
  then have "spin_wait step seen (c + 1) (step m) = (False, (step ^^ (SPIN_LIMIT - (c + 1))) (step m))"
    using Suc.hyps(2) by (intro Suc.hyps(1)) simp_all
  moreover have "SPIN_LIMIT - c = Suc (SPIN_LIMIT - (c + 1))" "\<not> SPIN_LIMIT < c + 1" using Suc.hyps(2) by simp_all
  ultimately show ?case using u by (subst spin_wait.simps) (simp add: funpow_swap1)
qed

section \<open>The request the driver builds\<close>

text \<open>The shared state when the device is notified.\<close>

definition issued :: "u32 \<Rightarrow> u64 \<Rightarrow> block \<Rightarrow> u64 \<Rightarrow> u16 \<Rightarrow> 'h shared \<Rightarrow> 'h shared" where
  "issued t s buffer p base m =
     m\<lparr>ram := poke (p + 528) [0xFF] (if t = 1 then poke (p + 16) buffer (poke p (req_header t s) (ram m)) else poke p (req_header t s) (ram m)),
       vq_descs := build_chain t p (p + 16) (p + 528) base (vq_descs m), vq_avail := push_avail (of_nat (unat base mod QUEUE_SIZE)) (vq_avail m)\<rparr>"

lemma length_req_header [simp]: "length (req_header t s) = 16"
  by (simp add: req_header_def)

lemma issued_ram:
  assumes "length buffer = 512"
  shows "peek p 4 (ram (issued t s buffer p base m)) = to_le_bytes t" "peek (p + 8) 8 (ram (issued t s buffer p base m)) = to_le_bytes s"
    "t = 1 \<Longrightarrow> peek (p + 16) 512 (ram (issued t s buffer p base m)) = buffer"
proof -
  have out: "peek p 4 (poke (p + 528) [x] f) = peek p 4 f" "peek (p + 8) 8 (poke (p + 528) [x] f) = peek (p + 8) 8 f"
    "peek (p + 16) 512 (poke (p + 528) [x] f) = peek (p + 16) 512 f" "peek p 4 (poke (p + 16) buffer f) = peek p 4 f"
    "peek (p + 8) 8 (poke (p + 16) buffer f) = peek (p + 8) 8 f" for x f
    using peek_poke_out [of 0 4 528 "[x]" p f] peek_poke_out [of 8 8 528 "[x]" p f] peek_poke_out [of 16 512 528 "[x]" p f]
      peek_poke_out [of 0 4 16 buffer p f] peek_poke_out [of 8 8 16 buffer p f] assms by simp_all
  have inn: "peek p 4 (poke p (req_header t s) f) = to_le_bytes t" "peek (p + 8) 8 (poke p (req_header t s) f) = to_le_bytes s"
    "peek (p + 16) 512 (poke (p + 16) buffer f) = buffer" for t f
    using peek_poke_in [of 0 0 4 "req_header t s" p f] peek_poke_in [of 0 8 8 "req_header t s" p f] peek_poke_in [of 16 16 512 buffer p f] assms
    by (simp_all add: req_header_def)
  show "peek p 4 (ram (issued t s buffer p base m)) = to_le_bytes t" "peek (p + 8) 8 (ram (issued t s buffer p base m)) = to_le_bytes s"
    "t = 1 \<Longrightarrow> peek (p + 16) 512 (ram (issued t s buffer p base m)) = buffer"
    by (simp_all add: issued_def out inn)
qed

lemma build_chain_nth:
  fixes t p0 p1 p2
  assumes "length ds = 128" "unat base < 128"
  defines "ds' \<equiv> build_chain t p0 p1 p2 base ds"
  shows "length ds' = 128" "ds' ! unat base = \<lparr>vd_addr = p0, vd_len = 16, vd_flags = 1, vd_next = of_nat ((unat base + 1) mod 128)\<rparr>"
    "ds' ! ((unat base + 1) mod 128) = \<lparr>vd_addr = p1, vd_len = 512, vd_flags = (if t = 0 then 3 else 1), vd_next = of_nat ((unat base + 2) mod 128)\<rparr>"
    "ds' ! ((unat base + 2) mod 128) = \<lparr>vd_addr = p2, vd_len = 1, vd_flags = 2, vd_next = 0\<rparr>"
proof -
  have d: "unat base \<noteq> (unat base + 1) mod 128" "unat base \<noteq> (unat base + 2) mod 128" "(unat base + 1) mod 128 \<noteq> (unat base + 2) mod 128"
    "(unat base + 1) mod 128 < 128" "(unat base + 2) mod 128 < 128"
  proof -
    have "(k + 1) mod 128 = (if k < 127 then k + 1 else 0)" "(k + 2) mod 128 = (if k < 126 then k + 2 else k - 126)" if "k < 128" for k :: nat
      using that by (auto simp: mod_if)
    then show "unat base \<noteq> (unat base + 1) mod 128" "unat base \<noteq> (unat base + 2) mod 128" "(unat base + 1) mod 128 \<noteq> (unat base + 2) mod 128"
      using assms(2) by auto
  qed simp_all
  note defs = ds'_def build_chain_def QUEUE_SIZE_def VRING_DESC_F_NEXT_def VRING_DESC_F_WRITE_def VIRTIO_BLK_T_IN_def Let_def
  show "length ds' = 128" using assms(1) by (simp add: defs)
  show "ds' ! unat base = \<lparr>vd_addr = p0, vd_len = 16, vd_flags = 1, vd_next = of_nat ((unat base + 1) mod 128)\<rparr>"
    using assms(1,2) d by (simp add: defs)
  show "ds' ! ((unat base + 1) mod 128) = \<lparr>vd_addr = p1, vd_len = 512, vd_flags = (if t = 0 then 3 else 1), vd_next = of_nat ((unat base + 2) mod 128)\<rparr>"
    using assms(1,2) d by (simp add: defs)
  show "ds' ! ((unat base + 2) mod 128) = \<lparr>vd_addr = p2, vd_len = 1, vd_flags = 2, vd_next = 0\<rparr>"
    using assms(1,2) d by (simp add: defs)
qed

text \<open>What the device reads is the request the driver meant.\<close>

lemma issued_request:
  assumes "length (vq_descs m) = 128" "length (avail_ring (vq_avail m)) = 128" "unat base < 128" "length buffer = 512" "t = 0 \<or> t = 1"
  shows "blk_request (issued t s buffer p base m) = Some (t, s, p + 16, p + 528)"
proof -
  let ?m = "issued t s buffer p base m" and ?i = "unat (avail_idx (vq_avail m))"
  let ?d1 = "(unat base + 1) mod 128" and ?d2 = "(unat base + 2) mod 128"
  have u: "unat (of_nat k :: u16) = k" if "k < 128" for k using that by (simp add: unat_of_nat)
  have "unat (avail_idx (vq_avail m) mod of_nat QUEUE_SIZE) = ?i mod 128" by (simp add: unat_word_ariths QUEUE_SIZE_def)
  then have a: "index (avail_ring (vq_avail ?m)) (unat (avail_idx (vq_avail ?m) - 1) mod 128) = Some (of_nat (unat base))"
    using assms(2,3) by (simp add: issued_def push_avail_def index_def QUEUE_SIZE_def)
  note ch = build_chain_nth [OF assms(1,3), of t p "p + 16" "p + 528"]
  have ds: "vq_descs ?m = build_chain t p (p + 16) (p + 528) base (vq_descs m)" by (simp add: issued_def)
  have b: "index (vq_descs ?m) (unat base) = Some \<lparr>vd_addr = p, vd_len = 16, vd_flags = 1, vd_next = of_nat ?d1\<rparr>"
    "index (vq_descs ?m) ?d1 = Some \<lparr>vd_addr = p + 16, vd_len = 512, vd_flags = (if t = 0 then 3 else 1), vd_next = of_nat ?d2\<rparr>"
    "index (vq_descs ?m) ?d2 = Some \<lparr>vd_addr = p + 528, vd_len = 1, vd_flags = 2, vd_next = 0\<rparr>"
    using ch assms(3) by (simp_all add: ds index_def)
  have "unat (of_nat ?d1 :: u16) = ?d1" "unat (of_nat ?d2 :: u16) = ?d2" by (rule u, simp)+
  with a b issued_ram(1,2) [OF assms(4), of p t s base m] u [OF assms(3)] assms(5) show ?thesis
    by (auto simp: blk_request_def)
qed

section \<open>Driver and device together\<close>

definition blk_inv :: "u64 \<Rightarrow> u64 \<Rightarrow> VirtioBlkDevice \<times> 'h shared \<Rightarrow> bool" where
  [wf_defs]: "blk_inv hhdm cap = (\<lambda>(d, m). vb_initialized d \<and> capacity_blocks d = cap
     \<and> (\<exists>q. vb_queue d = Some q \<and> unat (next_desc q) < 128 \<and> last_used_idx q = used_idx (vq_used m))
     \<and> avail_idx (vq_avail m) = used_idx (vq_used m) \<and> length (vq_descs m) = 128 \<and> length (avail_ring (vq_avail m)) = 128
     \<and> unat (io_base d) + 16 < 2 ^ 16 \<and> unat (dma_phys d) + 528 < 2 ^ 64 \<and> dma_virt d = dma_phys d + hhdm \<and> unat (dma_virt d) + 528 < 2 ^ 64)"

lemma do_block_io_issued:
  fixes io step s
  assumes inv: "blk_inv hhdm cap (d, m)" and q: "vb_queue d = Some q" and t: "t = 0 \<or> t = 1" and b: "length buffer = 512"
  defines "m2 \<equiv> spin_wait step (last_used_idx q) 0 (out16 io (io_base d + 16) 0 (issued t s buffer (dma_phys d) (next_desc q) m))"
    and "q1 \<equiv> q\<lparr>next_desc := (next_desc q + 3) mod 128\<rparr>"
  shows "do_block_io io step hhdm t s buffer (d, m) =
     (if \<not> fst m2 then Some (Inl ''virtio-blk: timeout waiting for I/O'', buffer, d\<lparr>vb_queue := Some q1\<rparr>, snd m2)
      else if hd (peek (dma_phys d + 528) 1 (ram (snd m2))) \<noteq> 0
        then Some (Inl ''virtio-blk: I/O error'', buffer, d\<lparr>vb_queue := Some (q1\<lparr>last_used_idx := last_used_idx q + 1\<rparr>)\<rparr>, snd m2)
      else Some (Inr (), if t = 0 then peek (dma_phys d + 16) 512 (ram (snd m2)) else buffer,
        d\<lparr>vb_queue := Some (q1\<lparr>last_used_idx := last_used_idx q + 1\<rparr>)\<rparr>, snd m2))"
proof -
  let ?p = "dma_phys d" and ?v = "dma_virt d"
  have add: "checked_add ?p 16 = Some (?p + 16)" "checked_add (?p + 16) 512 = Some (?p + 528)"
    "checked_add ?v 16 = Some (?v + 16)" "checked_add (?v + 16) 512 = Some (?v + 528)"
    "checked_add (next_desc q) 3 = Some (next_desc q + 3)" "checked_add (io_base d) VIRTIO_QUEUE_NOTIFY = Some (io_base d + 16)"
    using inv q by (auto simp: blk_inv_def checked_add_def VIRTIO_QUEUE_NOTIFY_def unat_word_ariths)
  have v: "?v - hhdm = ?p" "?v + 16 - hhdm = ?p + 16" "?v + 528 - hhdm = ?p + 528" using inv by (simp_all add: blk_inv_def)
  have iss: "issued t s buffer ?p (next_desc q) m = (let m = write_virt hhdm ?v (req_header t s) m;
      m = (if t = VIRTIO_BLK_T_OUT then write_virt hhdm (?v + 16) buffer m else m); m = write_virt hhdm (?v + 528) [0xFF] m;
      m = m\<lparr>vq_descs := build_chain t ?p (?p + 16) (?p + 528) (next_desc q) (vq_descs m)\<rparr>
      in m\<lparr>vq_avail := push_avail (of_nat (unat (next_desc q) mod QUEUE_SIZE)) (vq_avail m)\<rparr>)"
    by (simp add: issued_def write_virt_def v VIRTIO_BLK_T_OUT_def Let_def)
  show ?thesis
    unfolding m2_def q1_def iss using t
    by (simp add: do_block_io_def q add read_virt_def v Let_def QUEUE_SIZE_def REQUEST_QUEUE_def VIRTIO_BLK_S_OK_def VIRTIO_BLK_T_IN_def
        case_prod_unfold)
qed

lemma do_block_io_ok:
  assumes conf: "conforming io step (io_base d + 16) cap disk alive" and inv: "blk_inv hhdm cap (d, m)" and al: "alive (hw m)"
    and s: "s < cap" and t: "t = 0 \<or> t = 1" and b: "length buffer = 512"
  obtains d' m' where "do_block_io io step hhdm t s buffer (d, m) = Some (Inr (), if t = 0 then disk (hw m) s else buffer, d', m')"
    "blk_inv hhdm cap (d', m')" "io_base d' = io_base d" "alive (hw m')"
    "disk (hw m') = (if t = 0 then disk (hw m) else (disk (hw m))(s := buffer))"
proof -
  obtain q where q: "vb_queue d = Some q" "unat (next_desc q) < 128" "last_used_idx q = used_idx (vq_used m)" using inv by (auto simp: blk_inv_def)
  have i: "avail_idx (vq_avail m) = used_idx (vq_used m)" "length (vq_descs m) = 128" "length (avail_ring (vq_avail m)) = 128" using inv by (auto simp: blk_inv_def)
  let ?p = "dma_phys d"
  define m1 where "m1 = issued t s buffer ?p (next_desc q) m"
  have req: "blk_request m1 = Some (t, s, ?p + 16, ?p + 528)" unfolding m1_def by (rule issued_request [OF i(2,3) q(2) b t])
  have same: "hw m1 = hw m" "vq_used m1 = vq_used m" "avail_idx (vq_avail m1) = used_idx (vq_used m1) + 1" "vq_descs m1 = build_chain t ?p (?p + 16) (?p + 528) (next_desc q) (vq_descs m)"
    "length (avail_ring (vq_avail m1)) = 128"
    using i by (simp_all add: m1_def issued_def push_avail_def)
  have law: "\<exists>k \<le> SPIN_LIMIT. (\<forall>j < k. used_idx (vq_used ((step ^^ j) (out16 io (io_base d + 16) 0 m1))) = used_idx (vq_used m1))
      \<and> serves disk alive (t, s, ?p + 16, ?p + 528) m1 ((step ^^ k) (out16 io (io_base d + 16) 0 m1))"
  proof -
    have "unat (?p + 528 - (?p + 16)) = 512" by simp
    with conf req s same(3) al show ?thesis unfolding conforming_def same(1) [symmetric] by (metis order_refl)
  qed
  then obtain k where k: "k \<le> SPIN_LIMIT" "\<forall>j < k. used_idx (vq_used ((step ^^ j) (out16 io (io_base d + 16) 0 m1))) = used_idx (vq_used m1)"
    "serves disk alive (t, s, ?p + 16, ?p + 528) m1 ((step ^^ k) (out16 io (io_base d + 16) 0 m1))" by blast
  define m2 where "m2 = (step ^^ k) (out16 io (io_base d + 16) 0 m1)"
  have sv: "used_idx (vq_used m2) = used_idx (vq_used m) + 1" "vq_descs m2 = vq_descs m1" "vq_avail m2 = vq_avail m1" "alive (hw m2)" "peek (?p + 528) 1 (ram m2) = [0]"
    "t = 0 \<Longrightarrow> peek (?p + 16) 512 (ram m2) = disk (hw m) s \<and> disk (hw m2) = disk (hw m)"
    "t \<noteq> 0 \<Longrightarrow> disk (hw m2) = (disk (hw m))(s := peek (?p + 16) 512 (ram m1))"
    using k(3) same(1,2) by (auto simp: serves_def m2_def)
  have "used_idx (vq_used m2) \<noteq> used_idx (vq_used m1)" using sv(1) same(2) by simp
  then have spin: "spin_wait step (last_used_idx q) 0 (out16 io (io_base d + 16) 0 m1) = (True, m2)"
    unfolding m2_def q(3) same(2) [symmetric] using k(1,2) by (intro spin_wait_done) simp_all
  let ?d = "d\<lparr>vb_queue := Some (q\<lparr>next_desc := (next_desc q + 3) mod 128, last_used_idx := last_used_idx q + 1\<rparr>)\<rparr>"
  have run: "do_block_io io step hhdm t s buffer (d, m) = Some (Inr (), if t = 0 then disk (hw m) s else buffer, ?d, m2)"
    using do_block_io_issued [OF inv q(1) t b, of io step s] sv(5,6) unfolding m1_def [symmetric] spin by auto
  have "unat ((next_desc q + 3) mod 128) < 128" by (simp add: unat_word_ariths)
  then have "blk_inv hhdm cap (?d, m2)" using inv sv(1-3) same(3-5) q i(2) build_chain_nth(1) [OF i(2) q(2)] by (auto simp: blk_inv_def same(2))
  moreover have "disk (hw m2) = (if t = 0 then disk (hw m) else (disk (hw m))(s := buffer))"
    using sv(6,7) t by (auto simp: m1_def issued_ram(3) [OF b refl])
  ultimately show thesis using that [OF run] sv(4) by simp
qed

definition blk_ok :: "'h shared ports \<Rightarrow> ('h shared \<Rightarrow> 'h shared) \<Rightarrow> u64 \<Rightarrow> u64 \<Rightarrow> ('h \<Rightarrow> u64 \<Rightarrow> block) \<Rightarrow> ('h \<Rightarrow> bool) \<Rightarrow> VirtioBlkDevice \<times> 'h shared \<Rightarrow> bool" where
  [wf_defs]: "blk_ok io step hhdm cap disk alive = (\<lambda>(d, m). conforming io step (io_base d + 16) cap disk alive \<and> blk_inv hhdm cap (d, m) \<and> alive (hw m))"

definition stored :: "('h \<Rightarrow> u64 \<Rightarrow> block) \<Rightarrow> VirtioBlkDevice \<times> 'h shared \<Rightarrow> u64 \<Rightarrow> block" where
  "stored disk = (\<lambda>(d, m). disk (hw m))"

lemma vb_read_ok:
  assumes "n < cap" "blk_ok io step hhdm cap disk alive (d, m)"
  obtains d' m' where "vb_read io step hhdm n (d, m) = Some (Inr (disk (hw m) n), d', m')" "blk_ok io step hhdm cap disk alive (d', m')"
    "disk (hw m') = disk (hw m)"
proof -
  have ok: "conforming io step (io_base d + 16) cap disk alive" "blk_inv hhdm cap (d, m)" "alive (hw m)" using assms(2) by (auto simp: blk_ok_def)
  obtain d' m' where r: "do_block_io io step hhdm 0 n (replicate 512 0) (d, m) = Some (Inr (), disk (hw m) n, d', m')"
    "blk_inv hhdm cap (d', m')" "io_base d' = io_base d" "alive (hw m')" "disk (hw m') = disk (hw m)"
    by (rule do_block_io_ok [OF ok assms(1), of 0 "replicate 512 0"]) simp_all
  moreover have "vb_initialized d" "\<not> capacity_blocks d \<le> n" using ok(2) assms(1) by (auto simp: blk_inv_def)
  ultimately show thesis using that [of d' m'] ok(1) by (simp add: vb_read_def vb_read_block_def VIRTIO_BLK_T_IN_def blk_ok_def)
qed

lemma vb_write_ok:
  assumes "n < cap" "blk_ok io step hhdm cap disk alive (d, m)" "length b = 512"
  obtains d' m' where "vb_write io step hhdm n b (d, m) = Some (Inr (), d', m')" "blk_ok io step hhdm cap disk alive (d', m')"
    "disk (hw m') = (disk (hw m))(n := b)"
proof -
  have ok: "conforming io step (io_base d + 16) cap disk alive" "blk_inv hhdm cap (d, m)" "alive (hw m)" using assms(2) by (auto simp: blk_ok_def)
  obtain d' m' where r: "do_block_io io step hhdm 1 n b (d, m) = Some (Inr (), b, d', m')"
    "blk_inv hhdm cap (d', m')" "io_base d' = io_base d" "alive (hw m')" "disk (hw m') = (disk (hw m))(n := b)"
    by (rule do_block_io_ok [OF ok assms(1) _ assms(3), of 1]) simp_all
  moreover have "vb_initialized d" "\<not> capacity_blocks d \<le> n" using ok(2) assms(1) by (auto simp: blk_inv_def)
  ultimately show thesis using that [of d' m'] ok(1) by (simp add: vb_write_def vb_write_block_def VIRTIO_BLK_T_OUT_def blk_ok_def)
qed

text \<open>The driver is a block device for the cache.\<close>

interpretation vb: block_device "vb_read io step hhdm" "vb_write io step hhdm" "stored disk" "blk_ok io step hhdm cap disk alive" cap
  for io :: "'h shared ports" and step hhdm disk alive cap
proof
  fix n and s :: "VirtioBlkDevice \<times> 'h shared"
  obtain d m where s: "s = (d, m)" by (cases s)
  assume a: "n < cap" "blk_ok io step hhdm cap disk alive s"
  then show "\<exists>s'. vb_read io step hhdm n s = Some (Inr (stored disk s n), s') \<and> blk_ok io step hhdm cap disk alive s' \<and> stored disk s' = stored disk s"
    unfolding s by (elim vb_read_ok) (auto simp: stored_def)
  show "length (stored disk s n) = 512" using a by (auto simp: s blk_ok_def conforming_def stored_def)
  fix b :: block assume "length b = 512"
  with a show "\<exists>s'. vb_write io step hhdm n b s = Some (Inr (), s') \<and> blk_ok io step hhdm cap disk alive s' \<and> stored disk s' = (stored disk s)(n := b)"
    unfolding s by (elim vb_write_ok) (auto simp: stored_def)
qed

section \<open>A device\<close>

text \<open>
  A machine with the host bridge of the PCI demonstration and a virtio disk of 100 blocks at port \<open>0xC000\<close> that serves a request as soon as it
  is notified.  The state behind the ports is the address latch of the bridge and the disk.
\<close>

type_synonym ref_hw = "u32 \<times> (u64 \<Rightarrow> block)"

definition ref_serve :: "ref_hw shared \<Rightarrow> ref_hw shared" where
  "ref_serve m =
     (case blk_request m of
        None \<Rightarrow> m
      | Some (t, s, data, status) \<Rightarrow>
          m\<lparr>vq_used := (vq_used m)\<lparr>used_idx := used_idx (vq_used m) + 1\<rparr>,
            ram := poke status [0] (if t = 0 then poke data (snd (hw m) s) (ram m) else ram m),
            hw := if t = 0 then hw m else (fst (hw m), (snd (hw m))(s := peek data 512 (ram m)))\<rparr>)"

definition ref_in32 :: "u16 \<Rightarrow> ref_hw shared \<Rightarrow> u32" where
  "ref_in32 p m =
     (if p = 0xCFC then let a = fst (hw m) in demo_space (addr_bus a) (addr_device a) (addr_function a) (addr_register a)
      else if p = 0xC014 then 100 else 0)"

definition ref_ports :: "ref_hw shared ports" where
  "ref_ports = \<lparr>in8 = \<lambda>_ m. (3, m), in16 = \<lambda>_ m. (128, m), in32 = \<lambda>p m. (ref_in32 p m, m), out8 = \<lambda>_ _ m. m,
     out16 = \<lambda>p _ m. if p = 0xC010 then ref_serve m else m,
     out32 = \<lambda>p v m. if p = 0xCF8 then m\<lparr>hw := (v, snd (hw m))\<rparr> else m\<rparr>"

definition full_disk :: "ref_hw \<Rightarrow> bool" where
  "full_disk h \<longleftrightarrow> (\<forall>n. length (snd h n) = 512)"

lemma ref_conforming: "conforming ref_ports (\<lambda>m. m) 0xC010 cap snd full_disk"
  unfolding conforming_def
proof (intro conjI allI impI)
  fix m :: "ref_hw shared" and t s data status
  assume a: "full_disk (hw m) \<and> avail_idx (vq_avail m) = used_idx (vq_used m) + 1 \<and> blk_request m = Some (t, s, data, status) \<and> s < cap
    \<and> 512 \<le> unat (status - data)"
  let ?b = "snd (hw m) s"
  have "peek status 1 (poke status [0] f) = [0]" for f by (simp add: peek_def poke_def)
  moreover have "peek data 512 (poke status [0] (poke data ?b f)) = ?b" for f
  proof -
    have "data + of_nat i \<noteq> status" if "i < 512" for i :: nat
    proof
      assume "data + of_nat i = status"
      then have "status - data = of_nat i" by auto
      moreover have "unat (of_nat i :: u64) = i" using that by (simp add: unat_of_nat)
      ultimately show False using a that by simp
    qed
    then have ne: "\<not> unat (data + of_nat i - status) < length [0 :: u8]" if "i < 512" for i :: nat using that by (simp add: unat_eq_0)
    have "peek data 512 (poke status [0] (poke data ?b f)) = peek data 512 (poke data ?b f)"
      unfolding peek_def by (rule map_cong [OF refl]) (simp only: poke_def [of status] ne set_upt atLeastLessThan_iff if_False)
    also have "\<dots> = ?b" using peek_poke_in [of 0 0 512 ?b data f] a by (simp add: full_disk_def)
    finally show ?thesis .
  qed
  ultimately have "serves snd full_disk (t, s, data, status) m (out16 ref_ports 0xC010 0 m)"
    using a by (auto simp: serves_def ref_ports_def ref_serve_def full_disk_def)
  then show "\<exists>k\<le>SPIN_LIMIT. (\<forall>j<k. used_idx (vq_used (((\<lambda>m. m) ^^ j) (out16 ref_ports 0xC010 0 m))) = used_idx (vq_used m))
      \<and> serves snd full_disk (t, s, data, status) m (((\<lambda>m. m) ^^ k) (out16 ref_ports 0xC010 0 m))"
    by (intro exI [of _ 0]) simp
qed (simp add: full_disk_def)

definition demo_driver :: VirtioBlkDevice where
  "demo_driver = \<lparr>io_base = 0xC000, capacity_blocks = 100, vb_queue = Some \<lparr>next_desc = 0, last_used_idx = 0\<rparr>,
     dma_phys = 0x8000, dma_virt = 0xFFFF800000008000, vb_initialized = True\<rparr>"

definition demo_shared :: "ref_hw shared" where
  "demo_shared = \<lparr>ram = \<lambda>_. 0, vq_descs = replicate 128 \<lparr>vd_addr = 0, vd_len = 0, vd_flags = 0, vd_next = 0\<rparr>,
     vq_avail = \<lparr>avail_flags = 0, avail_idx = 0, avail_ring = replicate 128 0\<rparr>,
     vq_used = \<lparr>used_flags = 0, used_idx = 0, used_ring = replicate 128 \<lparr>used_elem_id = 0, used_elem_len = 0\<rparr>\<rparr>,
     hw = (0, \<lambda>_. replicate 512 0)\<rparr>"

abbreviation demo_hhdm :: u64 where
  "demo_hhdm \<equiv> 0xFFFF800000000000"

lemma demo_blk_ok: "blk_ok ref_ports (\<lambda>m. m) demo_hhdm 100 snd full_disk (demo_driver, demo_shared)"
  using ref_conforming [of 100] by (simp add: blk_ok_def blk_inv_def demo_driver_def demo_shared_def full_disk_def)

section \<open>Properties\<close>

text \<open>C7. With a device that obeys the virtio specification, the block driver reads the block the disk stores and changes nothing, and
  writes exactly the block it is given; a block number beyond the capacity is refused before the device is touched.\<close>

theorem virtio_io_exact:
  assumes "blk_ok io step hhdm cap disk alive (d, m)" "length b = 512"
  shows "(if n < cap
      then \<exists>d' m'. vb_read io step hhdm n (d, m) = Some (Inr (disk (hw m) n), d', m') \<and> blk_ok io step hhdm cap disk alive (d', m') \<and> disk (hw m') = disk (hw m)
      else vb_read io step hhdm n (d, m) = Some (Inl ''block out of range'', d, m))
    \<and> (if n < cap
      then \<exists>d' m'. vb_write io step hhdm n b (d, m) = Some (Inr (), d', m') \<and> blk_ok io step hhdm cap disk alive (d', m') \<and> disk (hw m') = (disk (hw m))(n := b)
      else vb_write io step hhdm n b (d, m) = Some (Inl ''block out of range'', d, m))"
proof (cases "n < cap")
  case True
  obtain d1 m1 where "vb_read io step hhdm n (d, m) = Some (Inr (disk (hw m) n), d1, m1)" "blk_ok io step hhdm cap disk alive (d1, m1)" "disk (hw m1) = disk (hw m)"
    by (rule vb_read_ok [OF True assms(1)])
  moreover obtain d2 m2 where "vb_write io step hhdm n b (d, m) = Some (Inr (), d2, m2)" "blk_ok io step hhdm cap disk alive (d2, m2)" "disk (hw m2) = (disk (hw m))(n := b)"
    by (rule vb_write_ok [OF True assms])
  ultimately show ?thesis using True by auto
next
  case False
  have "vb_initialized d" "capacity_blocks d = cap" using assms(1) by (auto simp: blk_ok_def blk_inv_def)
  with False show ?thesis by (simp add: vb_read_def vb_read_block_def vb_write_def vb_write_block_def linorder_not_less)
qed

theorem virtio_io_exact_witness:
  "\<exists>d' m'. vb_write ref_ports (\<lambda>m. m) demo_hhdm 5 (replicate 512 7) (demo_driver, demo_shared) = Some (Inr (), d', m') \<and> snd (hw m') 5 = replicate 512 7"
proof -
  have l: "length (replicate 512 7 :: block) = 512" "(5 :: u64) < 100" by simp_all
  from virtio_io_exact [OF demo_blk_ok l(1), of 5] l(2) show ?thesis by auto
qed

text \<open>A request that the device never answers ends after the polls with an error, and the descriptor and the ring entry stay
  with the device.\<close>

lemma io_timeout:
  assumes "blk_inv hhdm cap (d, m)" "vb_queue d = Some q" "t = 0 \<or> t = 1" "length buffer = 512"
    "\<forall>j. used_idx (vq_used ((step ^^ j) (out16 io (io_base d + 16) 0 (issued t s buffer (dma_phys d) (next_desc q) m)))) = used_idx (vq_used m)"
  obtains d' m' where "do_block_io io step hhdm t s buffer (d, m) = Some (Inl ''virtio-blk: timeout waiting for I/O'', buffer, d', m')"
    "vb_queue d' = Some (q\<lparr>next_desc := (next_desc q + 3) mod 128\<rparr>)"
proof -
  have "last_used_idx q = used_idx (vq_used m)" using assms(1,2) by (auto simp: blk_inv_def)
  with spin_wait_timeout [OF assms(5), of 0] do_block_io_issued [OF assms(1-4), of io step s] show thesis by (auto intro!: that)
qed


end
