(* ===== verification/Frame_Allocator.thy ===== *)
theory Frame_Allocator
  imports Oxide_Prelude
begin

text \<open>
  \<^verbatim>\<open>memory/frame_allocator.rs\<close>: the bitmap allocator of physical frames and its initialisation from
  the boot loader's memory map.  A \<open>PhysFrame\<close> is represented by the page-aligned address it starts
  at; addresses beyond the 52 bits of the architecture, which the address type of the \<open>x86_64\<close>
  crate refuses, do not occur in a memory map.
\<close>

definition PAGE_SIZE :: u64 where
  "PAGE_SIZE = 4096"

datatype PhysFrame = containing_address (start_address: u64)

record BitmapFrameAllocator =
  bitmap :: "u8 list"
  total_frames :: nat
  next_free :: nat

definition fa_new :: "nat \<Rightarrow> BitmapFrameAllocator" where
  "fa_new frames =
     (let bitmap_size = (frames + 7) div 8
      in \<lparr>bitmap = replicate bitmap_size 0xFF, total_frames = frames, next_free = 0\<rparr>)"

definition is_set :: "BitmapFrameAllocator \<Rightarrow> nat \<Rightarrow> bool option" where
  "is_set fa i = do {
     b \<leftarrow> index (bitmap fa) (i div 8);
     Some (drop_bit (i mod 8) b AND 1 = 1)
   }"

definition set_bit :: "nat \<Rightarrow> BitmapFrameAllocator \<Rightarrow> BitmapFrameAllocator option" where
  "set_bit i fa = do {
     b \<leftarrow> index (bitmap fa) (i div 8);
     bs \<leftarrow> store (bitmap fa) (i div 8) (b OR push_bit (i mod 8) 1);
     Some (fa\<lparr>bitmap := bs\<rparr>)
   }"

definition clear_bit :: "nat \<Rightarrow> BitmapFrameAllocator \<Rightarrow> BitmapFrameAllocator option" where
  "clear_bit i fa = do {
     b \<leftarrow> index (bitmap fa) (i div 8);
     bs \<leftarrow> store (bitmap fa) (i div 8) (b AND NOT (push_bit (i mod 8) 1));
     Some (fa\<lparr>bitmap := bs\<rparr>)
   }"

definition mark_region_free :: "nat \<Rightarrow> nat \<Rightarrow> BitmapFrameAllocator \<Rightarrow> BitmapFrameAllocator option" where
  "mark_region_free start_frame n fa = do {
     last \<leftarrow> usize_add start_frame n;
     for_each (\<lambda>i fa. if i < total_frames fa then clear_bit i fa else Some fa) [start_frame..<last] fa
   }"

definition mark_region_used :: "nat \<Rightarrow> nat \<Rightarrow> BitmapFrameAllocator \<Rightarrow> BitmapFrameAllocator option" where
  "mark_region_used start_frame n fa = do {
     last \<leftarrow> usize_add start_frame n;
     for_each (\<lambda>i fa. if i < total_frames fa then set_bit i fa else Some fa) [start_frame..<last] fa
   }"

text \<open>The scan of \<open>allocate_frame\<close> over one range of indices, and what it does with the index it stops at.\<close>

fun first_clear :: "BitmapFrameAllocator \<Rightarrow> nat list \<Rightarrow> nat option option" where
  "first_clear fa [] = Some None"
| "first_clear fa (i # is) = do {
     s \<leftarrow> is_set fa i;
     if \<not> s then Some (Some i) else first_clear fa is
   }"

definition take_frame :: "nat \<Rightarrow> BitmapFrameAllocator \<Rightarrow> (PhysFrame option \<times> BitmapFrameAllocator) option" where
  "take_frame i fa = do {
     fa \<leftarrow> set_bit i fa;
     nf \<leftarrow> usize_add i 1;
     addr \<leftarrow> checked_mul (of_nat i) PAGE_SIZE;
     Some (Some (containing_address addr), fa\<lparr>next_free := nf\<rparr>)
   }"

definition allocate_frame :: "BitmapFrameAllocator \<Rightarrow> (PhysFrame option \<times> BitmapFrameAllocator) option" where
  "allocate_frame fa = do {
     r \<leftarrow> first_clear fa [next_free fa..<total_frames fa];
     case r of
       Some i \<Rightarrow> take_frame i fa
     | None \<Rightarrow> do {
         r \<leftarrow> first_clear fa [0..<next_free fa];
         case r of Some i \<Rightarrow> take_frame i fa | None \<Rightarrow> Some (None, fa)
       }
   }"

definition free_frame :: "PhysFrame \<Rightarrow> BitmapFrameAllocator \<Rightarrow> BitmapFrameAllocator option" where
  "free_frame frame fa = do {
     let i = unat (start_address frame) div unat PAGE_SIZE;
     fa \<leftarrow> clear_bit i fa;
     Some (if i < next_free fa then fa\<lparr>next_free := i\<rparr> else fa)
   }"

definition count_ones :: "u8 \<Rightarrow> nat" where
  "count_ones b = length (filter (bit b) [0..<8])"

definition fa_stats :: "BitmapFrameAllocator \<Rightarrow> (nat \<times> nat) option" where
  "fa_stats fa = do {
     let used = sum_list (map count_ones (bitmap fa));
     free \<leftarrow> usize_sub (total_frames fa) used;
     Some (free, total_frames fa)
   }"

text \<open>A memory-map entry of the boot protocol; the kinds the code does not single out are one case.\<close>

datatype MemmapType = MEMMAP_USABLE | MEMMAP_BOOTLOADER_RECLAIMABLE | MEMMAP_EXECUTABLE_AND_MODULES | MEMMAP_OTHER

record MemmapEntry =
  entry_base :: u64
  entry_length :: u64
  entry_type :: MemmapType

definition usable :: "MemmapEntry \<Rightarrow> bool" where
  "usable e \<longleftrightarrow> entry_type e = MEMMAP_USABLE"

definition is_protected :: "MemmapEntry \<Rightarrow> bool" where
  "is_protected e \<longleftrightarrow> entry_type e = MEMMAP_BOOTLOADER_RECLAIMABLE \<or> entry_type e = MEMMAP_EXECUTABLE_AND_MODULES"

definition start_frame :: "MemmapEntry \<Rightarrow> nat" where
  "start_frame e = unat (entry_base e div PAGE_SIZE)"

definition frame_count :: "MemmapEntry \<Rightarrow> nat" where
  "frame_count e = unat (entry_length e div PAGE_SIZE)"

text \<open>\<open>max_addr\<close>: the largest end of a usable entry, 0 when there is none.\<close>

fun max_addr :: "MemmapEntry list \<Rightarrow> u64 option" where
  "max_addr [] = Some 0"
| "max_addr (e # es) = do {
     last \<leftarrow> checked_add (entry_base e) (entry_length e);
     m \<leftarrow> max_addr es;
     Some (max last m)
   }"

definition bitmap_frame_count :: "nat \<Rightarrow> nat" where
  "bitmap_frame_count bitmap_size = (bitmap_size + unat PAGE_SIZE - 1) div unat PAGE_SIZE"

text \<open>\<open>init\<close>: \<open>None\<close> is one of its panics (an entry that ends above the address space, no region for
  the bitmap, or statistics that underflow).\<close>

definition fa_init :: "MemmapEntry list \<Rightarrow> BitmapFrameAllocator option" where
  "fa_init entries = do {
     m \<leftarrow> max_addr (filter usable entries);
     let frames = unat (m div PAGE_SIZE);
     let bitmap_size = (frames + 7) div 8;
     region \<leftarrow> List.find (\<lambda>e. bitmap_size \<le> unat (entry_length e)) (filter usable entries);
     let fa = fa_new frames;
     fa \<leftarrow> for_each (\<lambda>e fa. if usable e then mark_region_free (start_frame e) (frame_count e) fa else Some fa)
            entries fa;
     fa \<leftarrow> mark_region_used (start_frame region) (bitmap_frame_count bitmap_size) fa;
     fa \<leftarrow> for_each (\<lambda>e fa. if is_protected e \<and> start_frame e < frames
                        then mark_region_used (start_frame e) (frame_count e) fa else Some fa)
            entries fa;
     s \<leftarrow> fa_stats fa;
     Some fa
   }"

section \<open>The bitmap as a set of frames\<close>

definition used :: "BitmapFrameAllocator \<Rightarrow> nat \<Rightarrow> bool" where
  "used fa i \<longleftrightarrow> bit (bitmap fa ! (i div 8)) (i mod 8)"

definition free_frames :: "BitmapFrameAllocator \<Rightarrow> nat set" where
  "free_frames fa = {i. i < total_frames fa \<and> \<not> used fa i}"

definition fa_wf :: "BitmapFrameAllocator \<Rightarrow> bool" where
  [wf_defs]: "fa_wf fa \<longleftrightarrow> length (bitmap fa) = (total_frames fa + 7) div 8
     \<and> next_free fa \<le> total_frames fa \<and> total_frames fa \<le> 2 ^ 52"

definition padding_used :: "BitmapFrameAllocator \<Rightarrow> bool" where
  "padding_used fa \<longleftrightarrow> (\<forall>i. total_frames fa \<le> i \<and> i div 8 < length (bitmap fa) \<longrightarrow> used fa i)"

definition frame_index :: "PhysFrame \<Rightarrow> nat" where
  "frame_index f = unat (start_address f) div unat PAGE_SIZE"

lemma fa_wf_index: "fa_wf fa \<Longrightarrow> i < total_frames fa \<Longrightarrow> i div 8 < length (bitmap fa)"
  by (auto simp: fa_wf_def)

lemma is_set_used: "i div 8 < length (bitmap fa) \<Longrightarrow> is_set fa i = Some (used fa i)"
  by (simp add: is_set_def index_def used_def and_one_eq bit_iff_odd_drop_bit odd_iff_mod_2_eq_one)

lemma div_mod_8_eq_iff: "(i::nat) = j \<longleftrightarrow> i div 8 = j div 8 \<and> i mod 8 = j mod 8"
  by (metis div_mod_decomp)

lemma set_bit_used:
  assumes "i div 8 < length (bitmap fa)"
  obtains fa' where "set_bit i fa = Some fa'" "total_frames fa' = total_frames fa" "next_free fa' = next_free fa"
    "length (bitmap fa') = length (bitmap fa)" "\<And>j. used fa' j \<longleftrightarrow> j = i \<or> used fa j"
proof
  let ?b = "bitmap fa ! (i div 8) OR push_bit (i mod 8) 1"
  show "set_bit i fa = Some (fa\<lparr>bitmap := (bitmap fa)[i div 8 := ?b]\<rparr>)"
    using assms by (simp add: set_bit_def index_def store_def)
  have "bit ?b (j mod 8) \<longleftrightarrow> j mod 8 = i mod 8 \<or> bit (bitmap fa ! (i div 8)) (j mod 8)" for j
    by (auto simp: bit_or_iff bit_exp_iff possible_bit_word)
  then show "used (fa\<lparr>bitmap := (bitmap fa)[i div 8 := ?b]\<rparr>) j \<longleftrightarrow> j = i \<or> used fa j" for j
    using assms by (cases "j div 8 = i div 8") (auto simp: used_def div_mod_8_eq_iff [of j i])
qed simp_all

lemma clear_bit_used:
  assumes "i div 8 < length (bitmap fa)"
  obtains fa' where "clear_bit i fa = Some fa'" "total_frames fa' = total_frames fa" "next_free fa' = next_free fa"
    "length (bitmap fa') = length (bitmap fa)" "\<And>j. used fa' j \<longleftrightarrow> j \<noteq> i \<and> used fa j"
proof
  let ?b = "bitmap fa ! (i div 8) AND NOT (push_bit (i mod 8) 1)"
  show "clear_bit i fa = Some (fa\<lparr>bitmap := (bitmap fa)[i div 8 := ?b]\<rparr>)"
    using assms by (simp add: clear_bit_def index_def store_def)
  have "bit ?b (j mod 8) \<longleftrightarrow> j mod 8 \<noteq> i mod 8 \<and> bit (bitmap fa ! (i div 8)) (j mod 8)" for j
    by (auto simp: bit_and_iff bit_not_iff bit_exp_iff possible_bit_word)
  then show "used (fa\<lparr>bitmap := (bitmap fa)[i div 8 := ?b]\<rparr>) j \<longleftrightarrow> j \<noteq> i \<and> used fa j" for j
    using assms by (cases "j div 8 = i div 8") (auto simp: used_def div_mod_8_eq_iff [of j i])
qed simp_all

lemma first_clear_find:
  "(\<And>i. i \<in> set is \<Longrightarrow> i div 8 < length (bitmap fa)) \<Longrightarrow> first_clear fa is = Some (List.find (\<lambda>i. \<not> used fa i) is)"
  by (induction "is") (auto simp: is_set_used)

section \<open>Allocation and release\<close>

lemma PAGE_SIZE_unat [simp]: "unat PAGE_SIZE = 4096"
  by (simp add: PAGE_SIZE_def)

lemma frame_index_of:
  assumes "i < 2 ^ 52"
  shows "checked_mul (of_nat i) PAGE_SIZE = Some (of_nat i * PAGE_SIZE)"
    "frame_index (containing_address (of_nat i * PAGE_SIZE)) = i"
proof -
  have "unat (of_nat i :: u64) = i" using assms by (simp add: unat_of_nat_small)
  then show m: "checked_mul (of_nat i) PAGE_SIZE = Some (of_nat i * PAGE_SIZE)"
    using assms by (simp add: checked_mul_def)
  show "frame_index (containing_address (of_nat i * PAGE_SIZE)) = i"
    using checked_mul_unat [OF m] \<open>unat (of_nat i :: u64) = i\<close> by (simp add: frame_index_def)
qed

lemma take_frame_result:
  assumes "fa_wf fa" "i < total_frames fa"
  obtains fa' f where "take_frame i fa = Some (Some f, fa')" "frame_index f = i" "fa_wf fa'"
    "total_frames fa' = total_frames fa" "\<And>j. used fa' j \<longleftrightarrow> j = i \<or> used fa j"
proof -
  obtain fa' where fa': "set_bit i fa = Some fa'" "total_frames fa' = total_frames fa"
    "length (bitmap fa') = length (bitmap fa)" "\<And>j. used fa' j \<longleftrightarrow> j = i \<or> used fa j"
    using set_bit_used [OF fa_wf_index [OF assms]] by metis
  have i: "i < 2 ^ 52" using assms by (simp add: fa_wf_def)
  let ?fa = "fa'\<lparr>next_free := i + 1\<rparr>" and ?f = "containing_address (of_nat i * PAGE_SIZE)"
  have "take_frame i fa = Some (Some ?f, ?fa)"
    using i by (simp add: take_frame_def fa'(1) frame_index_of(1) usize_add_def)
  moreover have "fa_wf ?fa" using assms fa'(2,3) by (simp add: fa_wf_def)
  moreover have "used ?fa j \<longleftrightarrow> j = i \<or> used fa j" for j using fa'(4) by (simp add: used_def)
  ultimately show ?thesis using that frame_index_of(2) [OF i] fa'(2) by simp
qed

text \<open>The whole behaviour of \<open>allocate_frame\<close>: it panics never, fails only when no frame is free, and
  otherwise hands out a frame that was free.\<close>

lemma allocate_frame_result:
  assumes wf: "fa_wf fa"
  obtains (out_of_memory) "allocate_frame fa = Some (None, fa)" "free_frames fa = {}"
  | (granted) f fa' where "allocate_frame fa = Some (Some f, fa')" "fa_wf fa'"
      "total_frames fa' = total_frames fa" "frame_index f \<in> free_frames fa"
      "free_frames fa' = free_frames fa - {frame_index f}" "padding_used fa \<Longrightarrow> padding_used fa'"
proof -
  let ?hi = "[next_free fa..<total_frames fa]" and ?lo = "[0..<next_free fa]"
  have nf: "next_free fa \<le> total_frames fa" using wf by (simp add: fa_wf_def)
  have scan: "first_clear fa is = Some (List.find (\<lambda>i. \<not> used fa i) is)"
    if "set is \<subseteq> {..<total_frames fa}" for "is"
    using that fa_wf_index [OF wf] by (intro first_clear_find) auto
  have hi: "first_clear fa ?hi = Some (List.find (\<lambda>i. \<not> used fa i) ?hi)"
    and lo: "first_clear fa ?lo = Some (List.find (\<lambda>i. \<not> used fa i) ?lo)"
    using nf by (auto intro!: scan)
  have take: thesis if i: "allocate_frame fa = take_frame i fa" "i < total_frames fa" "\<not> used fa i" for i
  proof -
    obtain fa' f where r: "take_frame i fa = Some (Some f, fa')" "frame_index f = i" "fa_wf fa'"
      "total_frames fa' = total_frames fa" "\<And>j. used fa' j \<longleftrightarrow> j = i \<or> used fa j"
      using take_frame_result [OF wf i(2)] by metis
    show thesis
      by (rule granted [of f fa'])
        (use r i wf in \<open>auto simp: free_frames_def padding_used_def fa_wf_def\<close>)
  qed
  show thesis
  proof (cases "List.find (\<lambda>i. \<not> used fa i) ?hi")
    case (Some i)
    then show thesis using take [of i] hi find_SomeD [OF Some] by (simp add: allocate_frame_def)
  next
    case no_hi: None
    show thesis
    proof (cases "List.find (\<lambda>i. \<not> used fa i) ?lo")
      case (Some i)
      then show thesis using take [of i] hi lo no_hi nf find_SomeD [OF Some] by (simp add: allocate_frame_def)
    next
      case None
      then have "allocate_frame fa = Some (None, fa)" using hi lo no_hi by (simp add: allocate_frame_def)
      moreover have "free_frames fa = {}"
        using no_hi None by (auto simp: find_None_iff free_frames_def)
      ultimately show thesis by (rule out_of_memory)
    qed
  qed
qed

lemma free_frame_result:
  assumes wf: "fa_wf fa" and f: "frame_index f < total_frames fa"
  obtains fa' where "free_frame f fa = Some fa'" "fa_wf fa'" "total_frames fa' = total_frames fa"
    "free_frames fa' = insert (frame_index f) (free_frames fa)" "padding_used fa \<Longrightarrow> padding_used fa'"
proof -
  obtain fa' where fa': "clear_bit (frame_index f) fa = Some fa'" "total_frames fa' = total_frames fa"
    "next_free fa' = next_free fa" "length (bitmap fa') = length (bitmap fa)"
    "\<And>j. used fa' j \<longleftrightarrow> j \<noteq> frame_index f \<and> used fa j"
    using clear_bit_used [OF fa_wf_index [OF assms]] by metis
  let ?fa = "if frame_index f < next_free fa' then fa'\<lparr>next_free := frame_index f\<rparr> else fa'"
  have "free_frame f fa = Some ?fa"
    using fa'(1) by (simp add: free_frame_def frame_index_def Let_def)
  moreover have "fa_wf ?fa" using wf fa' by (auto simp: fa_wf_def)
  moreover have "free_frames ?fa = insert (frame_index f) (free_frames fa)"
    using fa'(2,5) f by (auto simp: free_frames_def used_def)
  moreover have "padding_used ?fa" if "padding_used fa"
    using that f fa' by (auto simp: padding_used_def used_def)
  ultimately show ?thesis using that [of ?fa] fa'(2) by auto
qed

section \<open>Initialisation from the memory map\<close>

definition same_shape :: "BitmapFrameAllocator \<Rightarrow> BitmapFrameAllocator \<Rightarrow> bool" where
  "same_shape fa fa' \<longleftrightarrow> total_frames fa' = total_frames fa \<and> next_free fa' = next_free fa
     \<and> length (bitmap fa') = length (bitmap fa)"

lemma fa_wf_same_shape: "fa_wf fa \<Longrightarrow> same_shape fa fa' \<Longrightarrow> fa_wf fa'"
  by (simp add: fa_wf_def same_shape_def)

lemma for_each_clear:
  assumes "fa_wf fa"
  shows "\<exists>fa'. for_each (\<lambda>i fa. if i < total_frames fa then clear_bit i fa else Some fa) is fa = Some fa'
    \<and> same_shape fa fa' \<and> (\<forall>j. used fa' j \<longleftrightarrow> used fa j \<and> \<not> (j \<in> set is \<and> j < total_frames fa))"
  using assms
proof (induction "is" arbitrary: fa)
  case (Cons i "is")
  show ?case
  proof (cases "i < total_frames fa")
    case True
    obtain fa' where fa': "clear_bit i fa = Some fa'" "same_shape fa fa'" "\<And>j. used fa' j \<longleftrightarrow> j \<noteq> i \<and> used fa j"
      using clear_bit_used [OF fa_wf_index [OF Cons.prems True]] unfolding same_shape_def by metis
    with Cons.IH [OF fa_wf_same_shape [OF Cons.prems fa'(2)]] True show ?thesis
      by (auto simp: same_shape_def)
  next
    case False
    from Cons.IH [OF Cons.prems] show ?thesis by (rule ex_forward) (use False in auto)
  qed
qed (simp add: same_shape_def)

lemma for_each_set:
  assumes "fa_wf fa"
  shows "\<exists>fa'. for_each (\<lambda>i fa. if i < total_frames fa then set_bit i fa else Some fa) is fa = Some fa'
    \<and> same_shape fa fa' \<and> (\<forall>j. used fa' j \<longleftrightarrow> used fa j \<or> j \<in> set is \<and> j < total_frames fa)"
  using assms
proof (induction "is" arbitrary: fa)
  case (Cons i "is")
  show ?case
  proof (cases "i < total_frames fa")
    case True
    obtain fa' where fa': "set_bit i fa = Some fa'" "same_shape fa fa'" "\<And>j. used fa' j \<longleftrightarrow> j = i \<or> used fa j"
      using set_bit_used [OF fa_wf_index [OF Cons.prems True]] unfolding same_shape_def by metis
    with Cons.IH [OF fa_wf_same_shape [OF Cons.prems fa'(2)]] True show ?thesis
      by (auto simp: same_shape_def)
  next
    case False
    from Cons.IH [OF Cons.prems] show ?thesis by (rule ex_forward) (use False in auto)
  qed
qed (simp add: same_shape_def)

definition region_frames :: "MemmapEntry \<Rightarrow> nat set" where
  "region_frames e = {start_frame e..<start_frame e + frame_count e}"

lemma frame_of_u64: "unat (a div PAGE_SIZE) < 2 ^ 52"
proof -
  have "unat a < 2 ^ 64" using unsigned_less [of a] by simp
  then show ?thesis by (simp add: unat_div PAGE_SIZE_def)
qed

lemma mark_region_free_result:
  assumes "fa_wf fa"
  shows "\<exists>fa'. mark_region_free (start_frame e) (frame_count e) fa = Some fa' \<and> same_shape fa fa'
    \<and> (\<forall>j. used fa' j \<longleftrightarrow> used fa j \<and> \<not> (j \<in> region_frames e \<and> j < total_frames fa))"
  using for_each_clear [OF assms, of "[start_frame e..<start_frame e + frame_count e]"]
    frame_of_u64 [of "entry_base e"] frame_of_u64 [of "entry_length e"]
  by (simp add: mark_region_free_def usize_add_def region_frames_def start_frame_def frame_count_def)

lemma mark_region_used_result:
  assumes "fa_wf fa" "start + n < 2 ^ 64"
  shows "\<exists>fa'. mark_region_used start n fa = Some fa' \<and> same_shape fa fa'
    \<and> (\<forall>j. used fa' j \<longleftrightarrow> used fa j \<or> j \<in> {start..<start + n} \<and> j < total_frames fa)"
  using for_each_set [OF assms(1), of "[start..<start + n]"] assms(2)
  by (simp add: mark_region_used_def usize_add_def)

lemma mark_entry_used_result:
  assumes "fa_wf fa"
  shows "\<exists>fa'. mark_region_used (start_frame e) (frame_count e) fa = Some fa' \<and> same_shape fa fa'
    \<and> (\<forall>j. used fa' j \<longleftrightarrow> used fa j \<or> j \<in> region_frames e \<and> j < total_frames fa)"
  using mark_region_used_result [OF assms, of "start_frame e" "frame_count e"]
    frame_of_u64 [of "entry_base e"] frame_of_u64 [of "entry_length e"]
  by (simp add: region_frames_def start_frame_def frame_count_def)

lemma same_shape_trans: "same_shape a b \<Longrightarrow> same_shape b c \<Longrightarrow> same_shape a c"
  by (simp add: same_shape_def)

lemma free_usable_result:
  assumes "fa_wf fa"
  shows "\<exists>fa'. for_each (\<lambda>e fa. if usable e then mark_region_free (start_frame e) (frame_count e) fa else Some fa)
      es fa = Some fa' \<and> same_shape fa fa'
    \<and> (\<forall>j. used fa' j \<longleftrightarrow> used fa j \<and> \<not> ((\<exists>e\<in>set es. usable e \<and> j \<in> region_frames e) \<and> j < total_frames fa))"
  using assms
proof (induction es arbitrary: fa)
  case (Cons e es)
  show ?case
  proof (cases "usable e")
    case True
    from mark_region_free_result [OF Cons.prems] obtain fa' where fa':
      "mark_region_free (start_frame e) (frame_count e) fa = Some fa'" "same_shape fa fa'"
      "\<And>j. used fa' j \<longleftrightarrow> used fa j \<and> \<not> (j \<in> region_frames e \<and> j < total_frames fa)" by metis
    with Cons.IH [OF fa_wf_same_shape [OF Cons.prems fa'(2)]] True show ?thesis
      by (auto simp: same_shape_def)
  next
    case False
    from Cons.IH [OF Cons.prems] show ?thesis by (rule ex_forward) (use False in auto)
  qed
qed (simp add: same_shape_def)

lemma protect_result:
  assumes "fa_wf fa"
  shows "\<exists>fa'. for_each (\<lambda>e fa. if is_protected e \<and> start_frame e < frames
        then mark_region_used (start_frame e) (frame_count e) fa else Some fa) es fa = Some fa' \<and> same_shape fa fa'
    \<and> (\<forall>j. used fa' j \<longleftrightarrow> used fa j \<or> (\<exists>e\<in>set es. is_protected e \<and> start_frame e < frames \<and> j \<in> region_frames e)
             \<and> j < total_frames fa)"
  using assms
proof (induction es arbitrary: fa)
  case (Cons e es)
  show ?case
  proof (cases "is_protected e \<and> start_frame e < frames")
    case True
    from mark_entry_used_result [OF Cons.prems] obtain fa' where fa':
      "mark_region_used (start_frame e) (frame_count e) fa = Some fa'" "same_shape fa fa'"
      "\<And>j. used fa' j \<longleftrightarrow> used fa j \<or> j \<in> region_frames e \<and> j < total_frames fa" by metis
    with Cons.IH [OF fa_wf_same_shape [OF Cons.prems fa'(2)]] True show ?thesis
      by (auto simp: same_shape_def)
  next
    case False
    from Cons.IH [OF Cons.prems] show ?thesis by (rule ex_forward) (use False in auto)
  qed
qed (simp add: same_shape_def)

text \<open>The frames of the bitmap: from the start of the first usable region that can hold it.\<close>

definition bitmap_region :: "nat \<Rightarrow> MemmapEntry list \<Rightarrow> MemmapEntry option" where
  "bitmap_region frames entries = List.find (\<lambda>e. (frames + 7) div 8 \<le> unat (entry_length e)) (filter usable entries)"

definition bitmap_frames :: "nat \<Rightarrow> MemmapEntry \<Rightarrow> nat set" where
  "bitmap_frames frames e = {start_frame e..<start_frame e + bitmap_frame_count ((frames + 7) div 8)}"

lemma fa_new_used:
  assumes "i div 8 < (frames + 7) div 8" shows "used (fa_new frames) i"
proof -
  have "bit (0xFF :: u8) k" if "k < 8" for k
  proof -
    have "(0xFF :: u8) = mask 8" by (simp add: mask_eq_exp_minus_1)
    then show ?thesis using that by (simp only: bit_mask_iff possible_bit_word) simp
  qed
  with assms show ?thesis by (simp add: used_def fa_new_def Let_def)
qed

lemma fa_new_wf: "frames \<le> 2 ^ 52 \<Longrightarrow> fa_wf (fa_new frames)"
  by (simp add: fa_wf_def fa_new_def Let_def)

lemma fa_init_result:
  assumes init: "fa_init entries = Some fa"
  obtains m region where "max_addr (filter usable entries) = Some m" "total_frames fa = unat (m div PAGE_SIZE)"
    "bitmap_region (total_frames fa) entries = Some region" "fa_wf fa" "padding_used fa"
    "free_frames fa = {i. i < total_frames fa \<and> (\<exists>e\<in>set entries. usable e \<and> i \<in> region_frames e)
       \<and> i \<notin> bitmap_frames (total_frames fa) region
       \<and> \<not> (\<exists>e\<in>set entries. is_protected e \<and> i \<in> region_frames e)}"
proof -
  from init obtain m region where m: "max_addr (filter usable entries) = Some m"
    and region: "bitmap_region (unat (m div PAGE_SIZE)) entries = Some region"
    by (auto simp: fa_init_def bitmap_region_def Let_def split: bind_splits)
  define frames where "frames = unat (m div PAGE_SIZE)"
  have small: "frames < 2 ^ 52" unfolding frames_def by (rule frame_of_u64)
  have wf0: "fa_wf (fa_new frames)" using small by (intro fa_new_wf) simp
  from free_usable_result [OF wf0, of entries] obtain fa1 where
    1: "for_each (\<lambda>e fa. if usable e then mark_region_free (start_frame e) (frame_count e) fa else Some fa)
          entries (fa_new frames) = Some fa1" "same_shape (fa_new frames) fa1"
      "\<And>j. used fa1 j \<longleftrightarrow> used (fa_new frames) j
         \<and> \<not> ((\<exists>e\<in>set entries. usable e \<and> j \<in> region_frames e) \<and> j < total_frames (fa_new frames))" by blast
  have wf1: "fa_wf fa1" by (rule fa_wf_same_shape [OF wf0 1(2)])
  have bound: "start_frame region + bitmap_frame_count ((frames + 7) div 8) < 2 ^ 64"
    using small frame_of_u64 [of "entry_base region"] by (simp add: start_frame_def bitmap_frame_count_def)
  from mark_region_used_result [OF wf1 bound] obtain fa2 where
    2: "mark_region_used (start_frame region) (bitmap_frame_count ((frames + 7) div 8)) fa1 = Some fa2" "same_shape fa1 fa2"
      "\<And>j. used fa2 j \<longleftrightarrow> used fa1 j \<or> j \<in> bitmap_frames frames region \<and> j < total_frames fa1"
    unfolding bitmap_frames_def by blast
  have wf2: "fa_wf fa2" by (rule fa_wf_same_shape [OF wf1 2(2)])
  from protect_result [OF wf2, of frames entries] obtain fa3 where
    3: "for_each (\<lambda>e fa. if is_protected e \<and> start_frame e < frames
          then mark_region_used (start_frame e) (frame_count e) fa else Some fa) entries fa2 = Some fa3" "same_shape fa2 fa3"
      "\<And>j. used fa3 j \<longleftrightarrow> used fa2 j \<or>
         (\<exists>e\<in>set entries. is_protected e \<and> start_frame e < frames \<and> j \<in> region_frames e) \<and> j < total_frames fa2" by blast
  have "fa_init entries = do { s \<leftarrow> fa_stats fa3; Some fa3 }"
    unfolding fa_init_def Let_def m Option.bind.bind_lunit frames_def [symmetric]
      region [folded frames_def, unfolded bitmap_region_def] 1(1) 2(1) 3(1) ..
  with init have "fa = fa3" by (simp split: bind_splits)
  have shape: "total_frames fa1 = frames" "total_frames fa2 = frames" "total_frames fa3 = frames"
    "total_frames (fa_new frames) = frames" "length (bitmap fa3) = (frames + 7) div 8"
    using 1(2) 2(2) 3(2) by (simp_all add: same_shape_def fa_new_def Let_def)
  show thesis
  proof
    show "max_addr (filter usable entries) = Some m" "total_frames fa = unat (m div PAGE_SIZE)"
      "bitmap_region (total_frames fa) entries = Some region" "fa_wf fa"
      using m region shape \<open>fa = fa3\<close> fa_wf_same_shape [OF wf2 3(2)] by (simp_all add: frames_def)
    show "padding_used fa"
      unfolding padding_used_def \<open>fa = fa3\<close> using fa_new_used [of _ frames] shape 1(3) 2(3) 3(3) by simp
    have new: "used (fa_new frames) j" if "j < frames" for j using that by (intro fa_new_used) linarith
    have guard: "start_frame e < frames" if "j \<in> region_frames e" "j < frames" for e j
      using that by (simp add: region_frames_def)
    show "free_frames fa = {i. i < total_frames fa \<and> (\<exists>e\<in>set entries. usable e \<and> i \<in> region_frames e)
       \<and> i \<notin> bitmap_frames (total_frames fa) region \<and> \<not> (\<exists>e\<in>set entries. is_protected e \<and> i \<in> region_frames e)}"
      unfolding \<open>fa = fa3\<close> free_frames_def by (auto simp: shape 1(3) 2(3) 3(3) new dest: guard)
  qed
qed

section \<open>Statistics\<close>

lemma count_ones_card: "count_ones b = card {k. k < 8 \<and> bit b k}"
proof -
  have "{k. k < 8 \<and> bit b k} = set (filter (bit b) [0..<8])" by auto
  then show ?thesis by (simp only: count_ones_def distinct_card [symmetric] distinct_filter distinct_upt)
qed

lemma sum_count_ones:
  "sum_list (map count_ones bs) = card {i. i div 8 < length bs \<and> bit (bs ! (i div 8)) (i mod 8)}"
proof (induction bs)
  case (Cons b bs)
  let ?lo = "{k. k < 8 \<and> bit b k}" and ?hi = "{i. i div 8 < length bs \<and> bit (bs ! (i div 8)) (i mod 8)}"
  have "{i. i div 8 < length (b # bs) \<and> bit ((b # bs) ! (i div 8)) (i mod 8)} = ?lo \<union> (\<lambda>i. i + 8) ` ?hi"
    (is "?all = _")
  proof (intro set_eqI iffI)
    fix i assume "i \<in> ?all"
    then show "i \<in> ?lo \<union> (\<lambda>i. i + 8) ` ?hi"
      by (cases "i < 8") (auto simp: image_iff le_div_geq le_mod_geq not_less intro!: exI [of _ "i - 8"])
  qed (auto simp: div_add_self2)
  moreover have "finite ?hi"
    by (rule finite_subset [of _ "{..<8 * length bs}"]) auto
  ultimately have "card ?all = card ?lo + card ((\<lambda>i. i + 8) ` ?hi)"
    by (simp only:) (rule card_Un_disjoint, auto)
  then show ?case using Cons.IH by (simp add: count_ones_card card_image)
qed simp

text \<open>The padding bits of the last byte are counted as used frames.\<close>

lemma fa_stats_padding:
  assumes wf: "fa_wf fa" and pad: "padding_used fa"
  shows "fa_stats fa =
    (let padding = 8 * length (bitmap fa) - total_frames fa; free = card (free_frames fa)
     in if padding \<le> free then Some (free - padding, total_frames fa) else None)"
proof -
  let ?n = "total_frames fa" and ?all = "8 * length (bitmap fa)"
  have le: "?n \<le> ?all" using wf by (simp add: fa_wf_def)
  have lt: "i div 8 < length (bitmap fa) \<longleftrightarrow> i < ?all" for i by auto
  have "{i. i < ?all \<and> used fa i} = {..<?all} - free_frames fa"
    using pad le by (auto simp: free_frames_def padding_used_def lt)
  moreover have sub: "free_frames fa \<subseteq> {..<?n}" by (auto simp: free_frames_def)
  ultimately have "sum_list (map count_ones (bitmap fa)) = ?all - card (free_frames fa)"
    using le by (simp add: sum_count_ones used_def [symmetric] lt card_Diff_subset finite_subset subset_trans)
  moreover have "card (free_frames fa) \<le> ?n" using card_mono [OF _ sub] by simp
  ultimately show ?thesis using le by (auto simp: fa_stats_def usize_sub_def Let_def)
qed

section \<open>Allocators as sources of exclusive frames\<close>

text \<open>The loop with which shared memory and the two device drivers reserve several pages: it keeps the
  first frame and drops the others, and a failure on the way keeps what was already taken.\<close>

fun alloc_rest :: "('s \<Rightarrow> ('f option \<times> 's) option) \<Rightarrow> nat \<Rightarrow> 's \<Rightarrow> (bool \<times> 's) option" where
  "alloc_rest alloc 0 s = Some (True, s)"
| "alloc_rest alloc (Suc n) s = do {
     (r, s) \<leftarrow> alloc s;
     case r of Some _ \<Rightarrow> alloc_rest alloc n s | None \<Rightarrow> Some (False, s)
   }"

definition alloc_pages :: "('s \<Rightarrow> ('f option \<times> 's) option) \<Rightarrow> nat \<Rightarrow> 's \<Rightarrow> ('f option \<times> 's) option" where
  "alloc_pages alloc pages s = do {
     (r, s) \<leftarrow> alloc s;
     case r of
       None \<Rightarrow> Some (None, s)
     | Some first \<Rightarrow> do {
         (ok, s) \<leftarrow> alloc_rest alloc (pages - 1) s;
         Some (if ok then Some first else None, s)
       }
   }"

locale frame_source =
  fixes alloc :: "'s \<Rightarrow> ('f option \<times> 's) option"
    and free :: "'f \<Rightarrow> 's \<Rightarrow> 's option"
    and avail :: "'s \<Rightarrow> nat set"
    and idx :: "'f \<Rightarrow> nat"
    and bound :: "'s \<Rightarrow> nat"
    and inv :: "'s \<Rightarrow> bool"
  assumes alloc_cases: "inv s \<Longrightarrow> (alloc s = Some (None, s) \<and> avail s = {})
      \<or> (\<exists>f s'. alloc s = Some (Some f, s') \<and> inv s' \<and> bound s' = bound s \<and> idx f \<in> avail s \<and> avail s' = avail s - {idx f})"
    and free_frame: "inv s \<Longrightarrow> idx f < bound s \<Longrightarrow>
      \<exists>s'. free f s = Some s' \<and> inv s' \<and> bound s' = bound s \<and> avail s' = insert (idx f) (avail s)"
    and avail_bound: "inv s \<Longrightarrow> avail s \<subseteq> {..<bound s}"
begin

lemma alloc_rest_cases:
  "inv s \<Longrightarrow> \<exists>ok s' F. alloc_rest alloc n s = Some (ok, s') \<and> inv s' \<and> bound s' = bound s \<and> F \<subseteq> avail s \<and> finite F
     \<and> avail s' = avail s - F \<and> (if ok then card F = n else avail s' = {})"
proof (induction n arbitrary: s)
  case 0
  then show ?case by (intro exI [of _ True] exI [of _ s] exI [of _ "{}"]) simp
next
  case (Suc n)
  from alloc_cases [OF Suc.prems] show ?case
  proof (elim disjE exE conjE)
    assume "alloc s = Some (None, s)" "avail s = {}"
    then show ?case using Suc.prems by (intro exI [of _ False] exI [of _ s] exI [of _ "{}"]) simp
  next
    fix f s1 assume 1: "alloc s = Some (Some f, s1)" "inv s1" "bound s1 = bound s" "idx f \<in> avail s" "avail s1 = avail s - {idx f}"
    from Suc.IH [OF 1(2)] obtain ok s' F where IH: "alloc_rest alloc n s1 = Some (ok, s')" "inv s'" "bound s' = bound s1"
      "F \<subseteq> avail s1" "finite F" "avail s' = avail s1 - F" "if ok then card F = n else avail s' = {}" by blast
    moreover have "card (insert (idx f) F) = Suc (card F)" using IH(4,5) 1(5) by (auto simp: card_insert_if)
    ultimately show ?case
      by (intro exI [of _ ok] exI [of _ s'] exI [of _ "insert (idx f) F"]) (use 1 in auto)
  qed
qed

lemma alloc_pages_cases:
  assumes "inv s"
  obtains (granted) f s' F where "alloc_pages alloc n s = Some (Some f, s')" "inv s'" "idx f \<in> F" "F \<subseteq> avail s"
      "avail s' = avail s - F" "card F = max 1 n" "bound s' = bound s"
  | (exhausted) s' where "alloc_pages alloc n s = Some (None, s')" "inv s'" "avail s' = {}" "bound s' = bound s"
proof -
  from alloc_cases [OF assms] show thesis
  proof (elim disjE exE conjE)
    assume "alloc s = Some (None, s)" "avail s = {}"
    then show thesis using assms by (intro exhausted [of s]) (simp_all add: alloc_pages_def)
  next
    fix f s1 assume 1: "alloc s = Some (Some f, s1)" "inv s1" "bound s1 = bound s" "idx f \<in> avail s" "avail s1 = avail s - {idx f}"
    from alloc_rest_cases [OF 1(2), of "n - 1"] obtain ok s' F where r: "alloc_rest alloc (n - 1) s1 = Some (ok, s')" "inv s'"
      "F \<subseteq> avail s1" "finite F" "avail s' = avail s1 - F" "if ok then card F = n - 1 else avail s' = {}" "bound s' = bound s1" by blast
    have "card (insert (idx f) F) = Suc (card F)" using r(3,4) 1(5) by (auto simp: card_insert_if)
    moreover have "alloc_pages alloc n s = Some (if ok then Some f else None, s')"
      using r(1) 1(1) by (simp add: alloc_pages_def)
    moreover have "insert (idx f) F \<subseteq> avail s" "avail s' = avail s - insert (idx f) F" using r(3,5) 1(4,5) by auto
    ultimately show thesis
      using granted [of f s' "insert (idx f) F"] exhausted [of s'] r(2,6,7) 1(3) by (cases ok) simp_all
  qed
qed

end

interpretation fs: frame_source allocate_frame free_frame free_frames frame_index total_frames fa_wf
proof
  fix fa :: BitmapFrameAllocator and f :: PhysFrame
  assume wf: "fa_wf fa"
  show "(allocate_frame fa = Some (None, fa) \<and> free_frames fa = {})
    \<or> (\<exists>f fa'. allocate_frame fa = Some (Some f, fa') \<and> fa_wf fa' \<and> total_frames fa' = total_frames fa
         \<and> frame_index f \<in> free_frames fa \<and> free_frames fa' = free_frames fa - {frame_index f})"
    by (cases rule: allocate_frame_result [OF wf]) blast+
  show "free_frames fa \<subseteq> {..<total_frames fa}" by (auto simp: free_frames_def)
  assume "frame_index f < total_frames fa"
  from free_frame_result [OF wf this] show "\<exists>fa'. free_frame f fa = Some fa' \<and> fa_wf fa'
    \<and> total_frames fa' = total_frames fa \<and> free_frames fa' = insert (frame_index f) (free_frames fa)" by metis
qed

section \<open>Histories of the allocator\<close>

text \<open>The states the allocator goes through after initialisation, with the frames handed out and
  not yet given back.\<close>

inductive frame_history :: "BitmapFrameAllocator \<Rightarrow> nat set \<Rightarrow> BitmapFrameAllocator \<Rightarrow> bool" for fa0 where
  start: "frame_history fa0 {} fa0"
| alloc: "frame_history fa0 live fa \<Longrightarrow> allocate_frame fa = Some (Some f, fa') \<Longrightarrow>
    frame_history fa0 (insert (frame_index f) live) fa'"
| release: "frame_history fa0 live fa \<Longrightarrow> frame_index f \<in> live \<Longrightarrow> free_frame f fa = Some fa' \<Longrightarrow>
    frame_history fa0 (live - {frame_index f}) fa'"

lemma frame_history_inv:
  assumes "frame_history fa0 live fa" "fa_wf fa0" "padding_used fa0"
  shows "fa_wf fa \<and> padding_used fa \<and> total_frames fa = total_frames fa0
    \<and> live \<inter> free_frames fa = {} \<and> live \<union> free_frames fa = free_frames fa0"
  using assms
proof (induction rule: frame_history.induct)
  case start
  then show ?case by simp
next
  case (alloc live fa f fa')
  then have wf: "fa_wf fa" by simp
  from wf show ?case by (cases rule: allocate_frame_result) (use alloc in auto)
next
  case (release live fa f fa')
  then have wf: "fa_wf fa" and lt: "frame_index f < total_frames fa"
    by (auto simp: free_frames_def)
  from wf lt show ?case by (cases rule: free_frame_result) (use release in auto)
qed

section \<open>Properties\<close>

text \<open>A small machine: ten usable frames, of which the second is the kernel's.\<close>

definition demo_entries :: "MemmapEntry list" where
  "demo_entries = [\<lparr>entry_base = 0, entry_length = 0xA000, entry_type = MEMMAP_USABLE\<rparr>,
     \<lparr>entry_base = 0x1000, entry_length = 0x1000, entry_type = MEMMAP_EXECUTABLE_AND_MODULES\<rparr>]"

definition demo_fa :: BitmapFrameAllocator where
  "demo_fa = \<lparr>bitmap = [0x03, 0xFC], total_frames = 10, next_free = 0\<rparr>"

lemmas frame_eval = fa_init_def fa_new_def mark_region_free_def mark_region_used_def clear_bit_def set_bit_def
  index_def store_def usize_add_def usize_sub_def fa_stats_def count_ones_def usable_def is_protected_def
  start_frame_def frame_count_def bitmap_frame_count_def PAGE_SIZE_def checked_add_def checked_mul_def Let_def
  is_set_def take_frame_def allocate_frame_def free_frame_def frame_index_def upt_rec

lemma demo_init: "fa_init demo_entries = Some demo_fa"
proof -
  have "replicate 2 b = [b, b]" for b :: u8 by (simp add: numeral_2_eq_2)
  then show ?thesis by (simp add: demo_entries_def demo_fa_def frame_eval)
qed

lemma demo_alloc:
  "allocate_frame demo_fa = Some (Some (containing_address 0x2000), \<lparr>bitmap = [0x07, 0xFC], total_frames = 10, next_free = 3\<rparr>)"
  by (simp add: demo_fa_def frame_eval)

text \<open>C6. Frames are exclusive: from initialisation on, a frame that is handed out is not in use, belongs to
  a usable region of the memory map, and is neither part of the bitmap nor of a protected region.\<close>

theorem frame_exclusive:
  assumes "fa_init entries = Some fa0" "frame_history fa0 live fa" "allocate_frame fa = Some (Some f, fa')"
  shows "frame_index f \<notin> live \<and> (\<exists>e\<in>set entries. usable e \<and> frame_index f \<in> region_frames e)
    \<and> (\<exists>r. bitmap_region (total_frames fa) entries = Some r \<and> frame_index f \<notin> bitmap_frames (total_frames fa) r)
    \<and> \<not> (\<exists>e\<in>set entries. is_protected e \<and> frame_index f \<in> region_frames e)"
proof -
  obtain r where init: "fa_wf fa0" "padding_used fa0" "bitmap_region (total_frames fa0) entries = Some r"
    "free_frames fa0 = {i. i < total_frames fa0 \<and> (\<exists>e\<in>set entries. usable e \<and> i \<in> region_frames e)
       \<and> i \<notin> bitmap_frames (total_frames fa0) r \<and> \<not> (\<exists>e\<in>set entries. is_protected e \<and> i \<in> region_frames e)}"
    by (rule fa_init_result [OF assms(1)])
  note inv = frame_history_inv [OF assms(2) init(1,2)]
  then have "fa_wf fa" by simp
  then have "frame_index f \<in> free_frames fa"
    by (cases rule: allocate_frame_result) (use assms(3) in auto)
  with inv init show ?thesis by auto
qed

theorem frame_exclusive_witness:
  "2 \<notin> ({} :: nat set) \<and> (\<exists>e\<in>set demo_entries. usable e \<and> 2 \<in> region_frames e)
    \<and> (\<exists>r. bitmap_region 10 demo_entries = Some r \<and> 2 \<notin> bitmap_frames 10 r)
    \<and> \<not> (\<exists>e\<in>set demo_entries. is_protected e \<and> 2 \<in> region_frames e)"
  using frame_exclusive [OF demo_init frame_history.start demo_alloc]
  by (simp add: frame_index_def PAGE_SIZE_def demo_fa_def)



text \<open>The statistics count the unused bits of the bitmap's last byte as allocated frames: the number
  of free frames is too small by their number, and the computation panics when fewer frames are free.\<close>

theorem stats_count_padding:
  assumes "fa_init entries = Some fa0" "frame_history fa0 live fa"
  shows "fa_stats fa =
    (let padding = 8 * length (bitmap fa) - total_frames fa; free = card (free_frames fa)
     in if padding \<le> free then Some (free - padding, total_frames fa) else None)"
proof -
  have "fa_wf fa0" "padding_used fa0" using fa_init_result [OF assms(1)] by metis+
  from frame_history_inv [OF assms(2) this] show ?thesis by (intro fa_stats_padding) auto
qed

theorem stats_count_padding_witness:
  "fa_stats demo_fa = Some (2, 10) \<and> fa_stats demo_fa =
    (let padding = 8 * length (bitmap demo_fa) - total_frames demo_fa; free = card (free_frames demo_fa)
     in if padding \<le> free then Some (free - padding, total_frames demo_fa) else None)"
  using stats_count_padding [OF demo_init frame_history.start] by (simp add: demo_fa_def frame_eval)

end
