(* ===== verification/Virtio_Blk_Init.thy ===== *)
theory Virtio_Blk_Init
  imports Virtio_Blk_Theorems Frame_Allocator
begin

text \<open>
  \<^verbatim>\<open>storage/virtio_blk.rs\<close>, initialisation: the search on the PCI bus, the handshake, and the virtqueue with its memory from the
  frame allocator.
\<close>

definition VIRTIO_PCI_VENDOR :: u16 where "VIRTIO_PCI_VENDOR = 0x1AF4"
definition VIRTIO_BLK_DEVICE_LEGACY :: u16 where "VIRTIO_BLK_DEVICE_LEGACY = 0x1001"
definition VIRTIO_DEVICE_FEATURES :: u16 where "VIRTIO_DEVICE_FEATURES = 0x00"
definition VIRTIO_GUEST_FEATURES :: u16 where "VIRTIO_GUEST_FEATURES = 0x04"
definition VIRTIO_QUEUE_ADDR :: u16 where "VIRTIO_QUEUE_ADDR = 0x08"
definition VIRTIO_QUEUE_SIZE :: u16 where "VIRTIO_QUEUE_SIZE = 0x0C"
definition VIRTIO_QUEUE_SELECT :: u16 where "VIRTIO_QUEUE_SELECT = 0x0E"
definition VIRTIO_DEVICE_STATUS :: u16 where "VIRTIO_DEVICE_STATUS = 0x12"
definition VIRTIO_BLK_CAPACITY :: u16 where "VIRTIO_BLK_CAPACITY = 0x14"
definition VIRTIO_STATUS_RESET :: u8 where "VIRTIO_STATUS_RESET = 0"
definition VIRTIO_STATUS_ACKNOWLEDGE :: u8 where "VIRTIO_STATUS_ACKNOWLEDGE = 1"
definition VIRTIO_STATUS_DRIVER :: u8 where "VIRTIO_STATUS_DRIVER = 2"
definition VIRTIO_STATUS_DRIVER_OK :: u8 where "VIRTIO_STATUS_DRIVER_OK = 4"

section \<open>The queue\<close>

definition desc_size :: nat where "desc_size = 16 * QUEUE_SIZE"
definition avail_size :: nat where "avail_size = 6 + 2 * QUEUE_SIZE"
definition used_size :: nat where "used_size = 6 + 8 * QUEUE_SIZE"
definition num_pages :: nat where "num_pages = (desc_size + avail_size + used_size + 4096 + 4095) div 4096"
definition used_offset :: nat where "used_offset = ((desc_size + avail_size + 4095) div 4096) * 4096"

text \<open>\<open>write_bytes\<close> over the pages of the queue: the bytes, and with them the three parts of the queue, become zero.\<close>

definition zero_queue :: "u64 \<Rightarrow> u64 \<Rightarrow> 'h shared \<Rightarrow> 'h shared" where
  "zero_queue hhdm virt_base m =
     (write_virt hhdm virt_base (replicate (num_pages * 4096) 0) m)
       \<lparr>vq_descs := replicate QUEUE_SIZE \<lparr>vd_addr = 0, vd_len = 0, vd_flags = 0, vd_next = 0\<rparr>,
        vq_avail := \<lparr>avail_flags = 0, avail_idx = 0, avail_ring = replicate QUEUE_SIZE 0\<rparr>,
        vq_used := \<lparr>used_flags = 0, used_idx = 0, used_ring = replicate QUEUE_SIZE \<lparr>used_elem_id = 0, used_elem_len = 0\<rparr>\<rparr>\<rparr>"

definition setup_virtqueue :: "'h shared ports \<Rightarrow> u16 \<Rightarrow> u16 \<Rightarrow> u64 \<Rightarrow> BitmapFrameAllocator option \<times> 'h shared
    \<Rightarrow> ((Virtqueue \<times> u64 \<times> u64) option \<times> BitmapFrameAllocator option \<times> 'h shared) option" where
  "setup_virtqueue io base queue_idx hhdm = (\<lambda>(fa, m). do {
     port \<leftarrow> checked_add base VIRTIO_QUEUE_SELECT;
     let m = out16 io port queue_idx m;
     port \<leftarrow> checked_add base VIRTIO_QUEUE_SIZE;
     let (queue_size, m) = in16 io port m;
     if queue_size = 0 then Some (None, fa, m)
     else
       (case fa of
          None \<Rightarrow> Some (None, None, m)
        | Some a \<Rightarrow> do {
            (r, a) \<leftarrow> alloc_pages allocate_frame num_pages a;
            case r of
              None \<Rightarrow> Some (None, Some a, m)
            | Some f \<Rightarrow> do {
                let phys_base = start_address f;
                virt_base \<leftarrow> checked_add phys_base hhdm;
                let m = zero_queue hhdm virt_base m;
                avail_at \<leftarrow> checked_add virt_base (of_nat desc_size);
                used_at \<leftarrow> checked_add virt_base (of_nat used_offset);
                port \<leftarrow> checked_add base VIRTIO_QUEUE_ADDR;
                let m = out32 io port (ucast (phys_base div 4096)) m;
                (r, a) \<leftarrow> allocate_frame a;
                case r of
                  None \<Rightarrow> Some (None, Some a, m)
                | Some g \<Rightarrow> do {
                    let dma_phys = start_address g;
                    dma_virt \<leftarrow> checked_add dma_phys hhdm;
                    let m = write_virt hhdm dma_virt (replicate 4096 0) m;
                    Some (Some (\<lparr>next_desc = 0, last_used_idx = 0\<rparr>, dma_phys, dma_virt), Some a, m)
                  }
              }
          })
   })"

section \<open>The handshake\<close>

text \<open>The block device, or any virtio device of the mass storage class.\<close>

definition find_blk :: "'h ports \<Rightarrow> 'h \<Rightarrow> PciDevice option \<times> 'h" where
  "find_blk io h =
     (let (r, h) = find_device io VIRTIO_PCI_VENDOR VIRTIO_BLK_DEVICE_LEGACY h
      in case r of
           Some dev \<Rightarrow> (Some dev, h)
         | None \<Rightarrow> let (ds, h) = find_by_vendor io VIRTIO_PCI_VENDOR h in (List.find (\<lambda>d. class_code d = 0x01) ds, h))"

text \<open>\<open>status | bit\<close> on the status register.\<close>

definition add_status :: "'h ports \<Rightarrow> u16 \<Rightarrow> u8 \<Rightarrow> 'h \<Rightarrow> 'h option" where
  "add_status io base b h = do {
     port \<leftarrow> checked_add base VIRTIO_DEVICE_STATUS;
     let (status, h) = in8 io port h;
     Some (out8 io port (status OR b) h)
   }"

definition vb_init :: "'h shared ports \<Rightarrow> u64 \<Rightarrow> (VirtioBlkDevice \<times> bool) \<times> BitmapFrameAllocator option \<times> 'h shared
    \<Rightarrow> ((VirtioBlkDevice \<times> bool) \<times> BitmapFrameAllocator option \<times> 'h shared) option" where
  "vb_init io hhdm = (\<lambda>(device, fa, m).
     let (r, m) = find_blk io m in
     case r of
       None \<Rightarrow> Some (device, fa, m)
     | Some pci_dev \<Rightarrow>
         (let bar0 = bars pci_dev ! 0 in
          if bar0 AND 1 = 0 then Some (device, fa, m)
          else do {
            let base = ucast (bar0 AND 0xFFFC);
            let m = enable_bus_master io pci_dev m;
            port \<leftarrow> checked_add base VIRTIO_DEVICE_STATUS;
            let m = out8 io port VIRTIO_STATUS_RESET m;
            let m = out8 io port VIRTIO_STATUS_ACKNOWLEDGE m;
            m \<leftarrow> add_status io base VIRTIO_STATUS_DRIVER m;
            port \<leftarrow> checked_add base VIRTIO_DEVICE_FEATURES;
            let (device_features, m) = in32 io port m;
            port \<leftarrow> checked_add base VIRTIO_GUEST_FEATURES;
            let m = out32 io port 0 m;
            port \<leftarrow> checked_add base VIRTIO_BLK_CAPACITY;
            let (cap_lo, m) = in32 io port m;
            port \<leftarrow> checked_add port 4;
            let (cap_hi, m) = in32 io port m;
            let capacity = (ucast cap_lo OR push_bit 32 (ucast cap_hi) :: u64);
            mib \<leftarrow> checked_mul capacity 512;
            (r, fa, m) \<leftarrow> setup_virtqueue io base REQUEST_QUEUE hhdm (fa, m);
            case r of
              None \<Rightarrow> Some (device, fa, m)
            | Some (q, phys, virt) \<Rightarrow> do {
                m \<leftarrow> add_status io base VIRTIO_STATUS_DRIVER_OK m;
                Some ((\<lparr>io_base = base, capacity_blocks = capacity, vb_queue = Some q, dma_phys = phys, dma_virt = virt, vb_initialized = True\<rparr>, True), fa, m)
              }
          }))"

section \<open>What initialisation establishes\<close>

lemmas blk_consts = VIRTIO_DEVICE_FEATURES_def VIRTIO_GUEST_FEATURES_def VIRTIO_QUEUE_ADDR_def VIRTIO_QUEUE_SIZE_def VIRTIO_QUEUE_SELECT_def
  VIRTIO_DEVICE_STATUS_def VIRTIO_BLK_CAPACITY_def

definition queue_memory :: "'h shared \<Rightarrow> VirtqDesc list \<times> VirtqAvail \<times> VirtqUsed" where
  "queue_memory m = (vq_descs m, vq_avail m, vq_used m)"

text \<open>Only the notification makes the device use the queue.\<close>

definition quiet :: "'h shared ports \<Rightarrow> bool" where
  "quiet io \<longleftrightarrow> (\<forall>p m. queue_memory (snd (in8 io p m)) = queue_memory m) \<and> (\<forall>p v m. queue_memory (out8 io p v m) = queue_memory m)
     \<and> (\<forall>p v m. queue_memory (out32 io p v m) = queue_memory m)"

lemma frame_aligned:
  assumes "allocate_frame fa = Some (Some f, fa')" shows "4096 dvd unat (start_address f)"
proof -
  have take: "4096 dvd unat (start_address f)" if t: "take_frame i fa = Some (Some f, fa')" for i
  proof -
    from t obtain a where "checked_mul (of_nat i) PAGE_SIZE = Some a" "start_address f = a" by (auto simp: take_frame_def split: bind_splits)
    then show ?thesis using checked_mul_unat [of "of_nat i" PAGE_SIZE a] by (simp add: PAGE_SIZE_def)
  qed
  from assms show ?thesis by (auto simp: allocate_frame_def split: bind_splits option.splits intro: take)
qed

lemma setup_virtqueue_ok:
  assumes "setup_virtqueue io base qi hhdm (fa, m) = Some (Some (q, phys, virt), fa', m')" "quiet io" "4096 dvd unat hhdm"
  shows "q = \<lparr>next_desc = 0, last_used_idx = 0\<rparr>" "virt = phys + hhdm" "unat phys + 528 < 2 ^ 64" "unat virt + 528 < 2 ^ 64"
    "queue_memory m' = queue_memory (zero_queue 0 0 m)"
proof -
  have z: "queue_memory (write_virt hhdm v bs (out32 io p w (zero_queue hhdm x m1))) = queue_memory (zero_queue 0 0 m)" for v bs p w x m1
    using assms(2) by (simp add: quiet_def queue_memory_def write_virt_def zero_queue_def)
  from assms(1) obtain a1 g a2 where f: "allocate_frame a1 = Some (Some g, a2)" "checked_add (start_address g) hhdm = Some virt" "phys = start_address g"
    "q = \<lparr>next_desc = 0, last_used_idx = 0\<rparr>" "queue_memory m' = queue_memory (zero_queue 0 0 m)"
    unfolding setup_virtqueue_def by (auto simp: Let_def z split: bind_splits prod.splits if_splits option.splits)
  show "q = \<lparr>next_desc = 0, last_used_idx = 0\<rparr>" "virt = phys + hhdm" using f by (auto simp: checked_add_Some_iff)
  have u: "unat virt = unat phys + unat hhdm" using f(2,3) by (auto dest: checked_add_unat)
  have d: "4096 dvd unat phys" "4096 dvd unat virt" using frame_aligned [OF f(1)] assms(3) f(3) u by simp_all
  have page: "n + 528 < 2 ^ 64" if "4096 dvd n" "n < 2 ^ 64" for n :: nat
    using that by (auto elim!: dvdE)
  have "unat phys < 2 ^ LENGTH(64)" "unat virt < 2 ^ LENGTH(64)" by (rule unsigned_less)+
  then show "unat phys + 528 < 2 ^ 64" "unat virt + 528 < 2 ^ 64" using d page by simp_all
  show "queue_memory m' = queue_memory (zero_queue 0 0 m)"
    by (rule f(5))
qed

lemma add_status_quiet: "add_status io base b m = Some m' \<Longrightarrow> quiet io \<Longrightarrow> queue_memory m' = queue_memory m"
  by (auto simp: add_status_def quiet_def Let_def split: bind_splits prod.splits) (metis snd_conv)

lemma vb_init_online:
  assumes "vb_init io hhdm ((dev, False), fa, m) = Some ((d, True), fa', m')"
  obtains base fa1 m1 q phys virt m2 where "setup_virtqueue io base 0 hhdm (fa1, m1) = Some (Some (q, phys, virt), fa', m2)"
    "add_status io base VIRTIO_STATUS_DRIVER_OK m2 = Some m'" "unat base + 0x18 < 2 ^ 16"
    "d = \<lparr>io_base = base, capacity_blocks = capacity_blocks d, vb_queue = Some q, dma_phys = phys, dma_virt = virt, vb_initialized = True\<rparr>"
proof -
  have room: "unat base + 0x18 < 2 ^ 16" if "checked_add base VIRTIO_BLK_CAPACITY = Some p" "checked_add p 4 = Some p'" for base p p' :: u16
    using that by (auto simp: checked_add_Some_iff VIRTIO_BLK_CAPACITY_def unat_word_ariths)
  from assms show thesis
    unfolding vb_init_def
    by (auto simp: Let_def REQUEST_QUEUE_def split: bind_splits prod.splits if_splits option.splits intro!: that dest: room)
qed

text \<open>The layout of a legacy queue follows from the number of entries the device reports.  The driver always lays out 128 entries; with
  a device of 256 the used ring is elsewhere.\<close>

definition legacy_used_offset :: "nat \<Rightarrow> nat" where
  "legacy_used_offset n = ((16 * n + (6 + 2 * n) + 4095) div 4096) * 4096"

lemma queue_layout: "used_offset = legacy_used_offset 128" "used_offset \<noteq> legacy_used_offset 256" "num_pages = 2"
  by (simp_all add: used_offset_def legacy_used_offset_def desc_size_def avail_size_def used_size_def num_pages_def QUEUE_SIZE_def)

text \<open>The frames of the queue are allocated one by one and used as if they were adjacent: here the second page of the queue is a frame
  that is in use elsewhere.\<close>

lemma queue_gap:
  "\<exists>a. alloc_pages allocate_frame num_pages \<lparr>bitmap = [2], total_frames = 8, next_free = 0\<rparr> = Some (Some (containing_address 0), a)
     \<and> 1 \<notin> free_frames \<lparr>bitmap = [2], total_frames = 8, next_free = 0\<rparr>"
  by (simp add: queue_layout(3) alloc_pages_def frame_eval free_frames_def used_def)

text \<open>When initialisation reports the disk online, the driver is in its invariant: empty rings of 128 entries, indices in step with
  the device, a request buffer inside one page of physical memory that is mapped at the direct map, and ports that do not overflow.\<close>

lemma blk_init_inv:
  assumes "vb_init io hhdm ((dev, False), fa, m) = Some ((d, True), fa', m')" "quiet io" "4096 dvd unat hhdm"
  shows "blk_inv hhdm (capacity_blocks d) (d, m')"
proof -
  obtain base fa1 m1 q phys virt m2 where i: "setup_virtqueue io base 0 hhdm (fa1, m1) = Some (Some (q, phys, virt), fa', m2)"
    "add_status io base VIRTIO_STATUS_DRIVER_OK m2 = Some m'" "unat base + 0x18 < 2 ^ 16"
    "d = \<lparr>io_base = base, capacity_blocks = capacity_blocks d, vb_queue = Some q, dma_phys = phys, dma_virt = virt, vb_initialized = True\<rparr>"
    by (rule vb_init_online [OF assms(1)])
  note s = setup_virtqueue_ok [OF i(1) assms(2,3)]
  have "queue_memory m' = queue_memory (zero_queue 0 0 m1)" using add_status_quiet [OF i(2) assms(2)] s(5) by simp
  then have "vq_descs m' = vq_descs (zero_queue 0 0 m1)" "vq_avail m' = vq_avail (zero_queue 0 0 m1)" "vq_used m' = vq_used (zero_queue 0 0 m1)"
    by (simp_all add: queue_memory_def)
  then show ?thesis using s(1-4) i(3) by (subst i(4)) (simp add: blk_inv_def zero_queue_def QUEUE_SIZE_def)
qed

section \<open>Initialisation on the demonstration machine\<close>

lemma ref_machine: "machine ref_ports (\<lambda>m'. snd (hw m') = snd (hw m)) (\<lambda>_. demo_space) demo_space m"
  by (simp add: machine_def config_mechanism_def ref_ports_def ref_in32_def Let_def)

lemma demo_present: "present demo_space bus dev func \<longleftrightarrow> bus = 0 \<and> dev = 3 \<and> func = 0"
  by (simp add: present_def vendor_at_def demo_space_def)

lemma find_unique:
  assumes "x \<in> set xs" "P x" "\<And>y. y \<in> set xs \<Longrightarrow> y = x" shows "List.find P xs = Some x"
proof (cases xs)
  case (Cons y ys)
  then have "y = x" by (intro assms(3)) simp
  with Cons assms(2) show ?thesis by simp
qed (use assms(1) in simp)

lemma demo_find: "List.find (\<lambda>d. vendor_id d = 0x1AF4 \<and> device_id d = 0x1001) (bus_devices demo_space) = Some (device_at demo_space 0 3 0)"
proof (rule find_unique)
  have "(3 :: u8) < 32" "(0 :: u8) < 8" by simp_all
  then show "device_at demo_space 0 3 0 \<in> set (bus_devices demo_space)" unfolding bus_devices_mem using demo_present by blast
  show "y = device_at demo_space 0 3 0" if "y \<in> set (bus_devices demo_space)" for y
    using that unfolding bus_devices_mem demo_present by blast
qed (simp add: device_at_def vendor_at_def demo_space_def)

lemma demo_queue_pages:
  "alloc_pages allocate_frame num_pages demo_fa = Some (Some (containing_address 0x2000), \<lparr>bitmap = [0x0F, 0xFC], total_frames = 10, next_free = 4\<rparr>)"
  "allocate_frame \<lparr>bitmap = [0x0F, 0xFC], total_frames = 10, next_free = 4\<rparr>
     = Some (Some (containing_address 0x4000), \<lparr>bitmap = [0x1F, 0xFC], total_frames = 10, next_free = 5\<rparr>)"
  by (simp_all add: queue_layout(3) alloc_pages_def demo_fa_def frame_eval)

lemma demo_blk_init:
  obtains d fa' m' where "vb_init ref_ports demo_hhdm ((vb_empty, False), Some demo_fa, m) = Some ((d, True), fa', m')" "capacity_blocks d = 100"
    "io_base d = 0xC000" "snd (hw m') = snd (hw m)"
proof -
  obtain m1 where f: "find_device ref_ports 0x1AF4 0x1001 m = (Some (device_at demo_space 0 3 0), m1)" "snd (hw m1) = snd (hw m)"
    using find_device_ok [OF ref_machine, of "0x1AF4" "0x1001" m] unfolding demo_find by (auto simp: machine_def)
  define m2 where "m2 = enable_bus_master ref_ports (device_at demo_space 0 3 0) m1"
  have m2: "snd (hw m2) = snd (hw m)"
    using f(2) by (simp add: m2_def enable_bus_master_def pci_config_read_def pci_config_write_def ref_ports_def PCI_CONFIG_ADDR_def PCI_CONFIG_DATA_def)
  have b: "bars (device_at demo_space 0 3 0) ! 0 = 0xC001" by (simp add: device_at_def demo_space_def upt_conv_Cons)
  have p: "in8 ref_ports p m = (3, m)" "in16 ref_ports p m = (128, m)" "in32 ref_ports 0xC014 m = (100, m)" "in32 ref_ports 0xC018 m = (0, m)"
    "in32 ref_ports 0xC000 m = (0, m)" "out8 ref_ports p v m = m" "out32 ref_ports 0xC004 w m = m" "out32 ref_ports 0xC008 w m = m"
    "out16 ref_ports 0xC00E x m = m" for p v w x m by (simp_all add: ref_ports_def ref_in32_def)
  have i: "vb_init ref_ports demo_hhdm ((vb_empty, False), Some demo_fa, m) =
     Some ((\<lparr>io_base = 0xC000, capacity_blocks = 100, vb_queue = Some \<lparr>next_desc = 0, last_used_idx = 0\<rparr>, dma_phys = 0x4000,
        dma_virt = 0xFFFF800000004000, vb_initialized = True\<rparr>, True), Some \<lparr>bitmap = [0x1F, 0xFC], total_frames = 10, next_free = 5\<rparr>,
        write_virt demo_hhdm 0xFFFF800000004000 (replicate 4096 0) (zero_queue demo_hhdm 0xFFFF800000002000 m2))"
    by (simp add: vb_init_def find_blk_def VIRTIO_PCI_VENDOR_def VIRTIO_BLK_DEVICE_LEGACY_def f(1) b m2_def [symmetric] blk_consts checked_add_def
        checked_mul_def p add_status_def setup_virtqueue_def demo_queue_pages queue_layout(1) legacy_used_offset_def desc_size_def QUEUE_SIZE_def Let_def)
  show thesis by (rule that [OF i]) (simp_all add: m2 write_virt_def zero_queue_def)
qed

end
