(* ===== verification/Oxide_Fs.thy ===== *)
theory Oxide_Fs
  imports Btree_Map "HOL-Library.List_Lexorder" "HOL-Library.Char_ord" "HOL-Library.Sublist"
begin

text \<open>
  \<^verbatim>\<open>storage/oxide_fs.rs\<close>, in memory: the content-addressed file system with its index, its blobs and the
  table of content hashes.  The layout on disk is in a theory of its own.
\<close>

record FileEntry =
  path :: string
  blob_id :: u64
  file_size :: u64
  created_tick :: u64
  modified_tick :: u64
  deleted :: bool

record OxideFs =
  fs_index :: "(string, FileEntry) btree"
  blobs :: "(u64, u8 list) btree"
  content_hashes :: "(u64, u64) btree"
  next_blob_id :: u64
  total_bytes :: u64

definition fs_new :: OxideFs where
  "fs_new = \<lparr>fs_index = [], blobs = [], content_hashes = [], next_blob_id = 1, total_bytes = 0\<rparr>"

text \<open>FNV-1a with wrapping multiplication.\<close>

definition content_hash :: "u8 list \<Rightarrow> u64" where
  "content_hash data = fold (\<lambda>byte hash. (hash XOR ucast byte) * 0x100000001b3) data 0xcbf29ce484222325"

definition new_entry :: "u64 \<Rightarrow> string \<Rightarrow> u64 \<Rightarrow> u8 list \<Rightarrow> FileEntry" where
  "new_entry tick p b data = \<lparr>path = p, blob_id = b, file_size = of_nat (length data),
     created_tick = tick, modified_tick = tick, deleted = False\<rparr>"

text \<open>The blob that already holds the data, when the hash table leads to one.\<close>

definition dedup_hit :: "OxideFs \<Rightarrow> u8 list \<Rightarrow> u64 option" where
  "dedup_hit fs data =
     (case bt_get (content_hashes fs) (content_hash data) of
        None \<Rightarrow> None
      | Some b \<Rightarrow> if bt_get (blobs fs) b = Some data then Some b else None)"

definition write_file :: "u64 \<Rightarrow> string \<Rightarrow> u8 list \<Rightarrow> OxideFs \<Rightarrow> (u64 \<times> OxideFs) option" where
  "write_file tick p data fs =
     (case dedup_hit fs data of
        Some b \<Rightarrow> Some (b, fs\<lparr>fs_index := bt_insert p (new_entry tick p b data) (fs_index fs)\<rparr>)
      | None \<Rightarrow> do {
          let b = next_blob_id fs;
          n \<leftarrow> checked_add (next_blob_id fs) 1;
          bytes \<leftarrow> checked_add (total_bytes fs) (of_nat (length data));
          Some (b, \<lparr>fs_index = bt_insert p (new_entry tick p b data) (fs_index fs),
                    blobs = bt_insert b data (blobs fs),
                    content_hashes = bt_insert (content_hash data) b (content_hashes fs),
                    next_blob_id = n, total_bytes = bytes\<rparr>)
        })"

definition read_file :: "OxideFs \<Rightarrow> string \<Rightarrow> u8 list option" where
  "read_file fs p = do {
     e \<leftarrow> bt_get (fs_index fs) p;
     if deleted e then None else bt_get (blobs fs) (blob_id e)
   }"

definition delete_file :: "string \<Rightarrow> OxideFs \<Rightarrow> bool \<times> OxideFs" where
  "delete_file p fs =
     (case bt_get (fs_index fs) p of
        Some _ \<Rightarrow> (True, fs\<lparr>fs_index := bt_modify p (\<lambda>e. e\<lparr>deleted := True\<rparr>) (fs_index fs)\<rparr>)
      | None \<Rightarrow> (False, fs))"

definition fs_list :: "OxideFs \<Rightarrow> string \<Rightarrow> FileEntry list" where
  "fs_list fs pre = map snd (filter (\<lambda>(p, e). prefix pre p \<and> \<not> deleted e) (fs_index fs))"

definition fs_stats :: "OxideFs \<Rightarrow> nat \<times> nat \<times> u64" where
  "fs_stats fs = (length (filter (\<lambda>e. \<not> deleted e) (map snd (fs_index fs))), length (blobs fs), total_bytes fs)"

section \<open>Invariant\<close>

definition index_ok :: "OxideFs \<Rightarrow> bool" where
  "index_ok fs \<longleftrightarrow> bt_wf (fs_index fs) \<and> (\<forall>p e. bt_get (fs_index fs) p = Some e \<longrightarrow>
     path e = p \<and> (\<exists>d. bt_get (blobs fs) (blob_id e) = Some d \<and> file_size e = of_nat (length d)))"

definition blobs_ok :: "OxideFs \<Rightarrow> bool" where
  "blobs_ok fs \<longleftrightarrow> bt_wf (blobs fs) \<and> (\<forall>b d. bt_get (blobs fs) b = Some d \<longrightarrow> b < next_blob_id fs)
     \<and> unat (total_bytes fs) = sum_list (map (length \<circ> snd) (blobs fs))"

definition hashes_ok :: "OxideFs \<Rightarrow> bool" where
  "hashes_ok fs \<longleftrightarrow> (\<forall>h b. bt_get (content_hashes fs) h = Some b \<longrightarrow>
     (\<exists>d. bt_get (blobs fs) b = Some d \<and> content_hash d = h))"

definition fs_wf :: "OxideFs \<Rightarrow> bool" where
  [wf_defs]: "fs_wf fs \<longleftrightarrow> index_ok fs \<and> blobs_ok fs \<and> hashes_ok fs"

lemma dedup_hit_Some: "dedup_hit fs d = Some b \<Longrightarrow> bt_get (blobs fs) b = Some d"
  by (auto simp: dedup_hit_def split: option.splits if_splits)

lemma fs_wf_new: "fs_wf fs_new"
  by (simp add: fs_wf_def index_ok_def blobs_ok_def hashes_ok_def fs_new_def)

text \<open>The two ways a write can go, a share of an existing blob or a fresh blob.\<close>

lemma write_file_cases:
  assumes "write_file tick p d fs = Some (b, fs')"
  obtains (shared) "dedup_hit fs d = Some b" "fs' = fs\<lparr>fs_index := bt_insert p (new_entry tick p b d) (fs_index fs)\<rparr>"
  | (fresh) "dedup_hit fs d = None" "b = next_blob_id fs" "next_blob_id fs \<noteq> - 1"
      "unat (total_bytes fs') = unat (total_bytes fs) + unat (of_nat (length d) :: u64)"
      "fs_index fs' = bt_insert p (new_entry tick p b d) (fs_index fs)" "blobs fs' = bt_insert b d (blobs fs)"
      "content_hashes fs' = bt_insert (content_hash d) b (content_hashes fs)" "next_blob_id fs' = b + 1"
proof (cases "dedup_hit fs d")
  case None
  with assms show thesis
    by (intro fresh) (auto simp: write_file_def Let_def checked_add_1_Some_iff dest!: checked_add_unat split: bind_splits)
next
  case (Some c)
  with assms show thesis by (intro shared) (auto simp: write_file_def)
qed

lemma next_blob_fresh: "blobs_ok fs \<Longrightarrow> bt_get (blobs fs) (next_blob_id fs) = None"
  by (cases "bt_get (blobs fs) (next_blob_id fs)") (auto simp: blobs_ok_def)

lemma sum_insert_fresh:
  "bt_get m k = None \<Longrightarrow> sum_list (map (f \<circ> snd) (bt_insert k v m)) = f v + (sum_list (map (f \<circ> snd) m) :: nat)"
  by (induction m) (auto simp: bt_get_def split: if_splits)

lemma write_file_wf:
  assumes wf: "fs_wf fs" and w: "write_file tick p d fs = Some (b, fs')" and len: "length d < 2 ^ 64"
  shows "fs_wf fs'"
  using w
proof (cases rule: write_file_cases)
  case shared
  have "bt_get (blobs fs) b = Some d" by (rule dedup_hit_Some [OF shared(1)])
  with wf shared(2) show ?thesis
    by (auto simp: fs_wf_def index_ok_def blobs_ok_def hashes_ok_def new_entry_def)
next
  case fresh
  have new: "bt_get (blobs fs) b = None" using wf fresh(2) next_blob_fresh by (auto simp: fs_wf_def)
  have old: "blob_id e \<noteq> b" if "bt_get (fs_index fs) q = Some e" for q e
    using wf new that by (force simp: fs_wf_def index_ok_def)
  have "index_ok fs'"
    using wf old unfolding fs_wf_def index_ok_def
    by (auto simp: fresh(5-8) new_entry_def)
  moreover have "blobs_ok fs'"
    using wf new fresh(2,3,4) len sum_insert_fresh [OF new, of length d] less_plus_1 [of _ b] self_less_plus_1 [of b]
    unfolding fs_wf_def blobs_ok_def
    by (auto simp: fresh(5-8) unat_of_nat_small)
  moreover have "c \<noteq> b" if "bt_get (content_hashes fs) h = Some c" for h c
    using wf new that by (force simp: fs_wf_def hashes_ok_def)
  then have "hashes_ok fs'"
    using wf unfolding fs_wf_def hashes_ok_def by (auto simp: fresh(5-8))
  ultimately show ?thesis by (simp add: fs_wf_def)
qed

lemma delete_file_wf: "fs_wf fs \<Longrightarrow> fs_wf (snd (delete_file p fs))"
  by (auto simp: delete_file_def fs_wf_def index_ok_def blobs_ok_def hashes_ok_def split: option.splits)

section \<open>The file system as a keyed store\<close>

lemma read_after_write:
  assumes wf: "fs_wf fs" and w: "write_file tick p d fs = Some (b, fs')"
  shows "read_file fs' = (read_file fs)(p \<mapsto> d)"
  using w
proof (cases rule: write_file_cases)
  case shared
  then have "read_file fs' q = ((read_file fs)(p \<mapsto> d)) q" for q
    using dedup_hit_Some [OF shared(1)] by (cases "bt_get (fs_index fs) q") (auto simp: read_file_def new_entry_def)
  then show ?thesis by blast
next
  case fresh
  have "bt_get (blobs fs) b = None" using wf fresh(2) next_blob_fresh by (auto simp: fs_wf_def)
  then have old: "blob_id e \<noteq> b" if "bt_get (fs_index fs) q = Some e" for q e
    using wf that by (force simp: fs_wf_def index_ok_def)
  have "read_file fs' q = ((read_file fs)(p \<mapsto> d)) q" for q
    using old [of q] by (cases "bt_get (fs_index fs) q") (auto simp: fresh(5-8) read_file_def new_entry_def)
  then show ?thesis by blast
qed

lemma read_after_delete: "read_file (snd (delete_file p fs)) = (read_file fs)(p := None)"
proof -
  have "read_file (snd (delete_file p fs)) q = ((read_file fs)(p := None)) q" for q
    by (cases "bt_get (fs_index fs) q"; cases "bt_get (fs_index fs) p") (auto simp: read_file_def delete_file_def)
  then show ?thesis by blast
qed

text \<open>Writes of at most 64 bits of length, which is all a machine can hold.\<close>

definition fs_put :: "u64 \<Rightarrow> string \<Rightarrow> u8 list \<Rightarrow> OxideFs \<Rightarrow> OxideFs option" where
  "fs_put tick p d fs = (if length d < 2 ^ 64 then map_option snd (write_file tick p d fs) else None)"

interpretation fsk: kv_store read_file "fs_put tick" "\<lambda>p fs. snd (delete_file p fs)" fs_wf
  by unfold_locales
    (auto simp: fs_put_def read_after_write read_after_delete delete_file_wf write_file_wf split: if_splits)

lemma fs_list_read:
  assumes "fs_wf fs" "e \<in> set (fs_list fs pre)"
  shows "prefix pre (path e) \<and> \<not> deleted e \<and> (\<exists>d. read_file fs (path e) = Some d \<and> file_size e = of_nat (length d))"
proof -
  from assms(2) obtain p where p: "(p, e) \<in> set (fs_index fs)" "prefix pre p" "\<not> deleted e" by (auto simp: fs_list_def)
  then have "bt_get (fs_index fs) p = Some e" using assms(1) by (simp add: fs_wf_def index_ok_def bt_wf_mem_get)
  with p assms(1) show ?thesis by (auto simp: fs_wf_def index_ok_def read_file_def)
qed

lemma fs_list_complete:
  assumes "fs_wf fs" "read_file fs p = Some d" "prefix pre p"
  shows "\<exists>e\<in>set (fs_list fs pre). path e = p"
proof -
  from assms(2) obtain e where e: "bt_get (fs_index fs) p = Some e" "\<not> deleted e"
    by (auto simp: read_file_def split: bind_splits if_splits)
  with assms(1,3) bt_get_mem [OF e(1)] show ?thesis
    by (intro bexI [of _ e]) (auto simp: fs_list_def fs_wf_def index_ok_def image_iff)
qed

section \<open>Properties\<close>

text \<open>C17. The file system refines a finite map from paths to contents: after any sequence of writes and
  deletions that does not panic, reading any path gives what the same sequence leaves in the map.\<close>

theorem fs_refines_map:
  assumes "kv_run (fs_put tick) (\<lambda>p fs. snd (delete_file p fs)) ops fs_new = Some fs"
  shows "read_file fs = kv_spec ops Map.empty"
proof -
  have "read_file fs_new = Map.empty" by (rule ext) (simp add: read_file_def fs_new_def)
  with fsk.run_refines [OF fs_wf_new assms] show ?thesis by simp
qed

text \<open>Equal contents are stored once: a second write of the same data, to any path, uses the same blob, adds
  no bytes, and leaves the blobs as they are.\<close>

theorem write_dedup:
  assumes "fs_wf fs" "write_file t1 p d fs = Some (b, fs1)" "write_file t2 q d fs1 = Some (c, fs2)"
  shows "c = b \<and> blobs fs2 = blobs fs1 \<and> total_bytes fs2 = total_bytes fs1"
proof -
  have "dedup_hit fs1 d = Some b"
    using assms(2)
  proof (cases rule: write_file_cases)
    case shared
    then show ?thesis by (auto simp: dedup_hit_def split: option.splits)
  next
    case fresh
    then show ?thesis by (simp add: dedup_hit_def)
  qed
  with assms(3) show ?thesis by (auto simp: write_file_def)
qed

text \<open>A listing is exact: it holds the entries of the files that can be read and start with the prefix, with
  their true sizes.\<close>

theorem fs_list_exact:
  assumes "fs_wf fs"
  shows "path ` set (fs_list fs pre) = {p. prefix pre p \<and> read_file fs p \<noteq> None}"
  using fs_list_read [OF assms, of _ pre] fs_list_complete [OF assms, of _ _ pre] by fastforce

definition demo_fs :: OxideFs where
  "demo_fs = \<lparr>fs_index = [(''/a'', new_entry 7 ''/a'' 1 [1]), (''/b'', (new_entry 7 ''/b'' 1 [1])\<lparr>deleted := True\<rparr>)], blobs = [(1, [1])],
     content_hashes = [(content_hash [1], 1)], next_blob_id = 2, total_bytes = 1\<rparr>"

lemmas fs_eval = write_file_def dedup_hit_def new_entry_def bt_get_def fs_new_def checked_add_def delete_file_def bt_modify_def fs_put_def Let_def

lemma demo_fs_run:
  "kv_run (fs_put 7) (\<lambda>p fs. snd (delete_file p fs)) [Put ''/a'' [1], Put ''/b'' [1], Del ''/b''] fs_new = Some demo_fs"
  by (simp add: fs_eval demo_fs_def)

lemma demo_fs_wf: "fs_wf demo_fs"
  using fsk.run_refines [OF fs_wf_new demo_fs_run] by blast

theorem fs_refines_map_witness:
  "read_file demo_fs = kv_spec [Put ''/a'' [1], Put ''/b'' [1], Del ''/b''] Map.empty"
  by (rule fs_refines_map [OF demo_fs_run])

theorem write_dedup_witness:
  "\<exists>b fs1 fs2. write_file 7 ''/a'' [5] fs_new = Some (b, fs1) \<and> write_file 9 ''/c'' [5] fs1 = Some (b, fs2) \<and> blobs fs2 = blobs fs1"
proof -
  obtain b fs1 where 1: "write_file 7 ''/a'' [5] fs_new = Some (b, fs1)" by (simp add: fs_eval)
  obtain c fs2 where 2: "write_file 9 ''/c'' [5] fs1 = Some (c, fs2)" using 1 by (auto simp: fs_eval)
  from write_dedup [OF fs_wf_new 1 2] 1 2 show ?thesis by blast
qed

theorem fs_list_exact_witness: "path ` set (fs_list demo_fs ''/'') = {p. prefix ''/'' p \<and> read_file demo_fs p \<noteq> None}"
  by (rule fs_list_exact [OF demo_fs_wf])

end
