(* ===== verification/Rust_Text.thy ===== *)
theory Rust_Text
  imports Oxide_Prelude "HOL-Library.Sublist"
begin

text \<open>
  Text as the kernel uses it: decimal output of integers, decimal input, the check for valid UTF-8, and
  the string searches of the standard library.  A string is the list of its bytes.
\<close>

section \<open>Decimal numbers\<close>

fun dec :: "nat \<Rightarrow> string" where
  "dec n = (if n < 10 then [char_of (48 + n)] else dec (n div 10) @ [char_of (48 + n mod 10)])"

declare dec.simps [simp del]

definition digit :: "char \<Rightarrow> nat option" where
  "digit c = (let n = of_char c in if 48 \<le> n \<and> n \<le> 57 then Some (n - 48) else None)"

text \<open>\<open>str::parse\<close> for an unsigned type of the given bound: digits after an optional plus sign, at least one
  of them, and no overflow.\<close>

fun parse_digits :: "nat \<Rightarrow> nat \<Rightarrow> string \<Rightarrow> nat option" where
  "parse_digits bound acc [] = Some acc"
| "parse_digits bound acc (c # cs) =
     (case digit c of
        None \<Rightarrow> None
      | Some d \<Rightarrow> if acc * 10 + d < bound then parse_digits bound (acc * 10 + d) cs else None)"

definition parse_uint :: "nat \<Rightarrow> string \<Rightarrow> nat option" where
  "parse_uint bound s =
     (let t = (case s of [] \<Rightarrow> [] | c # cs \<Rightarrow> if c = CHR ''+'' then cs else s)
      in if t = [] then None else parse_digits bound 0 t)"

lemma digit_char_of: "d < 10 \<Longrightarrow> digit (char_of (48 + d)) = Some d"
  by (simp add: digit_def Let_def)

lemma parse_digits_append:
  "parse_digits bound acc (xs @ ys) = (case parse_digits bound acc xs of None \<Rightarrow> None | Some a \<Rightarrow> parse_digits bound a ys)"
  by (induction bound acc xs rule: parse_digits.induct) (auto split: option.splits)

lemma parse_dec: "n < bound \<Longrightarrow> parse_digits bound 0 (dec n) = Some n"
proof (induction n rule: dec.induct)
  case (1 n)
  show ?case
  proof (cases "n < 10")
    case True
    with 1 show ?thesis by (simp add: dec.simps digit_char_of)
  next
    case False
    then have "parse_digits bound 0 (dec (n div 10)) = Some (n div 10)" using 1 by simp
    moreover have "n div 10 * 10 + n mod 10 = n" by simp
    ultimately show ?thesis using False 1 by (subst dec.simps) (simp add: parse_digits_append digit_char_of)
  qed
qed

lemma dec_chars: "c \<in> set (dec n) \<Longrightarrow> 48 \<le> (of_char c :: nat) \<and> (of_char c :: nat) \<le> 57"
  by (induction n rule: dec.induct) (subst (asm) (2) dec.simps, auto split: if_splits)

lemma dec_not_empty: "dec n \<noteq> []"
  by (subst dec.simps) simp

lemma dec_inj:
  assumes "dec m = dec n" shows "m = n"
proof -
  have "Some m = parse_digits (Suc (m + n)) 0 (dec m)" by (rule parse_dec [symmetric]) simp
  also have "\<dots> = Some n" unfolding assms by (rule parse_dec) simp
  finally show ?thesis by simp
qed

text \<open>What \<open>format!\<close> prints, \<open>parse\<close> reads back.\<close>

lemma parse_uint_dec:
  assumes "n < bound" shows "parse_uint bound (dec n) = Some n"
proof -
  obtain c cs where c: "dec n = c # cs" using dec_not_empty by (cases "dec n") auto
  have "c \<noteq> CHR ''+''" using dec_chars [of c n] c by auto
  with c parse_dec [OF assms] show ?thesis by (simp add: parse_uint_def Let_def)
qed

lemma dec_slash: "CHR ''/'' \<notin> set (dec n)"
  using dec_chars [of "CHR ''/''" n] by auto

lemma dec_slash_inj:
  assumes "dec m @ CHR ''/'' # x = dec n @ CHR ''/'' # y" shows "m = n \<and> x = y"
proof -
  have t: "takeWhile (\<lambda>c. c \<noteq> CHR ''/'') (dec k @ CHR ''/'' # z) = dec k" for k z
    using dec_slash [of k] by (subst takeWhile_append2) auto
  have "dec m = dec n" using t [of m x] t [of n y] assms by simp
  with assms dec_inj show ?thesis by auto
qed

section \<open>UTF-8\<close>

definition cont_byte :: "u8 \<Rightarrow> bool" where
  "cont_byte b \<longleftrightarrow> 0x80 \<le> b \<and> b \<le> 0xBF"

text \<open>\<open>core::str::from_utf8\<close> succeeds.\<close>

fun utf8_valid :: "u8 list \<Rightarrow> bool" where
  "utf8_valid [] = True"
| "utf8_valid (a # bs) =
     (if a \<le> 0x7F then utf8_valid bs
      else if 0xC2 \<le> a \<and> a \<le> 0xDF then
        (case bs of b # bs \<Rightarrow> cont_byte b \<and> utf8_valid bs | _ \<Rightarrow> False)
      else if 0xE0 \<le> a \<and> a \<le> 0xEF then
        (case bs of b # c # bs \<Rightarrow> (if a = 0xE0 then 0xA0 \<le> b else 0x80 \<le> b) \<and> (if a = 0xED then b \<le> 0x9F else b \<le> 0xBF)
             \<and> cont_byte c \<and> utf8_valid bs | _ \<Rightarrow> False)
      else if 0xF0 \<le> a \<and> a \<le> 0xF4 then
        (case bs of b # c # d # bs \<Rightarrow> (if a = 0xF0 then 0x90 \<le> b else 0x80 \<le> b) \<and> (if a = 0xF4 then b \<le> 0x8F else b \<le> 0xBF)
             \<and> cont_byte c \<and> cont_byte d \<and> utf8_valid bs | _ \<Rightarrow> False)
      else False)"

definition bytes_of :: "string \<Rightarrow> u8 list" where
  "bytes_of s = map (\<lambda>c. of_nat (of_char c)) s"

definition string_of :: "u8 list \<Rightarrow> string" where
  "string_of bs = map (\<lambda>b. char_of (unat b)) bs"

lemma string_of_bytes_of [simp]: "string_of (bytes_of s) = s"
  by (induction s) (simp_all add: string_of_def bytes_of_def unat_of_nat)

lemma bytes_of_string_of [simp]: "bytes_of (string_of bs) = bs"
proof -
  have "unat b < 2 ^ LENGTH(8)" for b :: u8 by (rule unsigned_less)
  then have "unat b mod 256 = unat b" for b :: u8 by simp
  then show ?thesis by (induction bs) (simp_all add: string_of_def bytes_of_def)
qed

lemma length_bytes_of [simp]: "length (bytes_of s) = length s"
  by (simp add: bytes_of_def)

end
