(* ===== verification/Disk_Layout.thy ===== *)
theory Disk_Layout
  imports Oxide_Fs Block_Cache Byte_Codec Rust_Text
begin

text \<open>
  \<^verbatim>\<open>storage/oxide_fs.rs\<close>, on disk: \<open>sync_to_disk\<close> writes a superblock, the blobs and the index through the block cache,
  \<open>load_from_disk\<close> reads them back.  \<open>None\<close> is a panic: a slice out of bounds, an overflow, or a panic of the cache.
\<close>

type_synonym 'd cached = "BlockCache \<times> 'd"

definition zero_block :: block where
  "zero_block = replicate 512 0"

definition MAGIC :: "u8 list" where
  "MAGIC = bytes_of ''OXIDEFS'' @ [0]"

definition live_entries :: "OxideFs \<Rightarrow> (string, FileEntry) btree" where
  "live_entries fs = filter (\<lambda>(_, e). \<not> deleted e) (fs_index fs)"

section \<open>Writing\<close>

definition superblock :: "OxideFs \<Rightarrow> block option" where
  "superblock fs = do {
     sb \<leftarrow> blit 0 MAGIC zero_block;
     let blob_count = (of_nat (length (blobs fs)) :: u32);
     let index_count = (of_nat (length (live_entries fs)) :: u32);
     sb \<leftarrow> blit 8 (to_le_bytes (1 :: u32)) sb;
     sb \<leftarrow> blit 12 (to_le_bytes blob_count) sb;
     sb \<leftarrow> blit 16 (to_le_bytes index_count) sb;
     sb \<leftarrow> blit 20 (to_le_bytes (next_blob_id fs)) sb;
     blit 28 (to_le_bytes (total_bytes fs)) sb
   }"

text \<open>\<open>cache.write(block_num, block)\<close> with its result dropped, then \<open>block_num += 1\<close>.\<close>

definition put_next :: "'d write_fn \<Rightarrow> block \<Rightarrow> u64 \<times> 'd cached \<Rightarrow> (u64 \<times> 'd cached) option" where
  "put_next wr block = (\<lambda>(block_num, s). do {
     (_, s) \<leftarrow> bc_write wr block_num block s;
     block_num \<leftarrow> checked_add block_num 1;
     Some (block_num, s)
   })"

definition blob_head :: "u64 \<Rightarrow> u8 list \<Rightarrow> block option" where
  "blob_head b data = do {
     block \<leftarrow> blit 0 (to_le_bytes b) zero_block;
     block \<leftarrow> blit 8 (to_le_bytes (of_nat (length data) :: u32)) block;
     part \<leftarrow> slice data 0 (min (length data) 500);
     blit 12 part block
   }"

function sync_rest :: "'d write_fn \<Rightarrow> u8 list \<Rightarrow> nat \<Rightarrow> u64 \<times> 'd cached \<Rightarrow> (u64 \<times> 'd cached) option" where
  "sync_rest wr data offset s =
     (if offset < length data then do {
        let chunk = min (length data - offset) 512;
        part \<leftarrow> slice data offset (offset + chunk);
        cont \<leftarrow> blit 0 part zero_block;
        s \<leftarrow> put_next wr cont s;
        sync_rest wr data (offset + chunk) s
      }
      else Some s)"
  by pat_completeness auto
termination sync_rest
  by (relation "measure (\<lambda>(_, data, offset, _). length data - offset)") auto

declare sync_rest.simps [simp del]

definition sync_blob :: "'d write_fn \<Rightarrow> u64 \<times> u8 list \<Rightarrow> u64 \<times> 'd cached \<Rightarrow> (u64 \<times> 'd cached) option" where
  "sync_blob wr = (\<lambda>(b, data) s. do {
     block \<leftarrow> blob_head b data;
     s \<leftarrow> put_next wr block s;
     sync_rest wr data (min (length data) 500) s
   })"

definition entry_block :: "string \<Rightarrow> FileEntry \<Rightarrow> block option" where
  "entry_block p e = do {
     let path_bytes = bytes_of p;
     let path_len = (of_nat (min (length path_bytes) 255) :: u16);
     block \<leftarrow> blit 0 (to_le_bytes path_len) zero_block;
     part \<leftarrow> slice path_bytes 0 (unat path_len);
     block \<leftarrow> blit 2 part block;
     let off = 2 + unat path_len;
     block \<leftarrow> blit off (to_le_bytes (blob_id e)) block;
     block \<leftarrow> blit (off + 8) (to_le_bytes (file_size e)) block;
     block \<leftarrow> blit (off + 16) (to_le_bytes (created_tick e)) block;
     blit (off + 24) (to_le_bytes (modified_tick e)) block
   }"

definition sync_entry :: "'d write_fn \<Rightarrow> string \<times> FileEntry \<Rightarrow> u64 \<times> 'd cached \<Rightarrow> (u64 \<times> 'd cached) option" where
  "sync_entry wr = (\<lambda>(p, e) s.
     if deleted e then Some s else do { block \<leftarrow> entry_block p e; put_next wr block s })"

definition sync_to_disk :: "'d write_fn \<Rightarrow> OxideFs \<Rightarrow> 'd cached \<Rightarrow> 'd cached option" where
  "sync_to_disk wr fs s = do {
     sb \<leftarrow> superblock fs;
     (_, s) \<leftarrow> bc_write wr 0 sb s;
     s \<leftarrow> for_each (sync_blob wr) (blobs fs) (1, s);
     (block_num, s) \<leftarrow> for_each (sync_entry wr) (fs_index fs) s;
     (_, s) \<leftarrow> bc_flush wr s;
     Some s
   }"

section \<open>Reading\<close>

text \<open>\<open>cache.read(n).unwrap_or([0; 512])\<close>.\<close>

definition read_or_zero :: "'d read_fn \<Rightarrow> 'd write_fn \<Rightarrow> u64 \<Rightarrow> 'd cached \<Rightarrow> (block \<times> 'd cached) option" where
  "read_or_zero rd wr n s = do {
     (r, s) \<leftarrow> bc_read rd wr n s;
     Some (case r of Inr b \<Rightarrow> b | Inl _ \<Rightarrow> zero_block, s)
   }"

function load_rest :: "'d read_fn \<Rightarrow> 'd write_fn \<Rightarrow> nat \<Rightarrow> u64 \<Rightarrow> u8 list \<Rightarrow> 'd cached \<Rightarrow> (u64 \<times> u8 list \<times> 'd cached) option" where
  "load_rest rd wr remaining block_num data s =
     (if 0 < remaining then do {
        (cont, s) \<leftarrow> read_or_zero rd wr block_num s;
        let chunk = min remaining 512;
        part \<leftarrow> slice cont 0 chunk;
        block_num \<leftarrow> checked_add block_num 1;
        load_rest rd wr (remaining - chunk) block_num (data @ part) s
      }
      else Some (block_num, data, s))"
  by pat_completeness auto
termination load_rest
  by (relation "measure (\<lambda>(_, _, remaining, _). remaining)") auto

declare load_rest.simps [simp del]

definition load_blob :: "'d read_fn \<Rightarrow> 'd write_fn \<Rightarrow> u64 \<times> OxideFs \<times> 'd cached \<Rightarrow> (u64 \<times> OxideFs \<times> 'd cached) option" where
  "load_blob rd wr = (\<lambda>(block_num, fs, s). do {
     (block, s) \<leftarrow> read_or_zero rd wr block_num s;
     b \<leftarrow> map_option from_le_bytes (slice block 0 8);
     n \<leftarrow> map_option (from_le_bytes :: u8 list \<Rightarrow> u32) (slice block 8 12);
     block_num \<leftarrow> checked_add block_num 1;
     let first_chunk = min (unat n) 500;
     data \<leftarrow> slice block 12 (12 + first_chunk);
     (block_num, data, s) \<leftarrow> load_rest rd wr (unat n - first_chunk) block_num data s;
     Some (block_num, fs\<lparr>content_hashes := bt_insert (content_hash data) b (content_hashes fs), blobs := bt_insert b data (blobs fs)\<rparr>, s)
   })"

definition load_entry :: "'d read_fn \<Rightarrow> 'd write_fn \<Rightarrow> u64 \<times> OxideFs \<times> 'd cached \<Rightarrow> (u64 \<times> OxideFs \<times> 'd cached) option" where
  "load_entry rd wr = (\<lambda>(block_num, fs, s). do {
     (block, s) \<leftarrow> read_or_zero rd wr block_num s;
     path_len \<leftarrow> map_option (unat \<circ> (from_le_bytes :: u8 list \<Rightarrow> u16)) (slice block 0 2);
     bs \<leftarrow> slice block 2 (2 + path_len);
     let p = (if utf8_valid bs then string_of bs else []);
     let off = 2 + path_len;
     b \<leftarrow> map_option from_le_bytes (slice block off (off + 8));
     n \<leftarrow> map_option from_le_bytes (slice block (off + 8) (off + 16));
     created \<leftarrow> map_option from_le_bytes (slice block (off + 16) (off + 24));
     modified \<leftarrow> map_option from_le_bytes (slice block (off + 24) (off + 32));
     let e = \<lparr>path = p, blob_id = b, file_size = n, created_tick = created, modified_tick = modified, deleted = False\<rparr>;
     block_num \<leftarrow> checked_add block_num 1;
     Some (block_num, fs\<lparr>fs_index := bt_insert p e (fs_index fs)\<rparr>, s)
   })"

definition load_from_disk :: "'d read_fn \<Rightarrow> 'd write_fn \<Rightarrow> OxideFs \<Rightarrow> 'd cached \<Rightarrow> (bool \<times> OxideFs \<times> 'd cached) option" where
  "load_from_disk rd wr fs s = do {
     (r, s) \<leftarrow> bc_read rd wr 0 s;
     case r of
       Inl _ \<Rightarrow> Some (False, fs, s)
     | Inr sb \<Rightarrow> do {
         magic \<leftarrow> slice sb 0 8;
         if magic \<noteq> MAGIC then Some (False, fs, s)
         else do {
           blob_count \<leftarrow> map_option (unat \<circ> (from_le_bytes :: u8 list \<Rightarrow> u32)) (slice sb 12 16);
           index_count \<leftarrow> map_option (unat \<circ> (from_le_bytes :: u8 list \<Rightarrow> u32)) (slice sb 16 20);
           next_id \<leftarrow> map_option from_le_bytes (slice sb 20 28);
           total \<leftarrow> map_option from_le_bytes (slice sb 28 36);
           let fs = fs\<lparr>next_blob_id := next_id, total_bytes := total\<rparr>;
           x \<leftarrow> for_each (\<lambda>_. load_blob rd wr) [0..<blob_count] (1, fs, s);
           (_, fs, s) \<leftarrow> for_each (\<lambda>_. load_entry rd wr) [0..<index_count] x;
           Some (True, fs, s)
         }
       }
   }"

end
