(* ===== verification/Disk_Theorems.thy ===== *)
theory Disk_Theorems
  imports Disk_Layout
begin

text \<open>
  What a synchronised file system looks like on disk, that \<open>sync_to_disk\<close> writes exactly that, and that \<open>load_from_disk\<close>
  reads it back: the round trip through the cache and the device.
\<close>

section \<open>The image of a file system\<close>

definition pad :: "u8 list \<Rightarrow> block" where
  "pad bs = bs @ replicate (512 - length bs) 0"

lemma length_pad [simp]: "length bs \<le> 512 \<Longrightarrow> length (pad bs) = 512"
  by (simp add: pad_def)

fun chunks :: "u8 list \<Rightarrow> block list" where
  "chunks data = (if data = [] then [] else pad (take 512 data) # chunks (drop 512 data))"

declare chunks.simps [simp del]

lemma chunks_Nil [simp]: "chunks [] = []"
  by (simp add: chunks.simps)

definition super_image :: "OxideFs \<Rightarrow> block" where
  "super_image fs = pad (MAGIC @ to_le_bytes (1 :: u32) @ to_le_bytes (of_nat (length (blobs fs)) :: u32)
     @ to_le_bytes (of_nat (length (live_entries fs)) :: u32) @ to_le_bytes (next_blob_id fs) @ to_le_bytes (total_bytes fs))"

definition blob_image :: "u64 \<times> u8 list \<Rightarrow> block list" where
  "blob_image = (\<lambda>(b, data). pad (to_le_bytes b @ to_le_bytes (of_nat (length data) :: u32) @ take 500 data) # chunks (drop 500 data))"

definition entry_image :: "string \<times> FileEntry \<Rightarrow> block" where
  "entry_image = (\<lambda>(p, e). let bs = take 255 (bytes_of p) in
     pad (to_le_bytes (of_nat (length bs) :: u16) @ bs @ to_le_bytes (blob_id e) @ to_le_bytes (file_size e)
       @ to_le_bytes (created_tick e) @ to_le_bytes (modified_tick e)))"

definition disk_image :: "OxideFs \<Rightarrow> block list" where
  "disk_image fs = super_image fs # concat (map blob_image (blobs fs)) @ map entry_image (live_entries fs)"

section \<open>Writing the image\<close>

text \<open>Filling a padded block from the left.\<close>

lemma blit_pad: "a = length xs \<Longrightarrow> length xs + length src \<le> 512 \<Longrightarrow> blit a src (pad xs) = Some (pad (xs @ src))"
  by (simp add: pad_def blit_fill)

lemma zero_block_pad: "zero_block = pad []"
  by (simp add: zero_block_def pad_def)

lemma length_MAGIC [simp]: "length MAGIC = 8"
  by (simp add: MAGIC_def)

lemma superblock_eq: "superblock fs = Some (super_image fs)"
  by (simp add: superblock_def super_image_def zero_block_pad blit_pad)

lemma blob_head_eq: "blob_head b data = Some (pad (to_le_bytes b @ to_le_bytes (of_nat (length data) :: u32) @ take 500 data))"
proof -
  have "slice data 0 (min (length data) 500) = Some (take 500 data)" by (auto simp: slice_def min_def)
  then show ?thesis by (simp add: blob_head_def zero_block_pad blit_pad)
qed

lemma entry_block_eq: "entry_block p e = Some (entry_image (p, e))"
proof -
  let ?n = "min (length p) 255"
  have n: "unat (of_nat ?n :: u16) = ?n" by (rule unat_of_nat_small) simp
  have "slice (bytes_of p) 0 ?n = Some (take 255 (bytes_of p))" by (auto simp: slice_def min_def)
  then show ?thesis
    by (simp add: entry_block_def entry_image_def zero_block_pad blit_pad n Let_def min.commute)
qed

lemma sync_rest_eq: "offset \<le> length data \<Longrightarrow> sync_rest wr data offset s = for_each (put_next wr) (chunks (drop offset data)) s"
proof (induction wr data offset s rule: sync_rest.induct)
  case (1 wr data offset s)
  show ?case
  proof (cases "offset < length data")
    case True
    let ?chunk = "min (length data - offset) 512"
    have s: "slice data offset (offset + ?chunk) = Some (take 512 (drop offset data))" using True by (auto simp: slice_def min_def)
    have b: "blit 0 (take 512 (drop offset data)) zero_block = Some (pad (take 512 (drop offset data)))" by (simp add: zero_block_pad blit_pad)
    have c: "chunks (drop offset data) = pad (take 512 (drop offset data)) # chunks (drop (offset + ?chunk) data)"
      using True by (subst chunks.simps) (auto simp: min_def add.commute)
    show ?thesis
      by (subst sync_rest.simps) (use "1.IH" [OF True refl s b] True in \<open>auto simp: s b c split: bind_splits\<close>)
  qed (simp add: sync_rest.simps)
qed

lemma sync_blob_eq: "sync_blob wr x s = for_each (put_next wr) (blob_image x) s"
proof -
  obtain b data where x: "x = (b, data)" by (cases x)
  have "drop (min (length data) 500) data = drop 500 data" by (simp add: min_def)
  then show ?thesis using x by (auto simp: sync_blob_def blob_image_def blob_head_eq sync_rest_eq split: bind_splits)
qed

lemma sync_entry_eq:
  "for_each (sync_entry wr) m s = for_each (put_next wr) (map entry_image (filter (\<lambda>(_, e). \<not> deleted e) m)) s"
  by (induction m arbitrary: s) (auto simp: sync_entry_def entry_block_eq split: bind_splits)

lemma sync_blobs_eq: "for_each (sync_blob wr) m s = for_each (put_next wr) (concat (map blob_image m)) s"
  by (induction m arbitrary: s) (auto simp: sync_blob_eq for_each_append split: bind_splits)

lemma sync_to_disk_eq:
  "sync_to_disk wr fs s = do { (_, s) \<leftarrow> for_each (put_next wr) (disk_image fs) (0, s); (_, s) \<leftarrow> bc_flush wr s; Some s }"
proof -
  have "checked_add (0 :: u64) 1 = Some 1" by (simp add: checked_add_def)
  then show ?thesis
    by (simp add: sync_to_disk_def superblock_eq disk_image_def sync_blobs_eq sync_entry_eq for_each_append live_entries_def put_next_def [of wr "super_image fs"]
        bind_assoc case_prod_unfold)
qed

section \<open>Blocks at consecutive numbers\<close>

fun put_blocks :: "u64 \<Rightarrow> block list \<Rightarrow> (u64 \<Rightarrow> block) \<Rightarrow> u64 \<Rightarrow> block" where
  "put_blocks n [] f = f"
| "put_blocks n (b # bs) f = put_blocks (n + 1) bs (f(n := b))"

definition holds :: "(u64 \<Rightarrow> block) \<Rightarrow> u64 \<Rightarrow> block list \<Rightarrow> bool" where
  "holds f n bs \<longleftrightarrow> (\<forall>i < length bs. f (n + of_nat i) = bs ! i)"

lemma holds_Nil [simp]: "holds f n []"
  by (simp add: holds_def)

lemma holds_Cons [simp]: "holds f n (b # bs) \<longleftrightarrow> f n = b \<and> holds f (n + 1) bs"
  unfolding holds_def by (auto simp: less_Suc_eq_0_disj add.assoc)

lemma holds_append [simp]: "holds f n (xs @ ys) \<longleftrightarrow> holds f n xs \<and> holds f (n + of_nat (length xs)) ys"
  by (induction xs arbitrary: n) (auto simp: add.assoc)

lemma put_blocks_below:
  "unat k < unat n \<Longrightarrow> unat n + length bs \<le> 2 ^ 64 \<Longrightarrow> put_blocks n bs f k = f k"
proof (induction bs arbitrary: n f)
  case (Cons b bs)
  show ?case
  proof (cases "n = - 1")
    case True
    then have "unat n = 2 ^ 64 - 1" by (simp add: unat_max_word)
    with Cons.prems(2) have "bs = []" by simp
    with Cons.prems(1) show ?thesis by auto
  next
    case False
    then have "put_blocks (n + 1) bs (f(n := b)) k = (f(n := b)) k" using Cons.prems by (intro Cons.IH) (simp_all add: unat_plus_1)
    with Cons.prems(1) show ?thesis by auto
  qed
qed simp

lemma holds_put_blocks: "unat n + length bs \<le> 2 ^ 64 \<Longrightarrow> holds (put_blocks n bs f) n bs"
proof (induction bs arbitrary: n f)
  case (Cons b bs)
  show ?case
  proof (cases "n = - 1")
    case True
    then have "unat n = 2 ^ 64 - 1" by (simp add: unat_max_word)
    with Cons.prems have "bs = []" by simp
    then show ?thesis by simp
  next
    case False
    then have n: "unat (n + 1) = unat n + 1" by (rule unat_plus_1)
    then have "put_blocks (n + 1) bs (f(n := b)) n = (f(n := b)) n" using Cons.prems by (intro put_blocks_below) simp_all
    moreover have "holds (put_blocks (n + 1) bs (f(n := b))) (n + 1) bs" using Cons.prems n by (intro Cons.IH) simp
    ultimately show ?thesis by simp
  qed
qed simp

lemma disk_image_sizes: "x \<in> set (disk_image fs) \<Longrightarrow> length x = 512"
proof -
  have c: "x \<in> set (chunks data) \<Longrightarrow> length x = 512" for x data
    by (induction data rule: chunks.induct) (subst (asm) (2) chunks.simps, auto split: if_splits)
  show "x \<in> set (disk_image fs) \<Longrightarrow> length x = 512"
    by (auto simp: disk_image_def super_image_def blob_image_def entry_image_def Let_def dest: c)
qed

context block_device
begin

lemma put_all:
  assumes "bc_wf disk ok cap s" "\<forall>b \<in> set bs. length b = 512" "unat n + length bs \<le> unat cap"
    "unat (access_counter (fst s)) + length bs < 2 ^ 64"
  obtains s' where "for_each (put_next wr) bs (n, s) = Some (n + of_nat (length bs), s')" "bc_wf disk ok cap s'"
    "bc_view disk s' = put_blocks n bs (bc_view disk s)"
  using assms
proof (induction bs arbitrary: n s thesis)
  case (Cons b bs)
  have n: "n < cap" "n \<noteq> - 1"
  proof -
    show "n < cap" using Cons.prems(4) by (simp add: word_less_nat_alt)
    then show "n \<noteq> - 1" by auto
  qed
  obtain s1 where s1: "bc_write wr n b s = Some (Inr (), s1)" "bc_wf disk ok cap s1" "bc_view disk s1 = (bc_view disk s)(n := b)"
    "unat (access_counter (fst s1)) = Suc (unat (access_counter (fst s)))"
    by (rule bc_write_ok [OF Cons.prems(2) n(1)]) (use Cons.prems in auto)
  have c: "checked_add n 1 = Some (n + 1)" using n(2) by (simp add: checked_add_1_Some_iff)
  obtain s' where "for_each (put_next wr) bs (n + 1, s1) = Some (n + 1 + of_nat (length bs), s')" "bc_wf disk ok cap s'"
    "bc_view disk s' = put_blocks (n + 1) bs (bc_view disk s1)"
    by (rule Cons.IH [OF _ s1(2), of "n + 1"]) (use Cons.prems s1(4) n(2) in \<open>auto simp: unat_plus_1\<close>)
  with s1 c Cons.prems(1) [of s'] show ?case by (simp add: put_next_def [of wr b] add.assoc)
qed simp

lemma sync_ok:
  assumes "bc_wf disk ok cap s" "length (disk_image fs) \<le> unat cap" "unat (access_counter (fst s)) + length (disk_image fs) < 2 ^ 64"
  obtains s' where "sync_to_disk wr fs s = Some s'" "bc_wf disk ok cap s'" "disk (snd s') = put_blocks 0 (disk_image fs) (bc_view disk s)"
proof -
  obtain s1 where s1: "for_each (put_next wr) (disk_image fs) (0, s) = Some (0 + of_nat (length (disk_image fs)), s1)" "bc_wf disk ok cap s1"
    "bc_view disk s1 = put_blocks 0 (disk_image fs) (bc_view disk s)"
    by (rule put_all [OF assms(1), of "disk_image fs" 0]) (use disk_image_sizes assms in auto)
  from bc_flush_ok [OF s1(2)] s1 that show thesis by (auto simp: sync_to_disk_eq)
qed

end

section \<open>Reading the image\<close>

lemma for_each_const: "length xs = length ys \<Longrightarrow> for_each (\<lambda>_. f) xs s = for_each (\<lambda>_. f) ys s"
  by (induction xs ys arbitrary: s rule: list_induct2) (auto split: bind_splits)

definition add_blob :: "u64 \<times> u8 list \<Rightarrow> OxideFs \<Rightarrow> OxideFs" where
  "add_blob = (\<lambda>(b, data) fs. fs\<lparr>content_hashes := bt_insert (content_hash data) b (content_hashes fs), blobs := bt_insert b data (blobs fs)\<rparr>)"

lemma slice_pad: "b \<le> length xs \<Longrightarrow> slice (pad xs) a b = slice xs a b"
  by (simp add: pad_def)

lemma slice_mid:
  assumes "a = length xs" "b = a + length ys" shows "slice (xs @ ys @ zs) a b = Some ys"
  using assms by (simp add: slice_def)

lemma slice_end: "a = length xs \<Longrightarrow> b = a + length ys \<Longrightarrow> slice (xs @ ys) a b = Some ys"
  by (simp add: slice_def)

context block_device
begin

text \<open>A state after \<open>k\<close> reads.\<close>

definition reads :: "nat \<Rightarrow> 'd cached \<Rightarrow> 'd cached \<Rightarrow> bool" where
  "reads k s s' \<longleftrightarrow> bc_wf disk ok cap s' \<and> bc_view disk s' = bc_view disk s \<and> unat (access_counter (fst s')) = unat (access_counter (fst s)) + k"

definition can_read :: "nat \<Rightarrow> u64 \<Rightarrow> 'd cached \<Rightarrow> bool" where
  "can_read k n s \<longleftrightarrow> bc_wf disk ok cap s \<and> unat n + k \<le> unat cap \<and> unat (access_counter (fst s)) + k < 2 ^ 64"

lemma reads_trans: "reads j s s1 \<Longrightarrow> reads k s1 s2 \<Longrightarrow> reads (j + k) s s2"
  by (simp add: reads_def)

lemma can_read_le: "can_read k n s \<Longrightarrow> j \<le> k \<Longrightarrow> can_read j n s"
  by (simp add: can_read_def)

lemma can_read_step:
  assumes "can_read (j + k) n s" "reads j s s1" shows "can_read k (n + of_nat j) s1"
proof -
  have "unat cap < 2 ^ LENGTH(64)" by (rule unsigned_less)
  then have "unat n + j < 2 ^ 64" using assms(1) by (simp add: can_read_def)
  then have "unat (n + of_nat j) = unat n + j" by (simp add: unat_word_ariths unat_of_nat)
  with assms show ?thesis by (simp add: can_read_def reads_def)
qed

lemma read_next:
  assumes "can_read (Suc k) n s"
  obtains s' where "bc_read rd wr n s = Some (Inr (bc_view disk s n), s')" "read_or_zero rd wr n s = Some (bc_view disk s n, s')"
    "reads 1 s s'" "checked_add n 1 = Some (n + 1)" "can_read k (n + 1) s'"
proof -
  have n: "n < cap" using assms by (simp add: can_read_def word_less_nat_alt)
  then have c: "checked_add n 1 = Some (n + 1)" by (auto simp: checked_add_1_Some_iff)
  obtain s' where r: "bc_read rd wr n s = Some (Inr (bc_view disk s n), s')" "reads 1 s s'"
    by (rule bc_read_ok [of s n]) (use assms n in \<open>auto simp: can_read_def reads_def\<close>)
  then have "read_or_zero rd wr n s = Some (bc_view disk s n, s')" by (simp add: read_or_zero_def)
  with that c r can_read_step [of 1 k n s s'] assms show thesis by simp
qed

lemma load_rest_ok:
  assumes "holds (bc_view disk s) n (chunks data)" "can_read (length (chunks data)) n s"
  obtains s' where "load_rest rd wr (length data) n acc s = Some (n + of_nat (length (chunks data)), acc @ data, s')" "reads (length (chunks data)) s s'"
  using assms
proof (induction data arbitrary: n s acc thesis rule: chunks.induct)
  case (1 data)
  show ?case
  proof (cases "data = []")
    case True
    with "1.prems" show ?thesis by (auto simp: load_rest.simps reads_def can_read_def)
  next
    case False
    then have c: "chunks data = pad (take 512 data) # chunks (drop 512 data)" by (subst chunks.simps) simp
    obtain s1 where s1: "read_or_zero rd wr n s = Some (bc_view disk s n, s1)" "reads 1 s s1" "checked_add n 1 = Some (n + 1)"
      "can_read (length (chunks (drop 512 data))) (n + 1) s1"
      by (rule read_next [of "length (chunks (drop 512 data))" n s]) (use "1.prems"(3) c in auto)
    have p: "slice (bc_view disk s n) 0 (min (length data) 512) = Some (take 512 data)"
      using "1.prems"(2) c by (auto simp: slice_pad) (auto simp: slice_def min_def)
    have h: "holds (bc_view disk s1) (n + 1) (chunks (drop 512 data))" using "1.prems"(2) c s1(2) by (simp add: reads_def)
    obtain s' where s': "load_rest rd wr (length (drop 512 data)) (n + 1) (acc @ take 512 data) s1
        = Some (n + 1 + of_nat (length (chunks (drop 512 data))), (acc @ take 512 data) @ drop 512 data, s')"
      "reads (length (chunks (drop 512 data))) s1 s'"
      by (rule "1.IH" [OF False _ h s1(4)])
    have l: "length data - min (length data) 512 = length (drop 512 data)" by simp
    have "load_rest rd wr (length data) n acc s = Some (n + of_nat (length (chunks data)), acc @ data, s')"
      using False s1(1,3) s'(1) p unfolding l [symmetric] by (subst load_rest.simps) (simp add: c add.assoc)
    with "1.prems"(1) reads_trans [OF s1(2) s'(2)] c show ?thesis by simp
  qed
qed

lemma load_blob_ok:
  assumes "holds (bc_view disk s) n (blob_image x)" "can_read (length (blob_image x)) n s" "length (snd x) < 2 ^ 32"
  obtains s' where "load_blob rd wr (n, fs, s) = Some (n + of_nat (length (blob_image x)), add_blob x fs, s')" "reads (length (blob_image x)) s s'"
proof -
  obtain b data where x: "x = (b, data)" by (cases x)
  let ?head = "to_le_bytes b @ to_le_bytes (of_nat (length data) :: u32) @ take 500 data"
  have img: "blob_image x = pad ?head # chunks (drop 500 data)" by (simp add: x blob_image_def)
  have sz: "unat (of_nat (length data) :: u32) = length data" using assms(3) x by (simp add: unat_of_nat)
  obtain s1 where s1: "read_or_zero rd wr n s = Some (pad ?head, s1)" "reads 1 s s1" "checked_add n 1 = Some (n + 1)"
    "can_read (length (chunks (drop 500 data))) (n + 1) s1"
    by (rule read_next [of "length (chunks (drop 500 data))" n s]) (use assms img in auto)
  have sl: "slice (pad ?head) 0 8 = Some (to_le_bytes b)" "slice (pad ?head) 8 12 = Some (to_le_bytes (of_nat (length data) :: u32))"
    "slice (pad ?head) 12 (12 + min (length data) 500) = Some (take 500 data)"
    by (simp_all add: slice_pad) (simp_all add: slice_def min_def)
  have "holds (bc_view disk s1) (n + 1) (chunks (drop 500 data))" using assms(1) s1(2) img by (simp add: reads_def)
  then obtain s' where s': "load_rest rd wr (length (drop 500 data)) (n + 1) (take 500 data) s1
      = Some (n + 1 + of_nat (length (chunks (drop 500 data))), take 500 data @ drop 500 data, s')"
    "reads (length (chunks (drop 500 data))) s1 s'"
    by (rule load_rest_ok [OF _ s1(4)])
  have l: "length data - min (length data) 500 = length (drop 500 data)" by simp
  have "load_blob rd wr (n, fs, s) = Some (n + of_nat (length (blob_image x)), add_blob x fs, s')"
    using s1(1,3) s'(1) sl sz unfolding l [symmetric] by (simp add: load_blob_def img [unfolded x] x add_blob_def add.assoc)
  with that reads_trans [OF s1(2) s'(2)] img show thesis by simp
qed

lemma load_blobs_ok:
  assumes "holds (bc_view disk s) n (concat (map blob_image m))" "can_read (length (concat (map blob_image m))) n s"
    "\<forall>x \<in> set m. length (snd x) < 2 ^ 32"
  obtains s' where "for_each (\<lambda>_. load_blob rd wr) m (n, fs, s) = Some (n + of_nat (length (concat (map blob_image m))), fold add_blob m fs, s')"
    "reads (length (concat (map blob_image m))) s s'"
  using assms
proof (induction m arbitrary: n s fs thesis)
  case Nil
  then show ?case by (auto simp: reads_def can_read_def)
next
  case (Cons x m)
  let ?k = "length (blob_image x)"
  obtain s1 where s1: "load_blob rd wr (n, fs, s) = Some (n + of_nat ?k, add_blob x fs, s1)" "reads ?k s s1"
    by (rule load_blob_ok [of s n x fs]) (use Cons.prems in \<open>auto elim: can_read_le\<close>)
  have "can_read (length (concat (map blob_image m))) (n + of_nat ?k) s1" by (rule can_read_step [OF _ s1(2)]) (use Cons.prems(3) in simp)
  moreover have "holds (bc_view disk s1) (n + of_nat ?k) (concat (map blob_image m))" using Cons.prems(2) s1(2) by (simp add: reads_def)
  ultimately obtain s' where s': "for_each (\<lambda>_. load_blob rd wr) m (n + of_nat ?k, add_blob x fs, s1)
      = Some (n + of_nat ?k + of_nat (length (concat (map blob_image m))), fold add_blob m (add_blob x fs), s')"
    "reads (length (concat (map blob_image m))) s1 s'"
    using Cons.IH Cons.prems(4) by (metis list.set_intros(2))
  with s1 Cons.prems(1) [of s'] reads_trans [OF s1(2) s'(2)] show ?case by (simp add: add.assoc)
qed

lemma load_entry_ok:
  assumes "bc_view disk s n = entry_image (p, e)" "can_read (Suc k) n s" "length p \<le> 255" "utf8_valid (bytes_of p)" "path e = p" "\<not> deleted e"
  obtains s' where "load_entry rd wr (n, fs, s) = Some (n + 1, fs\<lparr>fs_index := bt_insert p e (fs_index fs)\<rparr>, s')" "reads 1 s s'" "can_read k (n + 1) s'"
proof -
  let ?len = "to_le_bytes (of_nat (length p) :: u16)" and ?bs = "bytes_of p" and ?off = "2 + length p"
  let ?bytes = "?len @ ?bs @ to_le_bytes (blob_id e) @ to_le_bytes (file_size e) @ to_le_bytes (created_tick e) @ to_le_bytes (modified_tick e)"
  obtain s1 where s1: "read_or_zero rd wr n s = Some (bc_view disk s n, s1)" "reads 1 s s1" "checked_add n 1 = Some (n + 1)" "can_read k (n + 1) s1"
    by (rule read_next [OF assms(2)])
  have n: "unat (of_nat (length p) :: u16) = length p" using assms(3) by (simp add: unat_of_nat)
  have img: "bc_view disk s n = pad ?bytes" using assms(1,3) by (simp add: entry_image_def)
  have sl: "slice (pad ?bytes) 0 2 = Some ?len" "slice (pad ?bytes) 2 ?off = Some ?bs"
    "slice (pad ?bytes) ?off (?off + 8) = Some (to_le_bytes (blob_id e))"
    "slice (pad ?bytes) (?off + 8) (?off + 16) = Some (to_le_bytes (file_size e))"
    "slice (pad ?bytes) (?off + 16) (?off + 24) = Some (to_le_bytes (created_tick e))"
    "slice (pad ?bytes) (?off + 24) (?off + 32) = Some (to_le_bytes (modified_tick e))"
    by (simp_all add: slice_pad) (simp_all add: slice_def)
  have "e = \<lparr>path = p, blob_id = blob_id e, file_size = file_size e, created_tick = created_tick e, modified_tick = modified_tick e, deleted = False\<rparr>"
    using assms(5,6) by (cases e) simp
  with s1 sl n assms(4) have "load_entry rd wr (n, fs, s) = Some (n + 1, fs\<lparr>fs_index := bt_insert p e (fs_index fs)\<rparr>, s1)"
    by (simp add: load_entry_def img Let_def)
  with that s1 show thesis by blast
qed

lemma load_entries_ok:
  assumes "holds (bc_view disk s) n (map entry_image m)" "can_read (length m) n s"
    "\<forall>(p, e) \<in> set m. length p \<le> 255 \<and> utf8_valid (bytes_of p) \<and> path e = p \<and> \<not> deleted e"
  obtains s' where "for_each (\<lambda>_. load_entry rd wr) m (n, fs, s)
      = Some (n + of_nat (length m), fs\<lparr>fs_index := fold (\<lambda>(p, e). bt_insert p e) m (fs_index fs)\<rparr>, s')"
  using assms
proof (induction m arbitrary: n s fs thesis)
  case (Cons x m)
  obtain p e where x: "x = (p, e)" by (cases x)
  obtain s1 where s1: "load_entry rd wr (n, fs, s) = Some (n + 1, fs\<lparr>fs_index := bt_insert p e (fs_index fs)\<rparr>, s1)" "reads 1 s s1"
    "can_read (length m) (n + 1) s1"
    by (rule load_entry_ok [of s n p e "length m" fs]) (use Cons.prems x in auto)
  have "holds (bc_view disk s1) (n + 1) (map entry_image m)" using Cons.prems(2) s1(2) by (simp add: reads_def)
  then obtain s' where "for_each (\<lambda>_. load_entry rd wr) m (n + 1, fs\<lparr>fs_index := bt_insert p e (fs_index fs)\<rparr>, s1)
      = Some (n + 1 + of_nat (length m), fs\<lparr>fs_index := fold (\<lambda>(p, e). bt_insert p e) m (bt_insert p e (fs_index fs))\<rparr>, s')"
    using Cons.IH [of "n + 1" "fs\<lparr>fs_index := bt_insert p e (fs_index fs)\<rparr>" s1] s1(3) Cons.prems(4) by auto
  with s1 x Cons.prems(1) show ?case by (simp add: add.assoc)
qed simp

end

section \<open>The file system after a reboot\<close>

lemma fold_insert_sorted: "bt_wf (acc @ m) \<Longrightarrow> fold (\<lambda>(k, v). bt_insert k v) m acc = acc @ m"
proof (induction m arbitrary: acc)
  case (Cons x m)
  obtain k v where x: "x = (k, v)" by (cases x)
  have "\<forall>k' \<in> fst ` set acc. k' < k" using Cons.prems x by (auto simp: bt_wf_def sorted_wrt_append)
  then have "bt_insert k v acc = acc @ [(k, v)]" by (rule bt_insert_last)
  with Cons.IH [of "acc @ [(k, v)]"] Cons.prems x show ?case by simp
qed simp

lemma bt_get_filter:
  assumes "bt_wf m"
  shows "bt_get (filter (\<lambda>(_, v). P v) m) k = (case bt_get m k of Some v \<Rightarrow> if P v then Some v else None | None \<Rightarrow> None)"
proof -
  have "distinct (map fst m)" using assms by (rule bt_wf_distinct)
  then show ?thesis
  proof (induction m)
    case (Cons x m)
    obtain j v where x: "x = (j, v)" by (cases x)
    have "map_of m j = None" using Cons.prems x by (simp add: map_of_eq_None_iff)
    with Cons x show ?case by (cases "j = k") (auto simp: bt_get_def)
  qed simp
qed

definition rehash :: "(u64, u8 list) btree \<Rightarrow> (u64, u64) btree" where
  "rehash m = fold (\<lambda>(b, data). bt_insert (content_hash data) b) m []"

definition reloaded :: "OxideFs \<Rightarrow> OxideFs" where
  "reloaded fs = fs\<lparr>fs_index := live_entries fs, content_hashes := rehash (blobs fs)\<rparr>"

lemma fold_add_blob:
  "fold add_blob m fs = fs\<lparr>content_hashes := fold (\<lambda>(b, data). bt_insert (content_hash data) b) m (content_hashes fs),
     blobs := fold (\<lambda>(k, v). bt_insert k v) m (blobs fs)\<rparr>"
  by (induction m arbitrary: fs) (auto simp: add_blob_def)

lemma rehash_sound: "bt_get (rehash m) h = Some b \<Longrightarrow> \<exists>d. (b, d) \<in> set m \<and> content_hash d = h"
proof -
  have "bt_get (fold (\<lambda>(b, data). bt_insert (content_hash data) b) m acc) h = Some b \<Longrightarrow>
      bt_get acc h = Some b \<or> (\<exists>d. (b, d) \<in> set m \<and> content_hash d = h)" for acc
  proof (induction m arbitrary: acc)
    case (Cons x m)
    then show ?case by (cases x) (auto split: if_splits dest!: Cons.IH)
  qed simp
  from this [of "[]"] show "bt_get (rehash m) h = Some b \<Longrightarrow> \<exists>d. (b, d) \<in> set m \<and> content_hash d = h" by (simp add: rehash_def)
qed

lemma live_entries_get: "index_ok fs \<Longrightarrow>
    bt_get (live_entries fs) p = (case bt_get (fs_index fs) p of Some e \<Rightarrow> if deleted e then None else Some e | None \<Rightarrow> None)"
  by (simp add: live_entries_def index_ok_def bt_get_filter [where P = "\<lambda>e. \<not> deleted e"] split: option.split)

lemma live_entries_wf: "bt_wf (fs_index fs) \<Longrightarrow> bt_wf (live_entries fs)"
  unfolding bt_wf_def live_entries_def by (induction "fs_index fs") (auto simp: sorted_wrt_map sorted_wrt_filter)

lemma reloaded_reads:
  assumes "index_ok fs" shows "read_file (reloaded fs) = read_file fs"
  by (rule ext) (auto simp: read_file_def reloaded_def live_entries_get [OF assms] split: option.splits bind_splits)

lemma reloaded_wf:
  assumes "fs_wf fs" shows "fs_wf (reloaded fs)"
proof -
  have i: "index_ok fs" and b: "blobs_ok fs" using assms by (auto simp: fs_wf_def)
  have "index_ok (reloaded fs)"
    using i live_entries_wf by (auto simp: index_ok_def reloaded_def live_entries_get [OF i] split: option.splits if_splits)
  moreover have "blobs_ok (reloaded fs)" using b by (simp add: blobs_ok_def reloaded_def)
  moreover have "hashes_ok (reloaded fs)"
    using b rehash_sound [of "blobs fs"] by (force simp: hashes_ok_def reloaded_def blobs_ok_def intro: bt_wf_mem_get)
  ultimately show ?thesis by (simp add: fs_wf_def)
qed

section \<open>The round trip\<close>

text \<open>The sizes fit their fields, the paths are not cut, and the image fits the disk.\<close>

definition fs_fits :: "OxideFs \<Rightarrow> u64 \<Rightarrow> bool" where
  "fs_fits fs cap \<longleftrightarrow> length (blobs fs) < 2 ^ 32 \<and> length (live_entries fs) < 2 ^ 32 \<and> list_all (\<lambda>(_, d). length d < 2 ^ 32) (blobs fs)
     \<and> list_all (\<lambda>(p, _). length p \<le> 255 \<and> utf8_valid (bytes_of p)) (live_entries fs) \<and> length (disk_image fs) \<le> unat cap"

context block_device
begin

lemma load_ok:
  assumes h: "holds (bc_view disk s) 0 (disk_image fs)" and r: "can_read (length (disk_image fs)) 0 s" and f: "fs_wf fs" "fs_fits fs cap"
  obtains s' where "load_from_disk rd wr fs_new s = Some (True, reloaded fs, s')"
proof -
  let ?live = "live_entries fs" and ?bl = "concat (map blob_image (blobs fs))"
  let ?nb = "of_nat (length (blobs fs)) :: u32" and ?ni = "of_nat (length ?live) :: u32"
  let ?head = "MAGIC @ to_le_bytes (1 :: u32) @ to_le_bytes ?nb @ to_le_bytes ?ni @ to_le_bytes (next_blob_id fs) @ to_le_bytes (total_bytes fs)"
  have i: "index_ok fs" and b: "bt_wf (blobs fs)" using f(1) by (auto simp: fs_wf_def blobs_ok_def)
  have n: "unat ?nb = length (blobs fs)" "unat ?ni = length ?live" using f(2) by (auto simp: fs_fits_def unat_of_nat)
  obtain s1 where s1: "bc_read rd wr 0 s = Some (Inr (pad ?head), s1)" "reads 1 s s1" "can_read (length ?bl + length ?live) 1 s1"
    by (rule read_next [of "length ?bl + length ?live" 0 s]) (use h r in \<open>auto simp: disk_image_def super_image_def\<close>)
  have sl: "slice (pad ?head) 0 8 = Some MAGIC" "slice (pad ?head) 12 16 = Some (to_le_bytes ?nb)" "slice (pad ?head) 16 20 = Some (to_le_bytes ?ni)"
    "slice (pad ?head) 20 28 = Some (to_le_bytes (next_blob_id fs))" "slice (pad ?head) 28 36 = Some (to_le_bytes (total_bytes fs))"
    by (simp_all add: slice_pad) (simp_all add: slice_def)
  let ?fs1 = "fs_new\<lparr>next_blob_id := next_blob_id fs, total_bytes := total_bytes fs\<rparr>"
  have h1: "holds (bc_view disk s1) 1 ?bl" "holds (bc_view disk s1) (1 + of_nat (length ?bl)) (map entry_image ?live)"
    using h s1(2) by (auto simp: disk_image_def reads_def)
  obtain s2 where s2: "for_each (\<lambda>_. load_blob rd wr) (blobs fs) (1, ?fs1, s1) = Some (1 + of_nat (length ?bl), fold add_blob (blobs fs) ?fs1, s2)"
    "reads (length ?bl) s1 s2"
    by (rule load_blobs_ok [OF h1(1) can_read_le [OF s1(3)]]) (use f(2) in \<open>auto simp: fs_fits_def list_all_iff\<close>)
  have h2: "holds (bc_view disk s2) (1 + of_nat (length ?bl)) (map entry_image ?live)" using h1(2) s2(2) by (simp add: reads_def)
  have ent: "\<forall>(p, e) \<in> set ?live. length p \<le> 255 \<and> utf8_valid (bytes_of p) \<and> path e = p \<and> \<not> deleted e"
    using f(2) i by (auto simp: fs_fits_def list_all_iff live_entries_def index_ok_def dest: bt_wf_mem_get)
  obtain s3 where s3: "for_each (\<lambda>_. load_entry rd wr) ?live (1 + of_nat (length ?bl), fold add_blob (blobs fs) ?fs1, s2)
      = Some (1 + of_nat (length ?bl) + of_nat (length ?live), (fold add_blob (blobs fs) ?fs1)
          \<lparr>fs_index := fold (\<lambda>(p, e). bt_insert p e) ?live (fs_index (fold add_blob (blobs fs) ?fs1))\<rparr>, s3)"
    by (rule load_entries_ok [OF h2 can_read_step [OF s1(3) s2(2)] ent])
  have u: "for_each (\<lambda>_. load_blob rd wr) [0..<length (blobs fs)] x = for_each (\<lambda>_. load_blob rd wr) (blobs fs) x"
    "for_each (\<lambda>_. load_entry rd wr) [0..<length ?live] y = for_each (\<lambda>_. load_entry rd wr) ?live y" for x y
    by (rule for_each_const, simp)+
  have "(fold add_blob (blobs fs) ?fs1)\<lparr>fs_index := fold (\<lambda>(p, e). bt_insert p e) ?live (fs_index (fold add_blob (blobs fs) ?fs1))\<rparr> = reloaded fs"
    using fold_insert_sorted [of "[]" "blobs fs"] fold_insert_sorted [of "[]" ?live] b i live_entries_wf [of fs]
    by (simp add: fold_add_blob fs_new_def reloaded_def rehash_def index_ok_def)
  then have "load_from_disk rd wr fs_new s = Some (True, reloaded fs, s3)"
    using s1(1) s2(1) s3 sl n u by (simp add: load_from_disk_def)
  with that show thesis .
qed

text \<open>Loading with an empty cache, as after a reboot.\<close>

lemma load_fresh:
  assumes "ok d" "disk d = put_blocks 0 (disk_image fs) a" and f: "fs_wf fs" "fs_fits fs cap"
  obtains s' where "load_from_disk rd wr fs_new (bc_new, d) = Some (True, reloaded fs, s')"
proof -
  have len: "length (disk_image fs) \<le> unat cap" using f(2) by (simp add: fs_fits_def)
  moreover have "unat cap < 2 ^ LENGTH(64)" by (rule unsigned_less)
  ultimately have small: "length (disk_image fs) < 2 ^ 64" by simp
  have "can_read (length (disk_image fs)) 0 (bc_new, d)" using assms(1) len small by (simp add: can_read_def bc_wf_def bc_new_def)
  moreover have "holds (bc_view disk (bc_new, d)) 0 (disk_image fs)"
    using holds_put_blocks [of 0 "disk_image fs" a] small assms(2) by (simp add: bc_view_def bc_new_def)
  ultimately show thesis using that load_ok f by blast
qed

lemma sync_load:
  assumes wf: "bc_wf disk ok cap s" and f: "fs_wf fs" "fs_fits fs cap" and room: "unat (access_counter (fst s)) + length (disk_image fs) < 2 ^ 64"
  shows "\<exists>c d s'. sync_to_disk wr fs s = Some (c, d) \<and> load_from_disk rd wr fs_new (bc_new, d) = Some (True, reloaded fs, s')"
proof -
  have len: "length (disk_image fs) \<le> unat cap" using f(2) by (simp add: fs_fits_def)
  obtain c d where s1: "sync_to_disk wr fs s = Some (c, d)" "bc_wf disk ok cap (c, d)" "disk d = put_blocks 0 (disk_image fs) (bc_view disk s)"
    by (rule sync_ok [OF wf len room]) (metis prod.collapse snd_conv)
  have "ok d" using s1(2) by (simp add: bc_wf_def)
  then obtain s' where "load_from_disk rd wr fs_new (bc_new, d) = Some (True, reloaded fs, s')" by (rule load_fresh [OF _ s1(3) f])
  with s1(1) show ?thesis by blast
qed

end

section \<open>Properties\<close>

text \<open>C10. Synchronising and loading are inverse: for a well-formed file system that fits the disk, \<open>sync_to_disk\<close> through a cache in any
  consistent state returns, and loading with an empty cache, as after a reboot, returns a well-formed file system in which every path
  reads as before, with the same blobs, next id and byte count; deleted entries are gone.\<close>

theorem sync_load_roundtrip:
  assumes "block_device rd wr disk ok cap" "bc_wf disk ok cap s" "fs_wf fs" "fs_fits fs cap"
    "unat (access_counter (fst s)) + length (disk_image fs) < 2 ^ 64"
  shows "\<exists>c d fs' s'. sync_to_disk wr fs s = Some (c, d) \<and> load_from_disk rd wr fs_new (bc_new, d) = Some (True, fs', s')
    \<and> read_file fs' = read_file fs \<and> fs_index fs' = filter (\<lambda>(_, e). \<not> deleted e) (fs_index fs) \<and> blobs fs' = blobs fs
    \<and> next_blob_id fs' = next_blob_id fs \<and> total_bytes fs' = total_bytes fs \<and> fs_wf fs'"
proof -
  obtain c d s' where "sync_to_disk wr fs s = Some (c, d)" "load_from_disk rd wr fs_new (bc_new, d) = Some (True, reloaded fs, s')"
    using block_device.sync_load [OF assms] by blast
  moreover have "read_file (reloaded fs) = read_file fs" "fs_wf (reloaded fs)"
    using assms(3) reloaded_wf [OF assms(3)] by (simp_all add: reloaded_reads fs_wf_def)
  ultimately show ?thesis by (simp add: reloaded_def live_entries_def)
qed

text \<open>A disk with one file, and the device that is an array.\<close>

definition disk_demo :: OxideFs where
  "disk_demo = \<lparr>fs_index = [(''a'', new_entry 5 ''a'' 1 [1, 2, 3])], blobs = [(1, [1, 2, 3])], content_hashes = [(content_hash [1, 2, 3], 1)],
     next_blob_id = 2, total_bytes = 3\<rparr>"

lemma disk_demo_ok: "fs_wf disk_demo" "fs_fits disk_demo 100" "length (disk_image disk_demo) = 3" "read_file disk_demo ''a'' = Some [1, 2, 3]"
proof -
  show len: "length (disk_image disk_demo) = 3" by (simp add: disk_image_def disk_demo_def blob_image_def live_entries_def new_entry_def)
  show "fs_wf disk_demo"
    by (simp add: fs_wf_def index_ok_def blobs_ok_def hashes_ok_def disk_demo_def new_entry_def bt_wf_def bt_get_def word_less_nat_alt)
  show "fs_fits disk_demo 100" unfolding fs_fits_def len
    by (simp add: disk_demo_def live_entries_def new_entry_def bytes_of_def word_le_nat_alt)
  show "read_file disk_demo ''a'' = Some [1, 2, 3]" by (simp add: read_file_def disk_demo_def new_entry_def bt_get_def)
qed

theorem sync_load_roundtrip_witness:
  "\<exists>c d fs' s'. sync_to_disk array_write disk_demo (bc_new, \<lambda>_. zero_block) = Some (c, d)
    \<and> load_from_disk array_read array_write fs_new (bc_new, d) = Some (True, fs', s') \<and> read_file fs' ''a'' = Some [1, 2, 3]"
proof -
  have dev: "block_device array_read array_write (\<lambda>a. a) (\<lambda>a. \<forall>n. length (a n) = 512) 100"
    by unfold_locales (auto simp: array_read_def array_write_def)
  have "bc_wf (\<lambda>a. a) (\<lambda>a. \<forall>n. length (a n) = 512) 100 (bc_new, \<lambda>_. zero_block)" by (simp add: bc_wf_def bc_new_def zero_block_def)
  from sync_load_roundtrip [OF dev this disk_demo_ok(1,2)] disk_demo_ok(3,4) show ?thesis by (auto simp: bc_new_def)
qed

text \<open>The loader trusts the length field of an index entry: a value above 478 in a block of the disk is a panic.\<close>

lemma corrupt_entry_panics:
  assumes "read_or_zero rd wr n s = Some (block, s')" "length block = 512" "478 < unat (from_le_bytes (take 2 block) :: u16)"
  shows "load_entry rd wr (n, fs, s) = None"
proof -
  let ?n = "unat (from_le_bytes (take 2 block) :: u16)"
  have "slice block 0 2 = Some (take 2 block)" "slice block (2 + ?n + 24) (2 + ?n + 32) = None" using assms(2,3) by (simp_all add: slice_def)
  with assms(1) show ?thesis by (auto simp: load_entry_def Let_def split: bind_splits)
qed

text \<open>A superblock with another magic number leaves the file system as it was.\<close>

lemma load_foreign_disk:
  assumes "bc_read rd wr 0 s = Some (Inr sb, s')" "length sb = 512" "take 8 sb \<noteq> MAGIC"
  shows "load_from_disk rd wr fs s = Some (False, fs, s')"
  using assms by (simp add: load_from_disk_def slice_def)

end
