(* ===== verification/Storage.thy ===== *)
theory Storage
  imports Virtio_Blk_Init Disk_Theorems
begin

text \<open>
  \<^verbatim>\<open>storage/mod.rs\<close>: the whole storage path.  The file system writes through the cache, the cache through the driver, the driver to
  the device; initialisation brings up the driver and loads the file system.
\<close>

text \<open>\<open>oxide_fs::init\<close>.\<close>

definition fs_init :: "'d read_fn \<Rightarrow> 'd write_fn \<Rightarrow> OxideFs \<Rightarrow> 'd cached \<Rightarrow> (OxideFs \<times> 'd cached) option" where
  "fs_init rd wr fs s = do { (loaded, fs, s) \<leftarrow> load_from_disk rd wr fs s; Some (fs, s) }"

record 'h storage =
  blk_device :: VirtioBlkDevice
  blk_found :: bool
  block_cache :: BlockCache
  file_system :: OxideFs
  frames :: "BitmapFrameAllocator option"
  machine_state :: "'h shared"

definition storage_init :: "'h shared ports \<Rightarrow> ('h shared \<Rightarrow> 'h shared) \<Rightarrow> u64 \<Rightarrow> 'h storage \<Rightarrow> 'h storage option" where
  "storage_init io step hhdm st = do {
     ((dev, found), fa, m) \<leftarrow> vb_init io hhdm ((blk_device st, blk_found st), frames st, machine_state st);
     (fs, c, dev, m) \<leftarrow> fs_init (vb_read io step hhdm) (vb_write io step hhdm) (file_system st) (block_cache st, dev, m);
     Some \<lparr>blk_device = dev, blk_found = found, block_cache = c, file_system = fs, frames = fa, machine_state = m\<rparr>
   }"

text \<open>The state of the storage variables before initialisation.\<close>

definition storage_boot :: "BitmapFrameAllocator option \<Rightarrow> 'h shared \<Rightarrow> 'h storage" where
  "storage_boot fa m = \<lparr>blk_device = vb_empty, blk_found = False, block_cache = bc_new, file_system = fs_new, frames = fa, machine_state = m\<rparr>"

text \<open>Without a disk the file system starts empty.\<close>

lemma storage_offline:
  assumes "vb_init io hhdm ((vb_empty, False), fa, m) = Some ((vb_empty, False), fa', m')"
  obtains st where "storage_init io step hhdm (storage_boot fa m) = Some st" "file_system st = fs_new" "\<not> blk_found st"
proof -
  have r: "vb_read io step hhdm 0 (vb_empty, m') = Some (Inl ''not initialized'', vb_empty, m')"
    by (simp add: vb_read_def vb_read_block_def vb_empty_def)
  have "fs_init (vb_read io step hhdm) (vb_write io step hhdm) fs_new (bc_new, vb_empty, m')
      = Some (fs_new, bc_new\<lparr>access_counter := 1\<rparr>, vb_empty, m')"
    by (simp add: fs_init_def load_from_disk_def bc_read_def bc_new_def r checked_add_def)
  with assms that show thesis by (simp add: storage_init_def storage_boot_def)
qed

section \<open>Properties\<close>

text \<open>C4. Files survive a reboot: the file system synchronises through the cache and the driver to a conforming virtio disk, and when the
  kernel starts again on a machine whose disk holds the same blocks, initialisation restores a file system in which every path reads as
  before.\<close>

theorem files_survive_reboot:
  assumes "bc_wf (stored disk) (blk_ok io step hhdm cap disk alive) cap (c, d, m)" "fs_wf fs" "fs_fits fs cap"
    "unat (access_counter c) + length (disk_image fs) < 2 ^ 64" "quiet io" "4096 dvd unat hhdm"
  shows "\<exists>c1 d1 m1. sync_to_disk (vb_write io step hhdm) fs (c, d, m) = Some (c1, d1, m1)
    \<and> (\<forall>fa m0 d' fa' m'. vb_init io hhdm ((vb_empty, False), fa, m0) = Some ((d', True), fa', m') \<and> capacity_blocks d' = cap
         \<and> conforming io step (io_base d' + 16) cap disk alive \<and> alive (hw m') \<and> disk (hw m') = disk (hw m1)
       \<longrightarrow> (\<exists>st. storage_init io step hhdm (storage_boot fa m0) = Some st \<and> blk_found st \<and> fs_wf (file_system st) \<and> read_file (file_system st) = read_file fs))"
proof -
  have len: "length (disk_image fs) \<le> unat cap" using assms(3) by (simp add: fs_fits_def)
  obtain s1 where s1: "sync_to_disk (vb_write io step hhdm) fs (c, d, m) = Some s1"
    "stored disk (snd s1) = put_blocks 0 (disk_image fs) (bc_view (stored disk) (c, d, m))"
    by (rule block_device.sync_ok [OF vb.block_device_axioms assms(1) len]) (use assms(4) in simp_all)
  obtain c1 d1 m1 where c1: "s1 = (c1, d1, m1)" by (cases s1)
  have "\<exists>st. storage_init io step hhdm (storage_boot fa m0) = Some st \<and> blk_found st \<and> fs_wf (file_system st) \<and> read_file (file_system st) = read_file fs"
    if i: "vb_init io hhdm ((vb_empty, False), fa, m0) = Some ((d', True), fa', m')" "capacity_blocks d' = cap"
      "conforming io step (io_base d' + 16) cap disk alive" "alive (hw m')" "disk (hw m') = disk (hw m1)" for fa m0 d' fa' m'
  proof -
    have ok: "blk_ok io step hhdm cap disk alive (d', m')" using blk_init_inv [OF i(1) assms(5,6)] i(2-4) by (simp add: blk_ok_def)
    have "stored disk (d', m') = put_blocks 0 (disk_image fs) (bc_view (stored disk) (c, d, m))" using s1(2) i(5) c1 by (simp add: stored_def)
    then obtain c2 d2 m2 where s2: "load_from_disk (vb_read io step hhdm) (vb_write io step hhdm) fs_new (bc_new, d', m') = Some (True, reloaded fs, c2, d2, m2)"
      by (rule block_device.load_fresh [OF vb.block_device_axioms ok _ assms(2,3)]) (metis prod.collapse)
    have "read_file (reloaded fs) = read_file fs" "fs_wf (reloaded fs)" using assms(2) reloaded_wf [OF assms(2)] by (simp_all add: reloaded_reads fs_wf_def)
    with i(1) s2 show ?thesis by (simp add: storage_init_def storage_boot_def fs_init_def)
  qed
  with s1(1) c1 show ?thesis by blast
qed

theorem files_survive_reboot_witness:
  "\<exists>c1 d1 m1 st. sync_to_disk (vb_write ref_ports (\<lambda>m. m) demo_hhdm) disk_demo (bc_new, demo_driver, demo_shared) = Some (c1, d1, m1)
     \<and> storage_init ref_ports (\<lambda>m. m) demo_hhdm (storage_boot (Some demo_fa) m1) = Some st \<and> blk_found st \<and> read_file (file_system st) ''a'' = Some [1, 2, 3]"
proof -
  have q: "quiet ref_ports" by (simp add: quiet_def ref_ports_def queue_memory_def)
  have wf: "bc_wf (stored snd) (blk_ok ref_ports (\<lambda>m. m) demo_hhdm 100 snd full_disk) 100 (bc_new, demo_driver, demo_shared)"
    using demo_blk_ok by (simp add: bc_wf_def bc_new_def)
  from files_survive_reboot [OF wf disk_demo_ok(1,2) _ q] obtain c1 d1 m1 where
    s: "sync_to_disk (vb_write ref_ports (\<lambda>m. m) demo_hhdm) disk_demo (bc_new, demo_driver, demo_shared) = Some (c1, d1, m1)"
    and r: "\<And>fa m0 d' fa' m'. vb_init ref_ports demo_hhdm ((vb_empty, False), fa, m0) = Some ((d', True), fa', m') \<Longrightarrow> capacity_blocks d' = 100
         \<Longrightarrow> conforming ref_ports (\<lambda>m. m) (io_base d' + 16) 100 snd full_disk \<Longrightarrow> full_disk (hw m') \<Longrightarrow> snd (hw m') = snd (hw m1)
       \<Longrightarrow> \<exists>st. storage_init ref_ports (\<lambda>m. m) demo_hhdm (storage_boot fa m0) = Some st \<and> blk_found st \<and> fs_wf (file_system st)
            \<and> read_file (file_system st) = read_file disk_demo"
    using disk_demo_ok(3) by (auto simp: bc_new_def)
  obtain s1 where "sync_to_disk (vb_write ref_ports (\<lambda>m. m) demo_hhdm) disk_demo (bc_new, demo_driver, demo_shared) = Some s1"
    "bc_wf (stored snd) (blk_ok ref_ports (\<lambda>m. m) demo_hhdm 100 snd full_disk) 100 s1"
    by (rule block_device.sync_ok [OF vb.block_device_axioms wf, of disk_demo]) (use disk_demo_ok(3) in \<open>simp_all add: bc_new_def\<close>)
  with s have full: "full_disk (hw m1)" by (simp add: bc_wf_def blk_ok_def)
  obtain d fa' m' where i: "vb_init ref_ports demo_hhdm ((vb_empty, False), Some demo_fa, m1) = Some ((d, True), fa', m')" "capacity_blocks d = 100"
    "io_base d = 0xC000" "snd (hw m') = snd (hw m1)"
    by (rule demo_blk_init)
  have "conforming ref_ports (\<lambda>m. m) (io_base d + 16) 100 snd full_disk" using ref_conforming [of 100] i(3) by simp
  from r [OF i(1,2) this] i(4) full s disk_demo_ok(4) show ?thesis by (auto simp: full_disk_def)
qed

end
