(* ===== verification/Crypto.thy ===== *)
theory Crypto
  imports Btree_Map Byte_Codec
begin

text \<open>
  Random numbers, capability tags and agent signatures (\<^verbatim>\<open>crypto/rng.rs\<close>, \<^verbatim>\<open>crypto/hmac_cap.rs\<close>, \<^verbatim>\<open>crypto/signing.rs\<close>).
  The processor's instructions and the hash functions of the \<open>sha2\<close> and \<open>hmac\<close> crates are parameters.
\<close>

section \<open>Random numbers\<close>

text \<open>The instructions \<open>cpuid\<close>, \<open>rdtsc\<close> (low and high half) and \<open>rdrand\<close> (value and carry flag).\<close>

record 'c cpu_ops =
  cpuid :: "u32 \<Rightarrow> 'c \<Rightarrow> u32 \<times> 'c"
  rdtsc :: "'c \<Rightarrow> (u32 \<times> u32) \<times> 'c"
  rdrand :: "'c \<Rightarrow> (u64 \<times> u8) \<times> 'c"

record Rng =
  has_rdrand :: bool
  fallback :: u64

definition rng_static :: Rng where
  "rng_static = \<lparr>has_rdrand = False, fallback = 0xDEADBEEFCAFEBABE\<rparr>"

definition rng_init :: "'c cpu_ops \<Rightarrow> Rng \<times> 'c \<Rightarrow> Rng \<times> 'c" where
  "rng_init cpu = (\<lambda>(r, c).
     let (ecx, c) = cpuid cpu 1 c;
         has_hw = (drop_bit 30 ecx AND 1 = 1);
         r = r\<lparr>has_rdrand := has_hw\<rparr>
     in if \<not> has_hw then
          (let ((lo, hi), c) = rdtsc cpu c;
               tsc = push_bit 32 (ucast hi) OR ucast lo
           in (r\<lparr>fallback := if tsc = 0 then 0xDEADBEEF else tsc\<rparr>, c))
        else (r, c))"

definition xorshift :: "u64 \<Rightarrow> u64" where
  "xorshift x =
     (let x = x XOR push_bit 13 x;
          x = x XOR drop_bit 7 x
      in x XOR push_bit 17 x)"

fun rdrand_retry :: "'c cpu_ops \<Rightarrow> nat \<Rightarrow> 'c \<Rightarrow> u64 option \<times> 'c" where
  "rdrand_retry cpu 0 c = (None, c)"
| "rdrand_retry cpu (Suc n) c =
     (let ((val, ok), c) = rdrand cpu c in if ok = 1 then (Some val, c) else rdrand_retry cpu n c)"

definition random_u64 :: "'c cpu_ops \<Rightarrow> Rng \<times> 'c \<Rightarrow> u64 \<times> Rng \<times> 'c" where
  "random_u64 cpu = (\<lambda>(r, c).
     let (v, c) = (if has_rdrand r then rdrand_retry cpu 10 c else (None, c)) in
     case v of
       Some val \<Rightarrow> (val, r, c)
     | None \<Rightarrow> (let x = xorshift (fallback r) in (x, r\<lparr>fallback := x\<rparr>, c)))"

function fill_bytes :: "'c cpu_ops \<Rightarrow> nat \<Rightarrow> u8 list \<Rightarrow> Rng \<times> 'c \<Rightarrow> (u8 list \<times> Rng \<times> 'c) option" where
  "fill_bytes cpu i buffer s =
     (if i < length buffer then do {
        let (val, s) = random_u64 cpu s;
        let to_copy = min (length buffer - i) 8;
        part \<leftarrow> slice (to_le_bytes val) 0 to_copy;
        buffer' \<leftarrow> blit i part buffer;
        fill_bytes cpu (i + to_copy) buffer' s
      }
      else Some (buffer, s))"
  by pat_completeness auto
termination fill_bytes
  by (relation "measure (\<lambda>(_, i, buffer, _). length buffer - i)") (auto dest: length_blit)

declare fill_bytes.simps [simp del]

section \<open>Capability tags\<close>

text \<open>\<open>tag.copy_from_slice(..)\<close> on an array of 32 bytes.\<close>

definition digest32 :: "u8 list \<Rightarrow> u8 list option" where
  "digest32 d = (if length d = 32 then Some d else None)"

definition tag_message :: "u64 \<Rightarrow> u64 \<Rightarrow> u32 \<Rightarrow> u8 list" where
  "tag_message cap_id owner_id perms = to_le_bytes cap_id @ to_le_bytes owner_id @ to_le_bytes perms"

definition generate_tag :: "(u8 list \<Rightarrow> u8 list \<Rightarrow> u8 list) \<Rightarrow> u8 list \<Rightarrow> u64 \<Rightarrow> u64 \<Rightarrow> u32 \<Rightarrow> u8 list option" where
  "generate_tag hmac key cap_id owner_id perms = digest32 (hmac key (tag_message cap_id owner_id perms))"

text \<open>The comparison that always reads both arrays to the end.\<close>

definition ct_diff :: "u8 list \<Rightarrow> u8 list \<Rightarrow> u8" where
  "ct_diff expected tag = fold (\<lambda>(a, b) diff. diff OR (a XOR b)) (zip expected tag) 0"

definition verify_tag :: "(u8 list \<Rightarrow> u8 list \<Rightarrow> u8 list) \<Rightarrow> u8 list \<Rightarrow> u64 \<Rightarrow> u64 \<Rightarrow> u32 \<Rightarrow> u8 list \<Rightarrow> bool option" where
  "verify_tag hmac key cap_id owner_id perms tag = do {
     expected \<leftarrow> generate_tag hmac key cap_id owner_id perms;
     Some (ct_diff expected tag = 0)
   }"

definition hmac_init :: "'c cpu_ops \<Rightarrow> Rng \<times> 'c \<Rightarrow> (u8 list \<times> Rng \<times> 'c) option" where
  "hmac_init cpu s = fill_bytes cpu 0 (replicate 32 0) s"

section \<open>Agent signatures\<close>

record KeyPair =
  public_key :: "u8 list"
  secret_key :: "u8 list"

type_synonym key_map = "(u64, KeyPair) btree"

definition kp_generate :: "'c cpu_ops \<Rightarrow> (u8 list \<Rightarrow> u8 list) \<Rightarrow> Rng \<times> 'c \<Rightarrow> (KeyPair \<times> Rng \<times> 'c) option" where
  "kp_generate cpu sha s = do {
     (sk, s) \<leftarrow> fill_bytes cpu 0 (replicate 32 0) s;
     pk \<leftarrow> digest32 (sha sk);
     Some (\<lparr>public_key = pk, secret_key = sk\<rparr>, s)
   }"

definition kp_sign :: "(u8 list \<Rightarrow> u8 list) \<Rightarrow> KeyPair \<Rightarrow> u8 list \<Rightarrow> u8 list option" where
  "kp_sign sha kp message = digest32 (sha (secret_key kp @ message))"

definition kp_verify :: "(u8 list \<Rightarrow> u8 list) \<Rightarrow> key_map \<Rightarrow> u8 list \<Rightarrow> u8 list \<Rightarrow> u8 list \<Rightarrow> bool option" where
  "kp_verify sha keys pk message signature =
     (case List.find (\<lambda>(_, kp). public_key kp = pk) keys of
        Some (_, kp) \<Rightarrow> do { expected \<leftarrow> kp_sign sha kp message; Some (ct_diff expected signature = 0) }
      | None \<Rightarrow> Some False)"

definition generate_agent_keypair ::
  "'c cpu_ops \<Rightarrow> (u8 list \<Rightarrow> u8 list) \<Rightarrow> u64 \<Rightarrow> key_map \<times> Rng \<times> 'c \<Rightarrow> (u8 list \<times> key_map \<times> Rng \<times> 'c) option" where
  "generate_agent_keypair cpu sha agent_id = (\<lambda>(keys, s). do {
     (kp, s) \<leftarrow> kp_generate cpu sha s;
     Some (public_key kp, bt_insert agent_id kp keys, s)
   })"

definition agent_sign :: "(u8 list \<Rightarrow> u8 list) \<Rightarrow> key_map \<Rightarrow> u64 \<Rightarrow> u8 list \<Rightarrow> u8 list option option" where
  "agent_sign sha keys agent_id message =
     (case bt_get keys agent_id of
        None \<Rightarrow> Some None
      | Some kp \<Rightarrow> map_option Some (kp_sign sha kp message))"

definition get_public_key :: "key_map \<Rightarrow> u64 \<Rightarrow> u8 list option" where
  "get_public_key keys agent_id = map_option public_key (bt_get keys agent_id)"

definition crypto_init :: "'c cpu_ops \<Rightarrow> Rng \<times> 'c \<Rightarrow> (u8 list \<times> Rng \<times> 'c) option" where
  "crypto_init cpu s = hmac_init cpu (rng_init cpu s)"

section \<open>The software generator\<close>

text \<open>Each of the three steps of the generator can be undone, so it is a permutation of the words and only zero is mapped to zero.\<close>

lemma xor_push_bit_inj:
  fixes x y :: "'a::len word"
  assumes "x XOR push_bit n x = y XOR push_bit n y" "0 < n" shows "x = y"
proof (rule bit_word_eqI)
  fix k assume "k < LENGTH('a)"
  then show "bit x k = bit y k"
  proof (induction k rule: less_induct)
    case (less k)
    have "bit (x XOR push_bit n x) k = bit (y XOR push_bit n y) k" using assms(1) by simp
    moreover have "n \<le> k \<Longrightarrow> bit x (k - n) = bit y (k - n)" using less assms(2) by auto
    ultimately show ?case using less.prems by (auto simp: bit_simps)
  qed
qed

lemma xor_drop_bit_inj:
  fixes x y :: "'a::len word"
  assumes "x XOR drop_bit n x = y XOR drop_bit n y" "0 < n" shows "x = y"
proof (rule bit_eqI)
  fix k show "bit x k = bit y k"
  proof (induction "LENGTH('a) - k" arbitrary: k rule: less_induct)
    case less
    have "bit (x XOR drop_bit n x) k = bit (y XOR drop_bit n y) k" using assms(1) by simp
    moreover have "bit x (n + k) = bit y (n + k)"
    proof (cases "k < LENGTH('a)")
      case True
      with assms(2) show ?thesis by (intro less) simp
    next
      case False
      then show ?thesis by (auto dest!: bit_imp_le_length)
    qed
    ultimately show ?case by (auto simp: bit_simps)
  qed
qed

lemma xorshift_inj: "inj xorshift"
proof (rule injI)
  fix x y :: u64
  assume "xorshift x = xorshift y"
  then have "(x XOR push_bit 13 x) XOR drop_bit 7 (x XOR push_bit 13 x) = (y XOR push_bit 13 y) XOR drop_bit 7 (y XOR push_bit 13 y)"
    unfolding xorshift_def Let_def by (rule xor_push_bit_inj) simp
  then have "x XOR push_bit 13 x = y XOR push_bit 13 y" by (rule xor_drop_bit_inj) simp
  then show "x = y" by (rule xor_push_bit_inj) simp
qed

lemma xorshift_0: "xorshift x = 0 \<longleftrightarrow> x = 0"
proof -
  have z: "xorshift 0 = 0" by (simp add: xorshift_def)
  show ?thesis using injD [OF xorshift_inj, of x 0] z by auto
qed

text \<open>A run of draws, and what it keeps.\<close>

fun draws :: "'c cpu_ops \<Rightarrow> nat \<Rightarrow> Rng \<times> 'c \<Rightarrow> u64 list \<times> Rng \<times> 'c" where
  "draws cpu 0 s = ([], s)"
| "draws cpu (Suc n) s = (let (v, s) = random_u64 cpu s; (vs, s) = draws cpu n s in (v # vs, s))"

lemma length_draws [simp]: "length (fst (draws cpu n s)) = n"
  by (induction n arbitrary: s) (auto simp: Let_def split: prod.splits, metis fst_conv)

lemma random_u64_fallback:
  "fallback (fst s) \<noteq> 0 \<Longrightarrow> fallback (fst (snd (random_u64 cpu s))) \<noteq> 0"
  by (auto simp: random_u64_def xorshift_0 Let_def split: prod.splits option.splits)

lemma random_u64_software:
  "\<not> has_rdrand (fst s) \<Longrightarrow> random_u64 cpu s = (xorshift (fallback (fst s)), (fst s)\<lparr>fallback := xorshift (fallback (fst s))\<rparr>, snd s)"
  by (auto simp: random_u64_def Let_def split: prod.splits)

lemma draws_software:
  assumes "\<not> has_rdrand (fst s)"
  shows "draws cpu n s = (map (\<lambda>i. (xorshift ^^ Suc i) (fallback (fst s))) [0..<n], (fst s)\<lparr>fallback := (xorshift ^^ n) (fallback (fst s))\<rparr>, snd s)"
  using assms
proof (induction n arbitrary: s)
  case (Suc n)
  have "[0..<Suc n] = 0 # map Suc [0..<n]" by (simp add: map_Suc_upt upt_conv_Cons del: upt_Suc)
  with Suc show ?case
    by (simp add: random_u64_software funpow_swap1 o_def Let_def del: upt_Suc)
qed simp

lemma funpow_xorshift_0: "(xorshift ^^ n) x = 0 \<longleftrightarrow> x = 0"
  by (induction n) (auto simp: xorshift_0)

lemma rng_init_fallback:
  "fallback (fst s) \<noteq> 0 \<Longrightarrow> fallback (fst (rng_init cpu s)) \<noteq> 0"
  by (auto simp: rng_init_def Let_def split: prod.splits)

section \<open>Filling a buffer\<close>

lemma fill_bytes_from:
  "length pre = i \<Longrightarrow>
   fill_bytes cpu i (pre @ rest) s =
     (let (vs, s') = draws cpu ((length rest + 7) div 8) s
      in Some (pre @ take (length rest) (concat (map to_le_bytes vs)), s'))"
proof (induction "length rest" arbitrary: i pre rest s rule: less_induct)
  case less
  show ?case
  proof (cases "rest = []")
    case True
    then show ?thesis using less.prems by (subst fill_bytes.simps) simp
  next
    case False
    define m where "m = min (length rest) 8"
    obtain v s1 where v: "random_u64 cpu s = (v, s1)" by (cases "random_u64 cpu s")
    obtain vs s2 where vs: "draws cpu ((length rest - m + 7) div 8) s1 = (vs, s2)"
      by (cases "draws cpu ((length rest - m + 7) div 8) s1")
    have len: "length (take m (to_le_bytes v)) = m" by (simp add: m_def)
    have n: "(length rest + 7) div 8 = Suc ((length rest - m + 7) div 8)"
    proof -
      have "8 \<le> length rest + 7" using False by (cases rest) simp_all
      then have "(length rest + 7) div 8 = Suc ((length rest - 1) div 8)" by (simp add: le_div_geq)
      moreover have "(length rest - 1) div 8 = (length rest - m + 7) div 8"
        by (cases "length rest \<le> 8") (simp_all add: m_def)
      ultimately show ?thesis by simp
    qed
    have "blit i (take m (to_le_bytes v)) (pre @ rest) = Some ((pre @ take m (to_le_bytes v)) @ drop m rest)"
      using less.prems len by (simp add: blit_def m_def)
    moreover have "slice (to_le_bytes v) 0 m = Some (take m (to_le_bytes v))" by (simp add: slice_def m_def)
    ultimately have "fill_bytes cpu i (pre @ rest) s = fill_bytes cpu (i + m) ((pre @ take m (to_le_bytes v)) @ drop m rest) s1"
      using False v less.prems by (subst fill_bytes.simps) (simp add: m_def Let_def)
    also have "\<dots> = Some (pre @ take m (to_le_bytes v) @ take (length rest - m) (concat (map to_le_bytes vs)), s2)"
      using less.hyps [of "drop m rest" "pre @ take m (to_le_bytes v)" "i + m" s1] False less.prems vs len
      by (simp add: m_def)
    also have "take m (to_le_bytes v) @ take (length rest - m) (concat (map to_le_bytes vs)) = take (length rest) (to_le_bytes v @ concat (map to_le_bytes vs))"
      by (cases "length rest \<le> 8") (auto simp: m_def)
    finally show ?thesis using v vs n by simp
  qed
qed

lemma fill_bytes_draws:
  "fill_bytes cpu 0 buffer s =
     (let (vs, s') = draws cpu ((length buffer + 7) div 8) s in Some (take (length buffer) (concat (map to_le_bytes vs)), s'))"
  using fill_bytes_from [of "[]" 0 cpu buffer s] by simp

section \<open>Properties\<close>

text \<open>Without the hardware generator, the software generator never degenerates.  Seeded by \<open>rng_init\<close> from the time stamp counter, the state
  is never zero, its n-th output is the n-th iterate of the xorshift permutation at the seed, and no output is zero; and two
  machines that draw the same value at the same step had the same seed.\<close>

theorem software_rng_sound:
  fixes cpu :: "'c cpu_ops"
  assumes "\<not> has_rdrand (fst (rng_init cpu s))" "fallback (fst s) \<noteq> 0"
  shows "fst (draws cpu n (rng_init cpu s)) = map (\<lambda>i. (xorshift ^^ Suc i) (fallback (fst (rng_init cpu s)))) [0..<n]
    \<and> 0 \<notin> set (fst (draws cpu n (rng_init cpu s)))
    \<and> fallback (fst (snd (draws cpu n (rng_init cpu s)))) \<noteq> 0
    \<and> inj (xorshift ^^ n)"
proof -
  have nz: "fallback (fst (rng_init cpu s)) \<noteq> 0" by (rule rng_init_fallback [OF assms(2)])
  have "(xorshift ^^ k) (fallback (fst (rng_init cpu s))) \<noteq> 0" for k using nz by (simp add: funpow_xorshift_0)
  moreover have "inj (xorshift ^^ n)" by (rule inj_fn [OF xorshift_inj])
  ultimately show ?thesis
    using draws_software [OF assms(1), of cpu n] by (auto simp: xorshift_0 simp del: funpow.simps)
qed

definition demo_cpu :: "nat cpu_ops" where
  "demo_cpu = \<lparr>cpuid = (\<lambda>_ c. (0, c)), rdtsc = (\<lambda>c. ((of_nat c, 0), c + 1)), rdrand = (\<lambda>c. ((0, 0), c))\<rparr>"

theorem software_rng_sound_witness:
  "fst (draws demo_cpu 2 (rng_init demo_cpu (rng_static, 5))) = map (\<lambda>i. (xorshift ^^ Suc i) 5) [0..<2]"
proof -
  have i: "rng_init demo_cpu (rng_static, 5) = (\<lparr>has_rdrand = False, fallback = 5\<rparr>, 6)"
    by (simp add: rng_init_def demo_cpu_def rng_static_def)
  show ?thesis using software_rng_sound [of demo_cpu "(rng_static, 5)" 2] i by (simp add: rng_static_def)
qed

text \<open>The constant-time comparison decides equality of arrays of the same length.\<close>

lemma ct_diff_fold:
  fixes d :: u8
  shows "fold (\<lambda>(a, b) diff. diff OR (a XOR b)) (zip xs ys) d = 0 \<longleftrightarrow> d = 0 \<and> (\<forall>(a, b) \<in> set (zip xs ys). a = b)"
proof (induction "zip xs ys" arbitrary: xs ys d)
  case (Cons p ps)
  then obtain x xs' y ys' where *: "xs = x # xs'" "ys = y # ys'" "ps = zip xs' ys'" "p = (x, y)"
    by (cases xs; cases ys) auto
  have "(d OR (x XOR y)) = 0 \<longleftrightarrow> d = 0 \<and> x = y" for d x y :: u8
    by (auto simp: bit_eq_iff bit_simps)
  then show ?case using Cons.hyps(1) [OF *(3)] * by auto
qed auto

lemma ct_diff_eq: "length xs = length ys \<Longrightarrow> ct_diff xs ys = 0 \<longleftrightarrow> xs = ys"
  by (auto simp: ct_diff_def ct_diff_fold set_zip list_eq_iff_nth_eq)

lemma generate_tag_total:
  "length (hmac key (tag_message c w p)) = 32 \<Longrightarrow> generate_tag hmac key c w p = Some (hmac key (tag_message c w p))"
  by (simp add: generate_tag_def digest32_def)

lemma tag_message_inj: "tag_message c w p = tag_message c' w' p' \<longleftrightarrow> c = c' \<and> w = w' \<and> p = p'"
proof
  assume "tag_message c w p = tag_message c' w' p'"
  then have "to_le_bytes c = to_le_bytes c'" "to_le_bytes w = to_le_bytes w'" "to_le_bytes p = to_le_bytes p'"
    by (simp_all add: tag_message_def)
  then show "c = c' \<and> w = w' \<and> p = p'" by (metis from_to_le_bytes_u(2,3))
qed simp

lemma length_tag_message [simp]: "length (tag_message c w p) = 20"
  by (simp add: tag_message_def)


definition demo_hmac :: "u8 list \<Rightarrow> u8 list \<Rightarrow> u8 list" where
  "demo_hmac key m = take 32 (m @ replicate 32 0)"


section \<open>Signatures\<close>

text \<open>Every key pair of the map was generated: its public key is the hash of its secret key, which has 32 bytes.\<close>

definition keys_wf :: "(u8 list \<Rightarrow> u8 list) \<Rightarrow> key_map \<Rightarrow> bool" where
  [wf_defs]: "keys_wf sha keys \<longleftrightarrow> bt_wf keys \<and> (\<forall>(a, kp) \<in> set keys. public_key kp = sha (secret_key kp) \<and> length (secret_key kp) = 32)"

lemma keys_wf_empty: "keys_wf sha []"
  by (simp add: keys_wf_def)

lemma set_bt_insert: "(a, v) \<in> set (bt_insert b w m) \<Longrightarrow> (a, v) = (b, w) \<or> (a, v) \<in> set m"
  by (induction b w m rule: bt_insert.induct) (auto split: if_splits)

lemma length_concat_le: "length (concat (map to_le_bytes (vs :: u64 list))) = 8 * length vs"
  by (induction vs) simp_all

lemma fill_32:
  "fill_bytes cpu 0 (replicate 32 0) s = Some (concat (map to_le_bytes (fst (draws cpu 4 s))), snd (draws cpu 4 s))"
proof -
  obtain vs s' where d: "draws cpu 4 s = (vs, s')" by (cases "draws cpu 4 s")
  then have "length vs = 4" by (metis fst_conv length_draws)
  with d show ?thesis by (simp add: fill_bytes_draws length_concat_le)
qed

lemma kp_generate_total:
  assumes "\<forall>m. length (sha m) = 32"
  shows "kp_generate cpu sha s =
    Some (\<lparr>public_key = sha (concat (map to_le_bytes (fst (draws cpu 4 s)))), secret_key = concat (map to_le_bytes (fst (draws cpu 4 s)))\<rparr>, snd (draws cpu 4 s))"
  using assms by (simp add: kp_generate_def fill_32 digest32_def)

lemma generate_agent_keypair_wf:
  assumes "\<forall>m. length (sha m) = 32" "keys_wf sha keys" "generate_agent_keypair cpu sha a (keys, s) = Some (pk, keys', s')"
  shows "keys_wf sha keys' \<and> get_public_key keys' a = Some pk"
  using assms(2,3)
  by (auto simp: generate_agent_keypair_def kp_generate_total [OF assms(1)] keys_wf_def get_public_key_def length_concat_le dest!: set_bt_insert)

lemma find_first:
  assumes "(a, kp) \<in> set keys" "public_key kp = pk"
  obtains b kp' where "List.find (\<lambda>(_, kp). public_key kp = pk) keys = Some (b, kp')" "(b, kp') \<in> set keys" "public_key kp' = pk"
proof (cases "List.find (\<lambda>(_, kp). public_key kp = pk) keys")
  case None
  with assms show ?thesis by (auto simp: find_None_iff)
next
  case (Some q)
  then show ?thesis using find_SomeD [OF Some] that by (cases q) auto
qed

text \<open>C38. Signatures verify exactly.  For a hash of 32 bytes under which the secret keys in use do not collide, \<open>generate_agent_keypair\<close> never
  panics and gives the agent a key made of four draws of the generator; afterwards \<open>agent_sign\<close> signs for it, verification under the
  public key that was returned accepts that signature and no other array of 32 bytes, and under a public key that nobody has it accepts nothing.\<close>

theorem signatures_exact:
  fixes keys :: key_map and cpu :: "'c cpu_ops"
  assumes digest_size: "\<forall>m. length (sha m) = 32" and wf: "keys_wf sha keys" and len: "length sig = 32"
    and no_collision: "inj_on sha (insert (concat (map to_le_bytes (fst (draws cpu 4 s)))) ((secret_key \<circ> snd) ` set keys))"
  shows "\<exists>pk keys' sg. generate_agent_keypair cpu sha a (keys, s) = Some (pk, keys', snd (draws cpu 4 s))
    \<and> keys_wf sha keys' \<and> get_public_key keys' a = Some pk
    \<and> agent_sign sha keys' a message = Some (Some sg)
    \<and> kp_verify sha keys' pk message sig = Some (sig = sg)
    \<and> (kp_verify sha keys' pk' message sig = Some True \<longrightarrow> (\<exists>b. get_public_key keys' b = Some pk'))"
proof -
  define sk where "sk = concat (map to_le_bytes (fst (draws cpu 4 s)))"
  define kp where "kp = \<lparr>public_key = sha sk, secret_key = sk\<rparr>"
  define keys' where "keys' = bt_insert a kp keys"
  have gen: "generate_agent_keypair cpu sha a (keys, s) = Some (sha sk, keys', snd (draws cpu 4 s))"
    by (simp add: generate_agent_keypair_def kp_generate_total [OF digest_size] keys'_def kp_def sk_def)
  have wf': "keys_wf sha keys'" "get_public_key keys' a = Some (sha sk)"
    using generate_agent_keypair_wf [OF digest_size wf gen] by auto
  have get: "bt_get keys' a = Some kp" by (simp add: keys'_def)
  have sign: "agent_sign sha keys' a message = Some (Some (sha (sk @ message)))"
    using digest_size get by (simp add: agent_sign_def kp_sign_def digest32_def kp_def)
  have same: "secret_key kp' = sk" if "(b, kp') \<in> set keys'" "public_key kp' = sha sk" for b kp'
  proof -
    have "secret_key kp' \<in> insert sk ((secret_key \<circ> snd) ` set keys)"
      using set_bt_insert [of b kp' a kp keys] that(1) by (force simp: keys'_def kp_def)
    moreover have "sha (secret_key kp') = sha sk" using wf'(1) that by (force simp: keys_wf_def)
    ultimately show ?thesis using inj_onD [OF no_collision [folded sk_def]] by blast
  qed
  have verify: "kp_verify sha keys' (sha sk) message sig = Some (sig = sha (sk @ message))"
  proof -
    obtain b kp' where f: "List.find (\<lambda>(_, kp). public_key kp = sha sk) keys' = Some (b, kp')" "(b, kp') \<in> set keys'" "public_key kp' = sha sk"
      by (rule find_first [OF bt_get_mem [OF get]]) (simp add: kp_def)
    have "kp_sign sha kp' message = Some (sha (sk @ message))"
      using same [OF f(2,3)] digest_size by (simp add: kp_sign_def digest32_def)
    with f len digest_size show ?thesis by (auto simp: kp_verify_def ct_diff_eq)
  qed
  have other: "\<exists>b. get_public_key keys' b = Some pk'" if "kp_verify sha keys' pk' message sig = Some True"
  proof -
    from that obtain b kp' where "List.find (\<lambda>(_, kp). public_key kp = pk') keys' = Some (b, kp')"
      by (auto simp: kp_verify_def split: option.splits)
    then have "(b, kp') \<in> set keys'" "public_key kp' = pk'" using find_SomeD by fastforce+
    moreover have "bt_wf keys'" using wf'(1) by (simp add: keys_wf_def)
    ultimately have "get_public_key keys' b = Some pk'" by (simp add: get_public_key_def bt_wf_mem_get)
    then show ?thesis ..
  qed
  from gen wf' sign verify other show ?thesis by blast
qed

definition demo_sha :: "u8 list \<Rightarrow> u8 list" where
  "demo_sha m = take 32 (m @ replicate 32 0)"

theorem signatures_exact_witness:
  "\<exists>pk keys' sg. generate_agent_keypair demo_cpu demo_sha 1 ([], rng_static, 0) = Some (pk, keys', snd (draws demo_cpu 4 (rng_static, 0)))
    \<and> agent_sign demo_sha keys' 1 [1] = Some (Some sg) \<and> kp_verify demo_sha keys' pk [1] (replicate 32 0) = Some (replicate 32 0 = sg)"
proof -
  have d: "\<forall>m. length (demo_sha m) = 32" by (auto simp: demo_sha_def min_def)
  show ?thesis
    using signatures_exact [OF d keys_wf_empty, of "replicate 32 0" demo_cpu "(rng_static, 0)" 1 "[1]" "[]"] by fastforce
qed

text \<open>A signature is the hash of the secret key and the message.  A hash of the Merkle-Damgard kind, as SHA-256 is, can be continued from its
  digest once its input is padded, so anyone can sign an extension of a signed message without the key.\<close>

lemma signature_extends:
  assumes "\<forall>x y. sha (x @ pad (length x) @ y) = ext (sha x) (length x) y" "kp_sign sha kp m = Some sg" "length (secret_key kp) = 32"
  shows "kp_sign sha kp (m @ pad (32 + length m) @ extra) = digest32 (ext sg (32 + length m) extra)"
proof -
  have sg: "sg = sha (secret_key kp @ m)" using assms(2) by (simp add: kp_sign_def digest32_def split: if_splits)
  have "sha ((secret_key kp @ m) @ pad (length (secret_key kp @ m)) @ extra) = ext (sha (secret_key kp @ m)) (length (secret_key kp @ m)) extra"
    using assms(1) by blast
  then show ?thesis using assms(3) sg by (simp add: kp_sign_def)
qed

end
