(* ===== verification/Userspace.thy ===== *)
theory Userspace
  imports Byte_Codec
begin

text \<open>
  Executables and user processes (\<^verbatim>\<open>userspace/elf.rs\<close>, \<^verbatim>\<open>userspace/process.rs\<close>) and the segment table they rely on (\<^verbatim>\<open>gdt.rs\<close>).

  The loader reads the headers through a pointer into the binary.  The debug build checks that such a pointer is aligned
  to eight bytes and panics otherwise, so the address of the binary is an argument.  \<open>count_load_segments\<close> does not compare the length of the binary with
  the size of the header; a read outside the binary has no meaning in Rust, and the model returns \<open>None\<close> for it as for a panic.
\<close>

section \<open>Headers\<close>

definition ELF_MAGIC :: "u8 list" where
  "ELF_MAGIC = [0x7F, 0x45, 0x4C, 0x46]"

definition PT_LOAD :: u32 where
  "PT_LOAD = 1"

record ElfHeader =
  e_ident :: "u8 list"
  e_type :: u16
  e_machine :: u16
  e_version :: u32
  e_entry :: u64
  e_phoff :: u64
  e_shoff :: u64
  e_flags :: u32
  e_ehsize :: u16
  e_phentsize :: u16
  e_phnum :: u16
  e_shentsize :: u16
  e_shnum :: u16
  e_shstrndx :: u16

record ProgramHeader =
  p_type :: u32
  p_flags :: u32
  p_offset :: u64
  p_vaddr :: u64
  p_paddr :: u64
  p_filesz :: u64
  p_memsz :: u64
  p_align :: u64

text \<open>The \<open>repr(C)\<close> layout of the two structures, 64 and 56 bytes long.\<close>

definition field :: "nat \<Rightarrow> nat \<Rightarrow> u8 list \<Rightarrow> 'a::len word" where
  "field at n bs = from_le_bytes (take n (drop at bs))"

definition elf_header :: "u8 list \<Rightarrow> ElfHeader" where
  "elf_header bs = \<lparr>e_ident = take 16 bs, e_type = field 16 2 bs, e_machine = field 18 2 bs, e_version = field 20 4 bs,
     e_entry = field 24 8 bs, e_phoff = field 32 8 bs, e_shoff = field 40 8 bs, e_flags = field 48 4 bs, e_ehsize = field 52 2 bs,
     e_phentsize = field 54 2 bs, e_phnum = field 56 2 bs, e_shentsize = field 58 2 bs, e_shnum = field 60 2 bs, e_shstrndx = field 62 2 bs\<rparr>"

definition program_header :: "u8 list \<Rightarrow> ProgramHeader" where
  "program_header bs = \<lparr>p_type = field 0 4 bs, p_flags = field 4 4 bs, p_offset = field 8 8 bs, p_vaddr = field 16 8 bs,
     p_paddr = field 24 8 bs, p_filesz = field 32 8 bs, p_memsz = field 40 8 bs, p_align = field 48 8 bs\<rparr>"

text \<open>Reading a structure of \<open>n\<close> bytes at an offset of the binary.\<close>

definition deref :: "u64 \<Rightarrow> nat \<Rightarrow> nat \<Rightarrow> u8 list \<Rightarrow> u8 list option" where
  "deref base at n binary =
     (if (unat base + at) mod 8 = 0 \<and> at + n \<le> length binary then Some (take n (drop at binary)) else None)"

section \<open>Validation and segments\<close>

definition validate :: "u64 \<Rightarrow> u8 list \<Rightarrow> (string + u64) option" where
  "validate base binary =
     (if length binary < 64 then Some (Inl ''binary too small'')
      else do {
        bs \<leftarrow> deref base 0 64 binary;
        let header = elf_header bs;
        if take 4 (e_ident header) \<noteq> ELF_MAGIC then Some (Inl ''not a valid ELF'')
        else if e_ident header ! 4 \<noteq> 2 then Some (Inl ''not 64-bit'')
        else if e_machine header \<noteq> 0x3E then Some (Inl ''not x86_64'')
        else Some (Inr (e_entry header))
      })"

text \<open>The loop over the program headers \<open>i..<e_phnum\<close>.\<close>

fun count_from :: "u64 \<Rightarrow> ElfHeader \<Rightarrow> u8 list \<Rightarrow> nat list \<Rightarrow> nat \<Rightarrow> nat option" where
  "count_from base header binary [] c = Some c"
| "count_from base header binary (i # is) c = do {
     skip \<leftarrow> usize_mul i (unat (e_phentsize header));
     offset \<leftarrow> usize_add (unat (e_phoff header)) skip;
     last_byte \<leftarrow> usize_add offset 56;
     if length binary < last_byte then Some c
     else do {
       bs \<leftarrow> deref base offset 56 binary;
       count_from base header binary is (if p_type (program_header bs) = PT_LOAD then c + 1 else c)
     }
   }"

definition count_load_segments :: "u64 \<Rightarrow> u8 list \<Rightarrow> nat option" where
  "count_load_segments base binary = do {
     bs \<leftarrow> deref base 0 64 binary;
     let header = elf_header bs;
     count_from base header binary [0..<unat (e_phnum header)] 0
   }"

section \<open>Processes\<close>

record Process =
  pid :: u64
  proc_name :: string
  proc_capabilities :: "u64 list"
  entry_point :: u64
  user_stack_top :: u64

definition USER_CODE_SELECTOR :: u16 where
  "USER_CODE_SELECTOR = 0x1B"

definition USER_DATA_SELECTOR :: u16 where
  "USER_DATA_SELECTOR = 0x23"

definition process_new :: "u64 \<Rightarrow> string \<Rightarrow> u64 \<Rightarrow> Process" where
  "process_new i n e = \<lparr>pid = i, proc_name = n, proc_capabilities = [], entry_point = e, user_stack_top = 0x00007FFFFFFFF000\<rparr>"

text \<open>\<open>enter_usermode\<close> loads the data segment registers and pushes the frame that \<open>iretq\<close> pops: instruction pointer on top.\<close>

record iret_frame =
  ir_rip :: u64
  ir_cs :: u64
  ir_rflags :: u64
  ir_rsp :: u64
  ir_ss :: u64

fun iretq :: "u64 list \<Rightarrow> (iret_frame \<times> u64 list) option" where
  "iretq (rip # cs # rflags # rsp # ss # stack) = Some (\<lparr>ir_rip = rip, ir_cs = cs, ir_rflags = rflags, ir_rsp = rsp, ir_ss = ss\<rparr>, stack)"
| "iretq _ = None"

definition enter_usermode :: "Process \<Rightarrow> u64 list \<Rightarrow> (u16 \<times> iret_frame \<times> u64 list) option" where
  "enter_usermode p stack =
     (let user_ds = USER_DATA_SELECTOR;
          stack = ucast USER_DATA_SELECTOR # stack;
          stack = user_stack_top p # stack;
          stack = 0x200 # stack;
          stack = ucast USER_CODE_SELECTOR # stack;
          stack = entry_point p # stack
      in map_option (Pair user_ds) (iretq stack))"

section \<open>Segment table\<close>

datatype Descriptor = KernelCode | KernelData | UserData | UserCode | TssSegment

record Selectors =
  code_selector :: u16
  data_selector :: u16
  tss_selector :: u16

text \<open>The table is built by the \<open>append\<close> of the x86_64 crate, a parameter.\<close>

definition gdt_build :: "(Descriptor \<Rightarrow> 'g \<Rightarrow> u16 \<times> 'g) \<Rightarrow> 'g \<Rightarrow> 'g \<times> Selectors" where
  "gdt_build add_entry gdt =
     (let (code, gdt) = add_entry KernelCode gdt;
          (data, gdt) = add_entry KernelData gdt;
          (user_data, gdt) = add_entry UserData gdt;
          (user_code, gdt) = add_entry UserCode gdt;
          (tss, gdt) = add_entry TssSegment gdt
      in (gdt, \<lparr>code_selector = code, data_selector = data, tss_selector = tss\<rparr>))"

section \<open>Correctness of the loader\<close>

text \<open>The bytes of a header, as a linker writes them.\<close>

definition header_bytes :: "ElfHeader \<Rightarrow> u8 list" where
  "header_bytes h = e_ident h @ to_le_bytes (e_type h) @ to_le_bytes (e_machine h) @ to_le_bytes (e_version h) @ to_le_bytes (e_entry h)
     @ to_le_bytes (e_phoff h) @ to_le_bytes (e_shoff h) @ to_le_bytes (e_flags h) @ to_le_bytes (e_ehsize h) @ to_le_bytes (e_phentsize h)
     @ to_le_bytes (e_phnum h) @ to_le_bytes (e_shentsize h) @ to_le_bytes (e_shnum h) @ to_le_bytes (e_shstrndx h)"

lemma length_header_bytes: "length (e_ident h) = 16 \<Longrightarrow> length (header_bytes h) = 64"
  by (simp add: header_bytes_def)

lemma elf_header_bytes:
  assumes "length (e_ident h) = 16" shows "elf_header (header_bytes h) = h"
  using assms by (cases h) (simp add: elf_header_def header_bytes_def field_def)

lemma deref_header:
  "length (e_ident h) = 16 \<Longrightarrow> 8 dvd unat base \<Longrightarrow> deref base 0 64 (header_bytes h @ rest) = Some (header_bytes h)"
  by (simp add: deref_def length_header_bytes mod_eq_0_iff_dvd)

text \<open>The offset of a program header, and whether it lies in the binary.\<close>

definition ph_offset :: "ElfHeader \<Rightarrow> nat \<Rightarrow> nat" where
  "ph_offset h i = unat (e_phoff h) + i * unat (e_phentsize h)"

definition is_load :: "ElfHeader \<Rightarrow> u8 list \<Rightarrow> nat \<Rightarrow> bool" where
  "is_load h binary i \<longleftrightarrow> ph_offset h i + 56 \<le> length binary \<and> field (ph_offset h i) 4 binary = PT_LOAD"

lemma ph_offset_mono: "i \<le> j \<Longrightarrow> ph_offset h i \<le> ph_offset h j"
  by (simp add: ph_offset_def)

lemma field_take: "at + n \<le> m \<Longrightarrow> field at n (take m bs) = field at n bs"
  by (simp add: field_def drop_take take_take min_def)

lemma field_drop: "field at n (drop k bs) = field (k + at) n bs"
  by (simp add: field_def add.commute)

lemma deref_ph_type:
  assumes "deref base at 56 binary = Some bs" shows "p_type (program_header bs) = field at 4 binary"
  using assms by (auto simp: deref_def program_header_def field_take field_drop split: if_splits)

lemma count_from_exact:
  assumes "\<forall>i \<le> n. ph_offset h i + 56 < 2 ^ 64" "\<forall>i \<le> n. (unat base + ph_offset h i) mod 8 = 0" "m \<le> n"
  shows "count_from base h binary [m..<n] c = Some (c + length (filter (is_load h binary) [m..<n]))"
  using assms
proof (induction "n - m" arbitrary: m c)
  case (Suc k)
  then have m: "[m..<n] = m # [Suc m..<n]" by (simp add: upt_conv_Cons)
  have off: "usize_mul m (unat (e_phentsize h)) = Some (m * unat (e_phentsize h))"
    "usize_add (unat (e_phoff h)) (m * unat (e_phentsize h)) = Some (ph_offset h m)" "usize_add (ph_offset h m) 56 = Some (ph_offset h m + 56)"
    using Suc.prems(1,3) by (fastforce simp: usize_mul_def usize_add_def ph_offset_def)+
  show ?case
  proof (cases "length binary < ph_offset h m + 56")
    case True
    have "\<not> is_load h binary i" if "m \<le> i" for i using True ph_offset_mono [OF that, of h] by (simp add: is_load_def)
    then have "filter (is_load h binary) [m..<n] = []" by (auto simp: filter_empty_conv)
    then show ?thesis using True off unfolding m by simp
  next
    case False
    then obtain bs where bs: "deref base (ph_offset h m) 56 binary = Some bs"
      using Suc.prems(2,3) by (auto simp: deref_def)
    have "is_load h binary m \<longleftrightarrow> p_type (program_header bs) = PT_LOAD"
      using False deref_ph_type [OF bs] by (simp add: is_load_def)
    moreover have "count_from base h binary [Suc m..<n] c' = Some (c' + length (filter (is_load h binary) [Suc m..<n]))" for c'
      using Suc by simp
    ultimately show ?thesis using False off bs unfolding m by simp
  qed
qed simp

text \<open>C40. The loader reads executables exactly.  For a binary at an aligned address, \<open>validate\<close> refuses one shorter than the header, checks magic number, class and
  machine in that order and otherwise returns the entry point that the header names; and when the program headers are aligned and their
  offsets do not overflow, \<open>count_load_segments\<close> returns the number of program headers of type \<open>PT_LOAD\<close> that lie inside the binary.\<close>

theorem elf_exact:
  assumes "8 dvd unat base" "length (e_ident h) = 16" "length short < 64"
    and offsets: "\<forall>i \<le> unat (e_phnum h). ph_offset h i + 56 < 2 ^ 64 \<and> 8 dvd ph_offset h i"
  shows "validate base short = Some (Inl ''binary too small'')
    \<and> validate base (header_bytes h @ rest) = Some
       (if take 4 (e_ident h) \<noteq> ELF_MAGIC then Inl ''not a valid ELF''
        else if e_ident h ! 4 \<noteq> 2 then Inl ''not 64-bit''
        else if e_machine h \<noteq> 0x3E then Inl ''not x86_64''
        else Inr (e_entry h))
    \<and> count_load_segments base (header_bytes h @ rest) = Some (card {i. i < unat (e_phnum h) \<and> is_load h (header_bytes h @ rest) i})"
proof -
  have al: "\<forall>i \<le> unat (e_phnum h). (unat base + ph_offset h i) mod 8 = 0"
    using assms(1) offsets by (metis dvd_add mod_eq_0_iff_dvd)
  have "count_load_segments base (header_bytes h @ rest) = Some (length (filter (is_load h (header_bytes h @ rest)) [0..<unat (e_phnum h)]))"
    using count_from_exact [of "unat (e_phnum h)" h base 0 "header_bytes h @ rest" 0] al offsets assms(1,2)
    by (simp add: count_load_segments_def deref_header elf_header_bytes)
  moreover have "length (filter P [0..<n]) = card {i. i < n \<and> P i}" for P n
    by (simp add: length_filter_conv_card cong: conj_cong)
  ultimately show ?thesis using assms(1,2,3)
    by (simp add: validate_def deref_header elf_header_bytes length_header_bytes)
qed

definition demo_elf :: ElfHeader where
  "demo_elf = \<lparr>e_ident = ELF_MAGIC @ [2] @ replicate 11 0, e_type = 2, e_machine = 0x3E, e_version = 1, e_entry = 0x401000, e_phoff = 64, e_shoff = 0,
     e_flags = 0, e_ehsize = 64, e_phentsize = 56, e_phnum = 2, e_shentsize = 0, e_shnum = 0, e_shstrndx = 0\<rparr>"

theorem elf_exact_witness:
  "validate 0x1000 (header_bytes demo_elf @ to_le_bytes PT_LOAD @ replicate 108 0) = Some (Inr 0x401000)"
proof -
  have "\<forall>i \<le> unat (e_phnum demo_elf). ph_offset demo_elf i + 56 < 2 ^ 64 \<and> 8 dvd ph_offset demo_elf i"
    by (auto simp: demo_elf_def ph_offset_def)
  then show ?thesis
    using elf_exact [of "0x1000" demo_elf "[]" "to_le_bytes PT_LOAD @ replicate 108 0"] by (simp add: demo_elf_def ELF_MAGIC_def)
qed

text \<open>The offsets are not checked: a header that names program headers at the end of the address space stops the kernel.\<close>

lemma elf_offset_panics:
  assumes "8 dvd unat base" "length (e_ident h) = 16" "2 ^ 64 - 56 \<le> unat (e_phoff h)" "0 < unat (e_phnum h)"
  shows "count_load_segments base (header_bytes h @ rest) = None"
proof -
  have "[0..<unat (e_phnum h)] = 0 # [1..<unat (e_phnum h)]" using assms(4) by (simp add: upt_conv_Cons)
  then show ?thesis using assms
    by (simp add: count_load_segments_def deref_header elf_header_bytes usize_mul_def usize_add_def)
qed

section \<open>Selectors\<close>

text \<open>\<open>append\<close> puts a descriptor at the next free index and returns the index times eight, with the privilege level 3 for a user segment.\<close>

definition dpl :: "Descriptor \<Rightarrow> u16" where
  "dpl d = (if d = UserData \<or> d = UserCode then 3 else 0)"

definition appends :: "(Descriptor \<Rightarrow> 'g \<Rightarrow> u16 \<times> 'g) \<Rightarrow> ('g \<Rightarrow> Descriptor option list) \<Rightarrow> bool" where
  "appends add_entry entries \<longleftrightarrow> (\<forall>d g. let (sel, g') = add_entry d g in
     sel = of_nat (8 * length (entries g)) + dpl d
     \<and> entries g' = entries g @ (if d = TssSegment then [Some d, None] else [Some d]))"

lemma appendsD:
  "appends add_entry entries \<Longrightarrow> add_entry d g = (sel, g') \<Longrightarrow>
   sel = of_nat (8 * length (entries g)) + dpl d \<and> entries g' = entries g @ (if d = TssSegment then [Some d, None] else [Some d])"
  unfolding appends_def by (drule spec [of _ d], drule spec [of _ g]) simp

text \<open>The segment that a selector names.\<close>

definition named :: "('g \<Rightarrow> Descriptor option list) \<Rightarrow> 'g \<Rightarrow> u16 \<Rightarrow> Descriptor option" where
  "named entries g sel = (let i = unat sel div 8 in if i < length (entries g) then entries g ! i else None)"

text \<open>The frame of \<open>enter_usermode\<close> names the user data segment as code and the user code segment as stack: \<^verbatim>\<open>process.rs\<close> and \<^verbatim>\<open>gdt.rs\<close> give
  the two segments in opposite order.\<close>

lemma user_selectors_swapped:
  assumes "appends add_entry entries" "entries gdt = [None]" "gdt_build add_entry gdt = (g, s)"
  shows "named entries g USER_CODE_SELECTOR = Some UserData \<and> named entries g USER_DATA_SELECTOR = Some UserCode
    \<and> named entries g (code_selector s) = Some KernelCode \<and> named entries g (data_selector s) = Some KernelData
    \<and> named entries g (tss_selector s) = Some TssSegment"
proof -
  obtain c1 g1 where 1: "add_entry KernelCode gdt = (c1, g1)" by force
  obtain c2 g2 where 2: "add_entry KernelData g1 = (c2, g2)" by force
  obtain c3 g3 where 3: "add_entry UserData g2 = (c3, g3)" by force
  obtain c4 g4 where 4: "add_entry UserCode g3 = (c4, g4)" by force
  obtain c5 g5 where 5: "add_entry TssSegment g4 = (c5, g5)" by force
  note a = appendsD [OF assms(1)]
  have "entries g5 = [None, Some KernelCode, Some KernelData, Some UserData, Some UserCode, Some TssSegment, None]" "c1 = 8" "c2 = 16" "c5 = 40"
    using a [OF 1] a [OF 2] a [OF 3] a [OF 4] a [OF 5] assms(2) by (simp_all add: dpl_def)
  moreover have "g = g5" "s = \<lparr>code_selector = c1, data_selector = c2, tss_selector = c5\<rparr>"
    using assms(3) 1 2 3 4 5 by (simp_all add: gdt_build_def)
  ultimately show ?thesis by (simp add: named_def USER_CODE_SELECTOR_def USER_DATA_SELECTOR_def)
qed

end
