(* ===== verification/Virtio_Net.thy ===== *)
theory Virtio_Net
  imports Virtio_Blk_Init
begin

text \<open>
  \<^verbatim>\<open>net/virtio_net.rs\<close>, the network driver, and the two tokens of \<^verbatim>\<open>net/stack.rs\<close> through which the TCP/IP stack uses it.

  Each of the two queues is memory that the driver shares with the device: descriptors, available ring, used ring and the packet
  buffers behind the descriptors.  The driver lays out 256 entries whatever size the device reports, and the model keeps the arrays apart, as they are
  when the device has 256 entries.  Port accesses act on this memory because a device may work while it is notified.
\<close>

section \<open>State\<close>

definition NET_QUEUE_SIZE :: nat where "NET_QUEUE_SIZE = 256"
definition RX_QUEUE :: u16 where "RX_QUEUE = 0"
definition TX_QUEUE :: u16 where "TX_QUEUE = 1"
definition PACKET_BUF_SIZE :: nat where "PACKET_BUF_SIZE = 1514 + 12"
definition VIRTIO_NET_DEVICE_LEGACY :: u16 where "VIRTIO_NET_DEVICE_LEGACY = 0x1000"
definition VIRTIO_NET_MAC :: u16 where "VIRTIO_NET_MAC = 0x14"
definition VIRTIO_NET_F_MAC :: u32 where "VIRTIO_NET_F_MAC = push_bit 5 1"

record NetRing =
  nr_descs :: "VirtqDesc list"
  nr_avail :: VirtqAvail
  nr_used :: VirtqUsed
  nr_buffers :: "u8 list list"

record 'h net_shared =
  rx_ring :: NetRing
  tx_ring :: NetRing
  net_hw :: 'h

record NetQueue =
  num_free :: nat
  free_head :: nat
  last_used :: u16

record VirtioNetDevice =
  net_base :: u16
  mac :: "u8 list"
  rx_queue :: "NetQueue option"
  tx_queue :: "NetQueue option"
  net_initialized :: bool

definition net_empty :: VirtioNetDevice where
  "net_empty = \<lparr>net_base = 0, mac = replicate 6 0, rx_queue = None, tx_queue = None, net_initialized = False\<rparr>"

section \<open>Packets\<close>

text \<open>A descriptor is written again and goes to the next slot of the available ring.\<close>

definition post_desc :: "nat \<Rightarrow> u32 \<Rightarrow> u16 \<Rightarrow> NetRing \<Rightarrow> NetRing option" where
  "post_desc desc_idx len flags r = do {
     d \<leftarrow> index (nr_descs r) desc_idx;
     let descs = (nr_descs r)[desc_idx := d\<lparr>vd_len := len, vd_flags := flags, vd_next := 0\<rparr>];
     let a = nr_avail r;
     ring \<leftarrow> store (avail_ring a) (unat (avail_idx a mod of_nat NET_QUEUE_SIZE)) (of_nat desc_idx);
     Some (r\<lparr>nr_descs := descs, nr_avail := a\<lparr>avail_ring := ring, avail_idx := avail_idx a + 1\<rparr>\<rparr>)
   }"

definition net_notify :: "'h net_shared ports \<Rightarrow> VirtioNetDevice \<Rightarrow> u16 \<Rightarrow> 'h net_shared \<Rightarrow> 'h net_shared option" where
  "net_notify io d queue m = do {
     port \<leftarrow> checked_add (net_base d) VIRTIO_QUEUE_NOTIFY;
     Some (out16 io port queue m)
   }"

definition net_receive :: "'h net_shared ports \<Rightarrow> u8 list \<Rightarrow> VirtioNetDevice \<times> 'h net_shared
    \<Rightarrow> (nat option \<times> u8 list \<times> VirtioNetDevice \<times> 'h net_shared) option" where
  "net_receive io buffer = (\<lambda>(d, m).
     if \<not> net_initialized d then Some (None, buffer, d, m)
     else case rx_queue d of
       None \<Rightarrow> Some (None, buffer, d, m)
     | Some rx \<Rightarrow>
         if last_used rx = used_idx (nr_used (rx_ring m)) then Some (None, buffer, d, m)
         else do {
           used_elem \<leftarrow> index (used_ring (nr_used (rx_ring m))) (unat (last_used rx mod of_nat NET_QUEUE_SIZE));
           let desc_idx = unat (used_elem_id used_elem);
           let len = unat (used_elem_len used_elem);
           if 10 < len then do {
             let copy_len = min (len - 10) (length buffer);
             buf \<leftarrow> index (nr_buffers (rx_ring m)) desc_idx;
             payload \<leftarrow> slice buf 10 (10 + copy_len);
             buffer \<leftarrow> blit 0 payload buffer;
             ring \<leftarrow> post_desc desc_idx (of_nat PACKET_BUF_SIZE) VRING_DESC_F_WRITE (rx_ring m);
             m \<leftarrow> net_notify io d RX_QUEUE (m\<lparr>rx_ring := ring\<rparr>);
             Some (Some copy_len, buffer, d\<lparr>rx_queue := Some (rx\<lparr>last_used := last_used rx + 1\<rparr>)\<rparr>, m)
           }
           else Some (None, buffer, d\<lparr>rx_queue := Some (rx\<lparr>last_used := last_used rx + 1\<rparr>)\<rparr>, m)
         })"

function reclaim_tx :: "u16 \<Rightarrow> NetQueue \<Rightarrow> NetQueue option" where
  "reclaim_tx u tx =
     (if last_used tx \<noteq> u then do {
        n \<leftarrow> usize_add (num_free tx) 1;
        reclaim_tx u (tx\<lparr>num_free := n, last_used := last_used tx + 1\<rparr>)
      }
      else Some tx)"
  by pat_completeness auto
termination reclaim_tx
proof (relation "measure (\<lambda>(u, tx). unat (u - last_used tx))")
  fix u tx and n :: nat
  assume "last_used tx \<noteq> u"
  then have "u - last_used tx \<noteq> 0" by simp
  then have "unat (u - last_used tx - 1) < unat (u - last_used tx)"
    by (simp add: unat_minus_one unat_gt_0)
  then show "((u, tx\<lparr>num_free := n, last_used := last_used tx + 1\<rparr>), u, tx) \<in> measure (\<lambda>(u, tx). unat (u - last_used tx))"
    by (simp add: algebra_simps)
qed simp

declare reclaim_tx.simps [simp del]

text \<open>The header of ten zero bytes and the packet, cut to the size of the buffer.\<close>

definition fill_packet :: "u8 list \<Rightarrow> u8 list \<Rightarrow> (nat \<times> u8 list) option" where
  "fill_packet data buf = do {
     buf \<leftarrow> blit 0 (replicate 10 0) buf;
     room \<leftarrow> usize_sub (length buf) 10;
     let copy_len = min (length data) room;
     part \<leftarrow> slice data 0 copy_len;
     buf \<leftarrow> blit 10 part buf;
     Some (copy_len, buf)
   }"

definition net_transmit :: "'h net_shared ports \<Rightarrow> u8 list \<Rightarrow> VirtioNetDevice \<times> 'h net_shared
    \<Rightarrow> ((string + unit) \<times> VirtioNetDevice \<times> 'h net_shared) option" where
  "net_transmit io data = (\<lambda>(d, m).
     if \<not> net_initialized d then Some (Inl ''not initialized'', d, m)
     else case tx_queue d of
       None \<Rightarrow> Some (Inl ''no TX queue'', d, m)
     | Some tx \<Rightarrow> do {
         tx \<leftarrow> (if num_free tx = 0 then reclaim_tx (used_idx (nr_used (tx_ring m))) tx else Some tx);
         if num_free tx = 0 then Some (Inl ''TX queue full'', d\<lparr>tx_queue := Some tx\<rparr>, m)
         else do {
           let desc_idx = free_head tx;
           n \<leftarrow> usize_sub (num_free tx) 1;
           let tx = tx\<lparr>free_head := (free_head tx + 1) mod NET_QUEUE_SIZE, num_free := n\<rparr>;
           let d = d\<lparr>tx_queue := Some tx\<rparr>;
           buf \<leftarrow> index (nr_buffers (tx_ring m)) desc_idx;
           (copy_len, buf) \<leftarrow> fill_packet data buf;
           ring \<leftarrow> post_desc desc_idx (of_nat (10 + copy_len)) 0 ((tx_ring m)\<lparr>nr_buffers := (nr_buffers (tx_ring m))[desc_idx := buf]\<rparr>);
           m \<leftarrow> net_notify io d TX_QUEUE (m\<lparr>tx_ring := ring\<rparr>);
           Some (Inr (), d, m)
         }
       })"

section \<open>Tokens\<close>

text \<open>\<open>OxideNetDevice::receive\<close>: a packet of at most 1514 bytes.\<close>

definition token_receive :: "'h net_shared ports \<Rightarrow> VirtioNetDevice \<times> 'h net_shared \<Rightarrow> (u8 list option \<times> VirtioNetDevice \<times> 'h net_shared) option" where
  "token_receive io s = do {
     (r, buffer, s) \<leftarrow> net_receive io (replicate 1514 0) s;
     Some (map_option (\<lambda>len. take len buffer) r, s)
   }"

text \<open>\<open>OxideTxToken::consume\<close>: the stack fills a buffer, and the result of the transmission is dropped.\<close>

definition token_transmit :: "'h net_shared ports \<Rightarrow> nat \<Rightarrow> (u8 list \<Rightarrow> 'r \<times> u8 list) \<Rightarrow> VirtioNetDevice \<times> 'h net_shared
    \<Rightarrow> ('r \<times> VirtioNetDevice \<times> 'h net_shared) option" where
  "token_transmit io len f s = do {
     let (result, buffer) = f (replicate len 0);
     (_, s) \<leftarrow> net_transmit io buffer s;
     Some (result, s)
   }"

section \<open>Initialisation\<close>

definition net_ring :: "bool \<Rightarrow> 'h net_shared \<Rightarrow> NetRing" where
  "net_ring is_rx m = (if is_rx then rx_ring m else tx_ring m)"

definition set_net_ring :: "bool \<Rightarrow> NetRing \<Rightarrow> 'h net_shared \<Rightarrow> 'h net_shared" where
  "set_net_ring is_rx r m = (if is_rx then m\<lparr>rx_ring := r\<rparr> else m\<lparr>tx_ring := r\<rparr>)"

text \<open>The memory of a queue after \<open>write_bytes\<close>; the buffers do not exist yet.\<close>

definition zero_ring :: NetRing where
  "zero_ring = \<lparr>nr_descs = replicate NET_QUEUE_SIZE \<lparr>vd_addr = 0, vd_len = 0, vd_flags = 0, vd_next = 0\<rparr>,
     nr_avail = \<lparr>avail_flags = 0, avail_idx = 0, avail_ring = replicate NET_QUEUE_SIZE 0\<rparr>,
     nr_used = \<lparr>used_flags = 0, used_idx = 0, used_ring = replicate NET_QUEUE_SIZE \<lparr>used_elem_id = 0, used_elem_len = 0\<rparr>\<rparr>,
     nr_buffers = []\<rparr>"

text \<open>One pass of the loop that gives a descriptor its buffer.  The heap gives the buffer its address, or is exhausted.\<close>

definition add_buffer :: "(nat \<Rightarrow> u64 option) \<Rightarrow> u64 \<Rightarrow> bool \<Rightarrow> nat \<Rightarrow> NetRing \<Rightarrow> NetRing option" where
  "add_buffer heap hhdm is_rx i r = do {
     ptr \<leftarrow> heap i;
     buf_phys \<leftarrow> checked_sub ptr hhdm;
     descs \<leftarrow> store (nr_descs r) i \<lparr>vd_addr = ptr, vd_len = of_nat PACKET_BUF_SIZE, vd_flags = (if is_rx then VRING_DESC_F_WRITE else 0), vd_next = 0\<rparr>;
     ring \<leftarrow> (if is_rx then store (avail_ring (nr_avail r)) i (of_nat i) else Some (avail_ring (nr_avail r)));
     Some (r\<lparr>nr_descs := descs, nr_buffers := nr_buffers r @ [replicate PACKET_BUF_SIZE 0], nr_avail := (nr_avail r)\<lparr>avail_ring := ring\<rparr>\<rparr>)
   }"

definition net_pages :: "nat \<Rightarrow> nat" where
  "net_pages queue_size = (16 * queue_size + (6 + 2 * queue_size) + (6 + 8 * queue_size) + 4096 + 4095) div 4096"

definition setup_net_queue :: "'h net_shared ports \<Rightarrow> (nat \<Rightarrow> u64 option) \<Rightarrow> u16 \<Rightarrow> u16 \<Rightarrow> u64 \<Rightarrow> bool \<Rightarrow> BitmapFrameAllocator option \<times> 'h net_shared
    \<Rightarrow> (NetQueue option \<times> BitmapFrameAllocator option \<times> 'h net_shared) option" where
  "setup_net_queue io heap base queue_idx hhdm is_rx = (\<lambda>(fa, m). do {
     port \<leftarrow> checked_add base VIRTIO_QUEUE_SELECT;
     let m = out16 io port queue_idx m;
     port \<leftarrow> checked_add base VIRTIO_QUEUE_SIZE;
     let (w, m) = in16 io port m;
     let queue_size = unat w;
     if queue_size = 0 then Some (None, fa, m)
     else
       (case fa of
          None \<Rightarrow> Some (None, None, m)
        | Some a \<Rightarrow> do {
            (r, a) \<leftarrow> alloc_pages allocate_frame (net_pages queue_size) a;
            case r of
              None \<Rightarrow> Some (None, Some a, m)
            | Some f \<Rightarrow> do {
                let phys_base = start_address f;
                virt_base \<leftarrow> checked_add phys_base hhdm;
                avail_at \<leftarrow> checked_add virt_base (of_nat (16 * queue_size));
                used_at \<leftarrow> checked_add virt_base (of_nat (((16 * queue_size + (6 + 2 * queue_size) + 4095) div 4096) * 4096));
                let m = set_net_ring is_rx zero_ring m;
                port \<leftarrow> checked_add base VIRTIO_QUEUE_ADDR;
                let m = out32 io port (ucast (phys_base div 4096)) m;
                ring \<leftarrow> for_each (add_buffer heap hhdm is_rx) [0..<queue_size] (net_ring is_rx m);
                let m = set_net_ring is_rx ring m;
                m \<leftarrow> (if is_rx then do {
                   let m = set_net_ring is_rx (ring\<lparr>nr_avail := (nr_avail ring)\<lparr>avail_idx := of_nat queue_size\<rparr>\<rparr>) m;
                   port \<leftarrow> checked_add base VIRTIO_QUEUE_NOTIFY;
                   Some (out16 io port queue_idx m)
                 } else Some m);
                Some (Some \<lparr>num_free = (if is_rx then 0 else queue_size), free_head = 0, last_used = 0\<rparr>, Some a, m)
              }
          })
   })"

definition find_net :: "'h ports \<Rightarrow> 'h \<Rightarrow> PciDevice option \<times> 'h" where
  "find_net io h =
     (let (r, h) = find_device io VIRTIO_PCI_VENDOR VIRTIO_NET_DEVICE_LEGACY h
      in case r of
           Some dev \<Rightarrow> (Some dev, h)
         | None \<Rightarrow> let (ds, h) = find_by_vendor io VIRTIO_PCI_VENDOR h in (List.find (\<lambda>d. pci_subclass d = 0x00 \<and> class_code d = 0x02) ds, h))"

fun read_mac :: "'h ports \<Rightarrow> u16 \<Rightarrow> nat list \<Rightarrow> 'h \<Rightarrow> (u8 list \<times> 'h) option" where
  "read_mac io base [] h = Some ([], h)"
| "read_mac io base (i # is) h = do {
     port \<leftarrow> checked_add base VIRTIO_NET_MAC;
     port \<leftarrow> checked_add port (of_nat i);
     let (b, h) = in8 io port h;
     (bs, h) \<leftarrow> read_mac io base is h;
     Some (b # bs, h)
   }"

definition net_init :: "'h net_shared ports \<Rightarrow> (u16 \<Rightarrow> nat \<Rightarrow> u64 option) \<Rightarrow> u64 \<Rightarrow> (VirtioNetDevice \<times> bool) \<times> BitmapFrameAllocator option \<times> 'h net_shared
    \<Rightarrow> ((VirtioNetDevice \<times> bool) \<times> BitmapFrameAllocator option \<times> 'h net_shared) option" where
  "net_init io heap hhdm = (\<lambda>((dev, found), fa, m).
     let (r, m) = find_net io m in
     case r of
       None \<Rightarrow> Some ((dev\<lparr>mac := [0x52, 0x54, 0x00, 0x12, 0x34, 0x56], net_initialized := False\<rparr>, found), fa, m)
     | Some pci_dev \<Rightarrow>
         (let bar0 = bars pci_dev ! 0 in
          if bar0 AND 1 = 0 then Some ((dev, found), fa, m)
          else do {
            let base = ucast (bar0 AND 0xFFFC);
            let m = enable_bus_master io pci_dev m;
            port \<leftarrow> checked_add base VIRTIO_DEVICE_STATUS;
            let m = out8 io port VIRTIO_STATUS_RESET m;
            let m = out8 io port VIRTIO_STATUS_ACKNOWLEDGE m;
            m \<leftarrow> add_status io base VIRTIO_STATUS_DRIVER m;
            port \<leftarrow> checked_add base VIRTIO_DEVICE_FEATURES;
            let (device_features, m) = in32 io port m;
            port \<leftarrow> checked_add base VIRTIO_GUEST_FEATURES;
            let m = out32 io port (device_features AND VIRTIO_NET_F_MAC) m;
            (mac_addr, m) \<leftarrow> read_mac io base [0..<6] m;
            (rx, fa, m) \<leftarrow> setup_net_queue io (heap RX_QUEUE) base RX_QUEUE hhdm True (fa, m);
            (tx, fa, m) \<leftarrow> setup_net_queue io (heap TX_QUEUE) base TX_QUEUE hhdm False (fa, m);
            m \<leftarrow> add_status io base VIRTIO_STATUS_DRIVER_OK m;
            Some ((\<lparr>net_base = base, mac = mac_addr, rx_queue = rx, tx_queue = tx, net_initialized = True\<rparr>, True), fa, m)
          }))"

end
