(* ===== verification/Virtio_Net_Theorems.thy ===== *)
theory Virtio_Net_Theorems
  imports Virtio_Net "HOL-Library.Sublist"
begin

text \<open>
  The network driver and its device as two queues: every packet the driver accepts goes out once, in order and unchanged, and every
  frame the device stores comes in once and in order, with the device working at any moment.
\<close>

section \<open>The device\<close>

text \<open>What a device may do with the shared memory: finish the oldest packet of the transmit queue, store a frame in the oldest buffer of the receive
  queue, or work without touching the queues.  \<open>wire\<close> and \<open>inbox\<close> are the packets it has sent and the frames it has stored.\<close>

definition give_used :: "VirtqUsedElem \<Rightarrow> VirtqUsed \<Rightarrow> VirtqUsed" where
  "give_used e u = u\<lparr>used_ring := (used_ring u)[unat (used_idx u) mod 256 := e], used_idx := used_idx u + 1\<rparr>"

definition oldest :: "NetRing \<Rightarrow> nat" where
  "oldest r = unat (avail_ring (nr_avail r) ! (unat (used_idx (nr_used r)) mod 256))"

definition outstanding :: "NetRing \<Rightarrow> bool" where
  "outstanding r \<longleftrightarrow> used_idx (nr_used r) \<noteq> avail_idx (nr_avail r)"

definition tx_finish :: "u32 \<Rightarrow> NetRing \<Rightarrow> NetRing" where
  "tx_finish n r = r\<lparr>nr_used := give_used \<lparr>used_elem_id = of_nat (oldest r), used_elem_len = n\<rparr> (nr_used r)\<rparr>"

definition rx_store :: "u8 list \<Rightarrow> u8 list \<Rightarrow> NetRing \<Rightarrow> NetRing" where
  "rx_store header frame r = r\<lparr>
     nr_buffers := (nr_buffers r)[oldest r := header @ frame @ drop (length header + length frame) (nr_buffers r ! oldest r)],
     nr_used := give_used \<lparr>used_elem_id = of_nat (oldest r), used_elem_len = of_nat (length header + length frame)\<rparr> (nr_used r)\<rparr>"

inductive dev_step :: "('h \<Rightarrow> u8 list list) \<Rightarrow> ('h \<Rightarrow> u8 list list) \<Rightarrow> 'h net_shared \<Rightarrow> 'h net_shared \<Rightarrow> bool" for wire inbox where
  transmit: "\<lbrakk>outstanding (tx_ring m); wire h = wire (net_hw m) @ [drop 10 (take (unat (vd_len (nr_descs (tx_ring m) ! oldest (tx_ring m)))) (nr_buffers (tx_ring m) ! oldest (tx_ring m)))];
     inbox h = inbox (net_hw m)\<rbrakk> \<Longrightarrow> dev_step wire inbox m (m\<lparr>tx_ring := tx_finish n (tx_ring m), net_hw := h\<rparr>)"
| receive: "\<lbrakk>outstanding (rx_ring m); length header = 10; frame \<noteq> []; 10 + length frame \<le> unat (vd_len (nr_descs (rx_ring m) ! oldest (rx_ring m)));
     wire h = wire (net_hw m); inbox h = inbox (net_hw m) @ [frame]\<rbrakk>
     \<Longrightarrow> dev_step wire inbox m (m\<lparr>rx_ring := rx_store header frame (rx_ring m), net_hw := h\<rparr>)"
| inside: "\<lbrakk>wire h = wire (net_hw m); inbox h = inbox (net_hw m)\<rbrakk> \<Longrightarrow> dev_step wire inbox m (m\<lparr>net_hw := h\<rparr>)"

section \<open>Indices\<close>

text \<open>The ring indices are counters modulo 65536, and the slots are counters modulo 256.\<close>

lemma unat_u16 [simp]: "unat (of_nat n :: u16) = n mod 65536"
  by (simp add: unat_of_nat)

lemma slot_of [simp]: "n mod 65536 mod 256 = n mod (256 :: nat)" "n mod 256 mod 65536 = n mod (256 :: nat)"
  by (simp_all add: mod_mod_cancel)

lemma slot_mod [simp]: "unat ((of_nat n :: u16) mod of_nat NET_QUEUE_SIZE) = n mod 256"
  by (simp add: NET_QUEUE_SIZE_def unat_mod mod_mod_cancel)

lemma counter_eq:
  assumes "a \<le> b" "b \<le> a + 256" shows "(of_nat a :: u16) = of_nat b \<longleftrightarrow> a = b"
proof
  assume "(of_nat a :: u16) = of_nat b"
  then have "a mod 65536 = b mod 65536" by (metis unat_u16)
  then have "65536 dvd b - a" using assms(1) by (metis mod_eq_dvd_iff_nat)
  then show "a = b" using dvd_imp_le [of 65536 "b - a"] assms by linarith
qed simp

lemma slots_differ:
  assumes "k < n" "n < k + 256" shows "k mod 256 \<noteq> n mod (256 :: nat)"
proof
  assume "k mod 256 = n mod 256"
  then have "256 dvd n - k" using assms(1) by (metis less_imp_le_nat mod_eq_dvd_iff_nat)
  then show False using dvd_imp_le [of 256 "n - k"] assms by linarith
qed

lemma slot_less [simp]: "n mod 256 < (256 :: nat)"
  by simp

lemma slot_u32 [simp]: "unat (of_nat (n mod 256) :: u32) = n mod 256"
  by (rule unat_of_nat_small) (simp add: less_trans [OF slot_less])

lemma packet_len [simp]: "n \<le> 1516 \<Longrightarrow> unat (10 + of_nat n :: u32) = 10 + n"
  using unat_of_nat_small [where 'a = 32, of "10 + n"] by simp

section \<open>The invariant\<close>

definition ring_shape :: "NetRing \<Rightarrow> bool" where
  "ring_shape r \<longleftrightarrow> length (nr_descs r) = 256 \<and> length (avail_ring (nr_avail r)) = 256 \<and> length (used_ring (nr_used r)) = 256
     \<and> length (nr_buffers r) = 256 \<and> (\<forall>b \<in> set (nr_buffers r). length b = PACKET_BUF_SIZE)"

text \<open>The k-th packet waits in slot k: \<open>acc\<close> are the packets accepted so far, \<open>w\<close> those the device has finished.\<close>

definition waits :: "NetRing \<Rightarrow> nat \<Rightarrow> u8 list \<Rightarrow> bool" where
  "waits r k p \<longleftrightarrow> avail_ring (nr_avail r) ! (k mod 256) = of_nat (k mod 256) \<and> length p \<le> 1516
     \<and> vd_len (nr_descs r ! (k mod 256)) = of_nat (10 + length p) \<and> take (10 + length p) (nr_buffers r ! (k mod 256)) = replicate 10 0 @ p"

definition tx_ok :: "NetQueue \<Rightarrow> NetRing \<Rightarrow> u8 list list \<Rightarrow> u8 list list \<Rightarrow> bool" where
  "tx_ok q r acc w \<longleftrightarrow> ring_shape r \<and> prefix w acc \<and> (\<exists>seen. seen \<le> length w \<and> length acc \<le> seen + 256
     \<and> num_free q = seen + 256 - length acc \<and> last_used q = of_nat seen) \<and> free_head q = length acc mod 256
     \<and> used_idx (nr_used r) = of_nat (length w) \<and> avail_idx (nr_avail r) = of_nat (length acc)
     \<and> (\<forall>k. length w \<le> k \<and> k < length acc \<longrightarrow> waits r k (acc ! k))"

text \<open>The k-th frame is stored in slot k: \<open>fs\<close> are the frames the device has stored, \<open>n\<close> is how many of them the driver has taken.\<close>

definition stored_at :: "NetRing \<Rightarrow> nat \<Rightarrow> u8 list \<Rightarrow> bool" where
  "stored_at r k f \<longleftrightarrow> used_ring (nr_used r) ! (k mod 256) = \<lparr>used_elem_id = of_nat (k mod 256), used_elem_len = of_nat (10 + length f)\<rparr>
     \<and> f \<noteq> [] \<and> length f \<le> 1516 \<and> take (length f) (drop 10 (nr_buffers r ! (k mod 256))) = f"

definition rx_ok :: "NetQueue \<Rightarrow> NetRing \<Rightarrow> u8 list list \<Rightarrow> nat \<Rightarrow> bool" where
  "rx_ok q r fs n \<longleftrightarrow> ring_shape r \<and> n \<le> length fs \<and> length fs \<le> n + 256 \<and> last_used q = of_nat n
     \<and> used_idx (nr_used r) = of_nat (length fs) \<and> avail_idx (nr_avail r) = of_nat (n + 256)
     \<and> (\<forall>k < 256. avail_ring (nr_avail r) ! k = of_nat k \<and> vd_len (nr_descs r ! k) = of_nat PACKET_BUF_SIZE)
     \<and> (\<forall>k. n \<le> k \<and> k < length fs \<longrightarrow> stored_at r k (fs ! k))"

lemma tx_ok_length: "tx_ok q r acc w \<Longrightarrow> length w \<le> length acc \<and> length acc \<le> length w + 256"
  by (auto simp: tx_ok_def dest: prefix_length_le)

section \<open>Steps of the device\<close>

lemma tx_oldest:
  assumes "tx_ok q r acc w" "outstanding r"
  shows "length w < length acc" "oldest r = length w mod 256" "waits r (length w) (acc ! length w)"
proof -
  have len: "length w \<le> length acc" "length acc \<le> length w + 256" using tx_ok_length [OF assms(1)] by auto
  have "(of_nat (length w) :: u16) \<noteq> of_nat (length acc)" using assms by (simp add: tx_ok_def outstanding_def)
  then show less: "length w < length acc" using len by (metis le_neq_implies_less)
  then show w: "waits r (length w) (acc ! length w)" using assms(1) by (simp add: tx_ok_def)
  then have "avail_ring (nr_avail r) ! (length w mod 256) = of_nat (length w mod 256)" by (simp add: waits_def)
  then show "oldest r = length w mod 256" using assms(1) by (simp add: oldest_def tx_ok_def)
qed

lemma tx_finish_ok:
  assumes ok: "tx_ok q r acc w" and p: "outstanding r"
  shows "tx_ok q (tx_finish n r) acc (w @ [drop 10 (take (unat (vd_len (nr_descs r ! oldest r))) (nr_buffers r ! oldest r))])"
proof -
  note o = tx_oldest [OF ok p]
  have "unat (vd_len (nr_descs r ! oldest r)) = 10 + length (acc ! length w)"
    using o(2,3) by (simp add: waits_def unat_of_nat)
  then have pkt: "drop 10 (take (unat (vd_len (nr_descs r ! oldest r))) (nr_buffers r ! oldest r)) = acc ! length w"
    using o(2,3) by (simp add: waits_def)
  obtain seen where s: "seen \<le> length w" "length acc \<le> seen + 256" "num_free q = seen + 256 - length acc" "last_used q = of_nat seen"
    using ok by (auto simp: tx_ok_def)
  have "prefix (w @ [acc ! length w]) acc"
    using ok o(1) by (metis append_one_prefix prefix_def tx_ok_def)
  with s ok show ?thesis unfolding pkt
    by (auto simp: tx_ok_def tx_finish_def give_used_def ring_shape_def waits_def intro!: exI [of _ seen])
qed

lemma rx_store_ok:
  assumes ok: "rx_ok q r fs n" and p: "outstanding r" and "length header = 10" "frame \<noteq> []"
    "10 + length frame \<le> unat (vd_len (nr_descs r ! oldest r))"
  shows "rx_ok q (rx_store header frame r) (fs @ [frame]) n"
proof -
  have len: "n \<le> length fs" "length fs \<le> n + 256" using ok by (simp_all add: rx_ok_def)
  have "(of_nat (length fs) :: u16) \<noteq> of_nat (n + 256)" using ok p by (simp add: rx_ok_def outstanding_def)
  then have less: "length fs < n + 256" using len by (metis le_neq_implies_less)
  have o: "oldest r = length fs mod 256" using ok by (simp add: oldest_def rx_ok_def)
  then have fr: "length frame \<le> 1516" using assms(5) ok by (simp add: rx_ok_def PACKET_BUF_SIZE_def)
  have old: "stored_at (rx_store header frame r) k (fs ! k)" if "n \<le> k" "k < length fs" for k
  proof -
    have "k mod 256 \<noteq> length fs mod 256" using slots_differ [of k "length fs"] that less by simp
    moreover have "stored_at r k (fs ! k)" using ok that by (simp add: rx_ok_def)
    ultimately show ?thesis using ok by (simp add: stored_at_def rx_store_def give_used_def o rx_ok_def)
  qed
  have new: "stored_at (rx_store header frame r) (length fs) frame"
    using ok assms(3,4) fr by (simp add: stored_at_def rx_store_def give_used_def o rx_ok_def ring_shape_def)
  have len_buf: "length (nr_buffers r ! (length fs mod 256)) = PACKET_BUF_SIZE"
    using ok by (simp add: rx_ok_def ring_shape_def)
  have shape: "ring_shape (rx_store header frame r)"
    using ok assms(3) fr len_buf
    by (auto simp: ring_shape_def rx_store_def give_used_def o rx_ok_def PACKET_BUF_SIZE_def dest!: set_update_subset_insert [THEN subsetD])
  have "stored_at (rx_store header frame r) k ((fs @ [frame]) ! k)" if "n \<le> k" "k < length (fs @ [frame])" for k
    using old [of k] new that by (cases "k = length fs") (auto simp: nth_append)
  then show ?thesis using ok len less shape
    by (simp add: rx_ok_def rx_store_def give_used_def)
qed

definition net_inv :: "('h \<Rightarrow> u8 list list) \<Rightarrow> ('h \<Rightarrow> u8 list list) \<Rightarrow> VirtioNetDevice \<Rightarrow> 'h net_shared \<Rightarrow> u8 list list \<Rightarrow> nat \<Rightarrow> bool" where
  "net_inv wire inbox d m acc n \<longleftrightarrow> net_initialized d \<and> unat (net_base d) + 16 < 2 ^ 16
     \<and> (\<exists>rx tx. rx_queue d = Some rx \<and> tx_queue d = Some tx
          \<and> rx_ok rx (rx_ring m) (inbox (net_hw m)) n \<and> tx_ok tx (tx_ring m) acc (wire (net_hw m)))"

lemma dev_step_inv:
  assumes "dev_step wire inbox m m'" "net_inv wire inbox d m acc n" shows "net_inv wire inbox d m' acc n"
  using assms by (cases rule: dev_step.cases) (auto simp: net_inv_def intro: tx_finish_ok rx_store_ok)

lemma dev_steps_inv:
  "(dev_step wire inbox)\<^sup>*\<^sup>* m m' \<Longrightarrow> net_inv wire inbox d m acc n \<Longrightarrow> net_inv wire inbox d m' acc n"
  by (induction rule: rtranclp_induct) (auto intro: dev_step_inv)

text \<open>What the device has stored only grows.\<close>

lemma dev_step_grows: "dev_step wire inbox m m' \<Longrightarrow> prefix (inbox (net_hw m)) (inbox (net_hw m'))"
  by (cases rule: dev_step.cases) auto

lemma dev_steps_grow: "(dev_step wire inbox)\<^sup>*\<^sup>* m m' \<Longrightarrow> prefix (inbox (net_hw m)) (inbox (net_hw m'))"
  by (induction rule: rtranclp_induct) (auto intro: prefix_order.trans dev_step_grows)

text \<open>The device may take any of its steps while the driver writes a notification.\<close>

definition notifies :: "('h \<Rightarrow> u8 list list) \<Rightarrow> ('h \<Rightarrow> u8 list list) \<Rightarrow> 'h net_shared ports \<Rightarrow> bool" where
  "notifies wire inbox io \<longleftrightarrow> (\<forall>p v m. (dev_step wire inbox)\<^sup>*\<^sup>* m (out16 io p v m))"

lemma net_notify_inv:
  assumes "notifies wire inbox io" "net_inv wire inbox d m acc n" "unat (net_base d') + 16 < 2 ^ 16"
  obtains m' where "net_notify io d' v m = Some m'" "net_inv wire inbox d m' acc n" "prefix (inbox (net_hw m)) (inbox (net_hw m'))"
proof -
  have "checked_add (net_base d') VIRTIO_QUEUE_NOTIFY = Some (net_base d' + 0x10)"
    using assms(3) by (simp add: checked_add_def VIRTIO_QUEUE_NOTIFY_def)
  moreover have "(dev_step wire inbox)\<^sup>*\<^sup>* m (out16 io (net_base d' + 0x10) v m)" using assms(1) by (simp add: notifies_def)
  ultimately show thesis using dev_steps_inv [OF _ assms(2)] by (intro that) (auto simp: net_notify_def dest: dev_steps_grow)
qed

section \<open>Steps of the driver\<close>

lemma reclaim_tx_ok:
  assumes "seen \<le> done" "done \<le> seen + 256" "last_used q = of_nat seen" "num_free q \<le> 256"
  shows "reclaim_tx (of_nat done) q = Some (q\<lparr>num_free := num_free q + (done - seen), last_used := of_nat done\<rparr>)"
proof -
  have "reclaim_tx (of_nat done) q = Some (q\<lparr>num_free := num_free q + (done - seen), last_used := of_nat done\<rparr>)"
    if "num_free q + (done - seen) < 2 ^ 64" using assms(1-3) that
  proof (induction "done - seen" arbitrary: seen q)
    case 0
    then show ?case by (subst reclaim_tx.simps) simp
  next
    case (Suc k)
    have room: "num_free q + 1 < 2 ^ 64" using Suc.prems(4) Suc.hyps(2) by linarith
    have "(of_nat seen :: u16) \<noteq> of_nat done" using counter_eq [of seen "done"] Suc by simp
    then have "reclaim_tx (of_nat done) q = reclaim_tx (of_nat done) (q\<lparr>num_free := num_free q + 1, last_used := of_nat (Suc seen)\<rparr>)"
      using Suc.prems(3) room by (subst reclaim_tx.simps) (simp add: usize_add_def add.commute)
    also have "\<dots> = Some (q\<lparr>num_free := num_free q + 1 + (done - Suc seen), last_used := of_nat done\<rparr>)"
      using Suc.hyps(1) [of "Suc seen" "q\<lparr>num_free := num_free q + 1, last_used := of_nat (Suc seen)\<rparr>"] Suc.hyps(2) Suc.prems by simp
    finally show ?case using Suc.hyps(2) by simp
  qed
  then show ?thesis using assms by simp
qed

lemma tx_reclaimed:
  assumes ok: "tx_ok q r acc w" and full: "num_free q = 0"
  obtains q' where "reclaim_tx (used_idx (nr_used r)) q = Some q'" "tx_ok q' r acc w" "num_free q' = length w + 256 - length acc"
proof -
  obtain seen where s: "seen \<le> length w" "length acc \<le> seen + 256" "num_free q = seen + 256 - length acc" "last_used q = of_nat seen"
    using ok by (auto simp: tx_ok_def)
  have "length w \<le> length acc" "length acc = seen + 256" using tx_ok_length [OF ok] s full by auto
  then have rc: "reclaim_tx (used_idx (nr_used r)) q = Some (q\<lparr>num_free := length w - seen, last_used := of_nat (length w)\<rparr>)"
    using ok reclaim_tx_ok [of seen "length w" q] s full by (simp add: tx_ok_def)
  have tx: "tx_ok (q\<lparr>num_free := length w - seen, last_used := of_nat (length w)\<rparr>) r acc w"
    using ok \<open>length acc = seen + 256\<close> \<open>length w \<le> length acc\<close> s(1) by (auto simp: tx_ok_def intro!: exI [of _ "length w"])
  show thesis by (rule that [OF rc tx]) (simp add: \<open>length acc = seen + 256\<close>)
qed

lemma fill_packet_ok:
  assumes "length buf = PACKET_BUF_SIZE"
  shows "fill_packet data buf = Some (length (take 1516 data), replicate 10 0 @ take 1516 data @ drop (10 + length (take 1516 data)) buf)"
  using assms by (simp add: fill_packet_def PACKET_BUF_SIZE_def blit_def usize_sub_def slice_def Let_def min_def add.commute)

lemma tx_post_ok:
  assumes ok: "tx_ok q r acc w" and free: "0 < num_free q"
    and p: "length p \<le> 1516" and buf: "length buf = PACKET_BUF_SIZE" "take (10 + length p) buf = replicate 10 0 @ p"
  obtains r' where "post_desc (length acc mod 256) (of_nat (10 + length p)) 0 (r\<lparr>nr_buffers := (nr_buffers r)[length acc mod 256 := buf]\<rparr>) = Some r'"
    "tx_ok (q\<lparr>free_head := (free_head q + 1) mod NET_QUEUE_SIZE, num_free := num_free q - 1\<rparr>) r' (acc @ [p]) w"
proof -
  define r' where "r' = r\<lparr>nr_buffers := (nr_buffers r)[length acc mod 256 := buf],
     nr_descs := (nr_descs r)[length acc mod 256 := (nr_descs r ! (length acc mod 256))\<lparr>vd_len := of_nat (10 + length p), vd_flags := 0, vd_next := 0\<rparr>],
     nr_avail := (nr_avail r)\<lparr>avail_ring := (avail_ring (nr_avail r))[length acc mod 256 := of_nat (length acc mod 256)], avail_idx := of_nat (length acc) + 1\<rparr>\<rparr>"
  obtain seen where s: "seen \<le> length w" "length acc \<le> seen + 256" "num_free q = seen + 256 - length acc" "last_used q = of_nat seen"
    using ok by (auto simp: tx_ok_def)
  have shape: "ring_shape r" "avail_idx (nr_avail r) = of_nat (length acc)" using ok by (simp_all add: tx_ok_def)
  have post: "post_desc (length acc mod 256) (of_nat (10 + length p)) 0 (r\<lparr>nr_buffers := (nr_buffers r)[length acc mod 256 := buf]\<rparr>) = Some r'"
    using shape by (simp add: post_desc_def index_def store_def ring_shape_def r'_def Let_def)
  have shape': "ring_shape r'"
    using shape(1) buf(1) by (auto simp: ring_shape_def r'_def dest!: set_update_subset_insert [THEN subsetD])
  have old: "waits r' k (acc ! k)" if "length w \<le> k" "k < length acc" for k
  proof -
    have "k mod 256 \<noteq> length acc mod 256" using slots_differ [of k "length acc"] that s free by simp
    moreover have "waits r k (acc ! k)" using ok that by (simp add: tx_ok_def)
    ultimately show ?thesis by (simp add: waits_def r'_def)
  qed
  have new: "waits r' (length acc) p" using p buf(2) shape(1) by (simp add: waits_def r'_def ring_shape_def)
  have w: "waits r' k ((acc @ [p]) ! k)" if "length w \<le> k" "k < length (acc @ [p])" for k
    using old [of k] new that by (cases "k = length acc") (auto simp: nth_append)
  have "tx_ok (q\<lparr>free_head := (free_head q + 1) mod NET_QUEUE_SIZE, num_free := num_free q - 1\<rparr>) r' (acc @ [p]) w"
    unfolding tx_ok_def
  proof (intro conjI)
    show "\<exists>seen \<le> length w. length (acc @ [p]) \<le> seen + 256
        \<and> num_free (q\<lparr>free_head := (free_head q + 1) mod NET_QUEUE_SIZE, num_free := num_free q - 1\<rparr>) = seen + 256 - length (acc @ [p])
        \<and> last_used (q\<lparr>free_head := (free_head q + 1) mod NET_QUEUE_SIZE, num_free := num_free q - 1\<rparr>) = of_nat seen"
      using s free by (intro exI [of _ seen]) simp
    show "\<forall>k. length w \<le> k \<and> k < length (acc @ [p]) \<longrightarrow> waits r' k ((acc @ [p]) ! k)" using w by blast
  qed (use ok shape' in \<open>auto simp: tx_ok_def r'_def NET_QUEUE_SIZE_def mod_Suc_eq\<close>)
  with post show thesis by (rule that)
qed

lemma net_transmit_ok:
  assumes n: "notifies wire inbox io" and inv: "net_inv wire inbox d m acc k"
  obtains (full) d' where "net_transmit io data (d, m) = Some (Inl ''TX queue full'', d', m)" "length acc = length (wire (net_hw m)) + 256"
      "net_inv wire inbox d' m acc k"
  | (sent) d' m' where "net_transmit io data (d, m) = Some (Inr (), d', m')" "length acc < length (wire (net_hw m)) + 256"
      "net_inv wire inbox d' m' (acc @ [take 1516 data]) k" "prefix (inbox (net_hw m)) (inbox (net_hw m'))"
proof -
  obtain rx tx where q: "rx_queue d = Some rx" "tx_queue d = Some tx" "rx_ok rx (rx_ring m) (inbox (net_hw m)) k"
    "tx_ok tx (tx_ring m) acc (wire (net_hw m))" "net_initialized d" "unat (net_base d) + 16 < 2 ^ 16"
    using inv by (auto simp: net_inv_def)
  obtain tx' where tx': "(if num_free tx = 0 then reclaim_tx (used_idx (nr_used (tx_ring m))) tx else Some tx) = Some tx'"
    "tx_ok tx' (tx_ring m) acc (wire (net_hw m))" "num_free tx' = 0 \<longleftrightarrow> length acc = length (wire (net_hw m)) + 256"
  proof (cases "num_free tx = 0")
    case True
    then show ?thesis using tx_reclaimed [OF q(4) True] tx_ok_length [OF q(4)] that by (metis diff_is_0_eq le_antisym le_refl)
  next
    case False
    then have "length acc < length (wire (net_hw m)) + 256" using q(4) by (auto simp: tx_ok_def)
    then show ?thesis using that [of tx] False q(4) by simp
  qed
  show thesis
  proof (cases "num_free tx' = 0")
    case True
    then have "net_transmit io data (d, m) = Some (Inl ''TX queue full'', d\<lparr>tx_queue := Some tx'\<rparr>, m)"
      using q(2,5) tx'(1) by (simp add: net_transmit_def)
    moreover have "net_inv wire inbox (d\<lparr>tx_queue := Some tx'\<rparr>) m acc k" using q tx'(2) by (simp add: net_inv_def)
    ultimately show thesis using True tx'(3) by (intro full) simp_all
  next
    case False
    define p where "p = take 1516 data"
    define tx'' where "tx'' = tx'\<lparr>free_head := (free_head tx' + 1) mod NET_QUEUE_SIZE, num_free := num_free tx' - 1\<rparr>"
    define old where "old = nr_buffers (tx_ring m) ! (length acc mod 256)"
    have len: "length old = PACKET_BUF_SIZE" "length (nr_buffers (tx_ring m)) = 256" "free_head tx' = length acc mod 256"
      using tx'(2) by (simp_all add: tx_ok_def ring_shape_def old_def)
    have pl: "length p \<le> 1516" by (simp add: p_def)
    define buf where "buf = replicate 10 0 @ p @ drop (10 + length p) old"
    have buf: "length buf = PACKET_BUF_SIZE" "take (10 + length p) buf = replicate 10 0 @ p"
      using len(1) pl by (simp_all add: buf_def PACKET_BUF_SIZE_def)
    obtain r' where r': "post_desc (length acc mod 256) (of_nat (10 + length p)) 0 ((tx_ring m)\<lparr>nr_buffers := (nr_buffers (tx_ring m))[length acc mod 256 := buf]\<rparr>) = Some r'"
      "tx_ok tx'' r' (acc @ [p]) (wire (net_hw m))"
      using False tx_post_ok [OF tx'(2) _ pl buf] unfolding tx''_def by auto
    define d' where "d' = d\<lparr>tx_queue := Some tx''\<rparr>"
    have i: "net_inv wire inbox d' (m\<lparr>tx_ring := r'\<rparr>) (acc @ [p]) k" "unat (net_base d') + 16 < 2 ^ 16"
      using q r'(2) by (simp_all add: net_inv_def d'_def)
    obtain m' where m': "net_notify io d' TX_QUEUE (m\<lparr>tx_ring := r'\<rparr>) = Some m'" "net_inv wire inbox d' m' (acc @ [p]) k"
      "prefix (inbox (net_hw m)) (inbox (net_hw m'))"
      using net_notify_inv [OF n i, of TX_QUEUE] by auto
    have fill: "fill_packet data old = Some (length p, buf)"
      unfolding buf_def p_def by (rule fill_packet_ok [OF len(1)])
    have d': "d\<lparr>tx_queue := Some (tx'\<lparr>free_head := Suc (length acc mod 256) mod NET_QUEUE_SIZE, num_free := num_free tx' - Suc 0\<rparr>)\<rparr> = d'"
      by (simp add: d'_def tx''_def len(3))
    have "net_transmit io data (d, m) = Some (Inr (), d', m')"
      using q(2,5) tx'(1) False len fill r'(1) m'(1)
      by (simp add: net_transmit_def index_def usize_sub_def old_def [symmetric] d' Let_def)
    then show thesis using m'(2,3) tx'(3) tx_ok_length [OF tx'(2)] False by (intro sent) (auto simp: p_def)
  qed
qed

lemma rx_post_ok:
  assumes ok: "rx_ok q r fs n" and more: "n < length fs"
  obtains r' where "post_desc (n mod 256) (of_nat PACKET_BUF_SIZE) VRING_DESC_F_WRITE r = Some r'"
    "rx_ok (q\<lparr>last_used := last_used q + 1\<rparr>) r' fs (Suc n)"
proof -
  define r' where "r' = r\<lparr>nr_descs := (nr_descs r)[n mod 256 := (nr_descs r ! (n mod 256))\<lparr>vd_len := of_nat PACKET_BUF_SIZE, vd_flags := VRING_DESC_F_WRITE, vd_next := 0\<rparr>],
     nr_avail := (nr_avail r)\<lparr>avail_ring := (avail_ring (nr_avail r))[n mod 256 := of_nat (n mod 256)], avail_idx := of_nat (n + 256) + 1\<rparr>\<rparr>"
  have "ring_shape r" "avail_idx (nr_avail r) = of_nat (n + 256)" using ok by (simp_all add: rx_ok_def)
  moreover have "unat ((of_nat (n + 256) :: u16) mod of_nat NET_QUEUE_SIZE) = n mod 256" by (simp only: slot_mod) simp
  ultimately have post: "post_desc (n mod 256) (of_nat PACKET_BUF_SIZE) VRING_DESC_F_WRITE r = Some r'"
    by (simp add: post_desc_def index_def store_def ring_shape_def r'_def Let_def del: of_nat_add)
  have "rx_ok (q\<lparr>last_used := last_used q + 1\<rparr>) r' fs (Suc n)"
    using ok more by (auto simp: rx_ok_def r'_def ring_shape_def stored_at_def nth_list_update add.commute add.left_commute)
  with post show thesis by (rule that)
qed

lemma token_receive_ok:
  assumes n: "notifies wire inbox io" and inv: "net_inv wire inbox d m acc k"
  obtains (empty) "token_receive io (d, m) = Some (None, d, m)" "length (inbox (net_hw m)) = k"
  | (frame) d' m' where "token_receive io (d, m) = Some (Some (take 1514 (inbox (net_hw m) ! k)), d', m')" "k < length (inbox (net_hw m))"
      "net_inv wire inbox d' m' acc (Suc k)" "prefix (inbox (net_hw m)) (inbox (net_hw m'))"
proof -
  obtain rx tx where q: "rx_queue d = Some rx" "tx_queue d = Some tx" "rx_ok rx (rx_ring m) (inbox (net_hw m)) k"
    "tx_ok tx (tx_ring m) acc (wire (net_hw m))" "net_initialized d" "unat (net_base d) + 16 < 2 ^ 16"
    using inv by (auto simp: net_inv_def)
  define fs where "fs = inbox (net_hw m)"
  have len: "k \<le> length fs" "length fs \<le> k + 256" "last_used rx = of_nat k" "used_idx (nr_used (rx_ring m)) = of_nat (length fs)"
    using q(3) by (simp_all add: rx_ok_def fs_def)
  show thesis
  proof (cases "k = length fs")
    case True
    then have "token_receive io (d, m) = Some (None, d, m)" using q(1,5) len by (simp add: token_receive_def net_receive_def)
    with True show thesis by (intro empty) (simp_all add: fs_def)
  next
    case False
    then have k: "k < length fs" using len(1) by simp
    define f where "f = fs ! k"
    have st: "stored_at (rx_ring m) k f" using q(3) k by (simp add: rx_ok_def fs_def f_def)
    obtain r' where r': "post_desc (k mod 256) (of_nat PACKET_BUF_SIZE) VRING_DESC_F_WRITE (rx_ring m) = Some r'"
      "rx_ok (rx\<lparr>last_used := last_used rx + 1\<rparr>) r' fs (Suc k)"
      using rx_post_ok [OF q(3) k [unfolded fs_def]] unfolding fs_def by metis
    define d' where "d' = d\<lparr>rx_queue := Some (rx\<lparr>last_used := last_used rx + 1\<rparr>)\<rparr>"
    have i: "net_inv wire inbox d' (m\<lparr>rx_ring := r'\<rparr>) acc (Suc k)" using q r'(2) by (simp add: net_inv_def d'_def fs_def)
    obtain m' where m': "net_notify io d RX_QUEUE (m\<lparr>rx_ring := r'\<rparr>) = Some m'" "net_inv wire inbox d' m' acc (Suc k)"
      "prefix (inbox (net_hw m)) (inbox (net_hw m'))"
      using net_notify_inv [OF n i q(6), of RX_QUEUE] by auto
    have shape: "length (used_ring (nr_used (rx_ring m))) = 256" "length (nr_buffers (rx_ring m)) = 256"
      "length (nr_buffers (rx_ring m) ! (k mod 256)) = PACKET_BUF_SIZE"
      using q(3) by (simp_all add: rx_ok_def ring_shape_def)
    have ne: "(of_nat k :: u16) \<noteq> of_nat (length fs)" using counter_eq [OF len(1,2)] False by simp
    define c where "c = min (length f) 1514"
    have pay: "slice (nr_buffers (rx_ring m) ! (k mod 256)) 10 (10 + c) = Some (take 1514 f)"
    proof -
      have "take c (drop 10 (nr_buffers (rx_ring m) ! (k mod 256))) = take c (take (length f) (drop 10 (nr_buffers (rx_ring m) ! (k mod 256))))"
        by (simp add: c_def min_def)
      also have "\<dots> = take 1514 f" using st by (simp add: stored_at_def c_def min_def)
      finally show ?thesis using shape(3) by (simp add: slice_def c_def PACKET_BUF_SIZE_def)
    qed
    have b: "blit 0 (take 1514 f) (replicate 1514 0) = Some (take 1514 f @ replicate (1514 - c) 0)" by (simp add: blit_def c_def)
    have "net_receive io (replicate 1514 0) (d, m) = Some (Some c, take 1514 f @ replicate (1514 - c) 0, d', m')"
      using q(1,5) len ne shape st pay b r'(1) m'(1)
      by (simp add: net_receive_def index_def stored_at_def c_def [symmetric] d'_def Let_def)
    then have "token_receive io (d, m) = Some (Some (take 1514 f), d', m')" by (simp add: token_receive_def c_def min_def)
    with m'(2,3) k show thesis by (intro frame) (simp_all add: f_def fs_def)
  qed
qed

section \<open>Runs\<close>

text \<open>The rings as initialisation leaves them: empty, with the 256 receive buffers posted.\<close>

definition fresh_ring :: "bool \<Rightarrow> NetRing \<Rightarrow> bool" where
  "fresh_ring is_rx r \<longleftrightarrow> ring_shape r \<and> used_idx (nr_used r) = 0 \<and> avail_idx (nr_avail r) = (if is_rx then 256 else 0)
     \<and> (is_rx \<longrightarrow> (\<forall>k < 256. avail_ring (nr_avail r) ! k = of_nat k \<and> vd_len (nr_descs r ! k) = of_nat PACKET_BUF_SIZE))"

definition net_fresh :: "VirtioNetDevice \<Rightarrow> 'h net_shared \<Rightarrow> bool" where
  "net_fresh d m \<longleftrightarrow> net_initialized d \<and> unat (net_base d) + 16 < 2 ^ 16
     \<and> rx_queue d = Some \<lparr>num_free = 0, free_head = 0, last_used = 0\<rparr> \<and> fresh_ring True (rx_ring m)
     \<and> tx_queue d = Some \<lparr>num_free = 256, free_head = 0, last_used = 0\<rparr> \<and> fresh_ring False (tx_ring m)"

text \<open>Calls of the driver and steps of the device in any order, with the packets accepted and the frames handed to the stack so far.\<close>

inductive net_run :: "('h \<Rightarrow> u8 list list) \<Rightarrow> ('h \<Rightarrow> u8 list list) \<Rightarrow> 'h net_shared ports \<Rightarrow> VirtioNetDevice \<Rightarrow> 'h net_shared \<Rightarrow> u8 list list \<Rightarrow> u8 list list \<Rightarrow> bool"
  for wire inbox io where
  start: "\<lbrakk>net_fresh d m; wire (net_hw m) = []; inbox (net_hw m) = []\<rbrakk> \<Longrightarrow> net_run wire inbox io d m [] []"
| device: "\<lbrakk>net_run wire inbox io d m acc got; dev_step wire inbox m m'\<rbrakk> \<Longrightarrow> net_run wire inbox io d m' acc got"
| accepted: "\<lbrakk>net_run wire inbox io d m acc got; net_transmit io data (d, m) = Some (Inr (), d', m')\<rbrakk>
     \<Longrightarrow> net_run wire inbox io d' m' (acc @ [take 1516 data]) got"
| refused: "\<lbrakk>net_run wire inbox io d m acc got; net_transmit io data (d, m) = Some (Inl e, d', m')\<rbrakk> \<Longrightarrow> net_run wire inbox io d' m' acc got"
| handed: "\<lbrakk>net_run wire inbox io d m acc got; token_receive io (d, m) = Some (Some frame, d', m')\<rbrakk> \<Longrightarrow> net_run wire inbox io d' m' acc (got @ [frame])"
| idle: "\<lbrakk>net_run wire inbox io d m acc got; token_receive io (d, m) = Some (None, d', m')\<rbrakk> \<Longrightarrow> net_run wire inbox io d' m' acc got"

lemma net_fresh_inv:
  assumes "net_fresh d m" "wire (net_hw m) = []" "inbox (net_hw m) = []" shows "net_inv wire inbox d m [] 0"
  using assms by (auto simp: net_fresh_def net_inv_def fresh_ring_def rx_ok_def tx_ok_def)

lemma net_run_inv:
  assumes "net_run wire inbox io d m acc got" and n: "notifies wire inbox io"
  shows "net_inv wire inbox d m acc (length got) \<and> prefix got (map (take 1514) (inbox (net_hw m)))"
  using assms(1)
proof induction
  case (start d m)
  then show ?case by (simp add: net_fresh_inv)
next
  case (device d m acc got m')
  then show ?case using dev_step_inv [OF device.hyps(2)] dev_step_grows [OF device.hyps(2)]
    by (meson map_mono_prefix prefix_order.trans)
next
  case (accepted d m acc got data d' m')
  then have i: "net_inv wire inbox d m acc (length got)" by simp
  show ?case
  proof (cases rule: net_transmit_ok [OF n i, where data = data, case_names full sent])
    case (sent d1 m1)
    then show ?thesis using accepted by (auto intro: map_mono_prefix prefix_order.trans)
  qed (use accepted in auto)
next
  case (refused d m acc got data e d' m')
  then have i: "net_inv wire inbox d m acc (length got)" by simp
  show ?case by (cases rule: net_transmit_ok [OF n i, where data = data, case_names full sent]) (use refused in auto)
next
  case (handed d m acc got frame d' m')
  then have i: "net_inv wire inbox d m acc (length got)" by simp
  show ?case
  proof (cases rule: token_receive_ok [OF n i, case_names empty frame])
    case (frame d1 m1)
    have "prefix (got @ [take 1514 (inbox (net_hw m) ! length got)]) (map (take 1514) (inbox (net_hw m)))"
      using handed.IH frame(2) append_one_prefix [of got "map (take 1514) (inbox (net_hw m))"] by simp
    then have "prefix (got @ [take 1514 (inbox (net_hw m) ! length got)]) (map (take 1514) (inbox (net_hw m1)))"
      using frame(4) by (meson map_mono_prefix prefix_order.trans)
    then show ?thesis using frame handed.hyps(2) by auto
  qed (use handed in auto)
next
  case (idle d m acc got d' m')
  then have i: "net_inv wire inbox d m acc (length got)" by simp
  show ?case by (cases rule: token_receive_ok [OF n i, case_names empty frame]) (use idle in auto)
qed


definition still_ports :: "'h net_shared ports" where
  "still_ports = \<lparr>in8 = (\<lambda>_ m. (0, m)), in16 = (\<lambda>_ m. (256, m)), in32 = (\<lambda>_ m. (0, m)), out8 = (\<lambda>_ _ m. m), out16 = (\<lambda>_ _ m. m), out32 = (\<lambda>_ _ m. m)\<rparr>"

definition demo_net :: VirtioNetDevice where
  "demo_net = \<lparr>net_base = 0xC000, mac = replicate 6 0, rx_queue = Some \<lparr>num_free = 0, free_head = 0, last_used = 0\<rparr>,
     tx_queue = Some \<lparr>num_free = 256, free_head = 0, last_used = 0\<rparr>, net_initialized = True\<rparr>"

definition demo_ring :: "bool \<Rightarrow> NetRing" where
  "demo_ring is_rx = zero_ring\<lparr>nr_descs := replicate 256 \<lparr>vd_addr = 0, vd_len = of_nat PACKET_BUF_SIZE, vd_flags = 0, vd_next = 0\<rparr>,
     nr_buffers := replicate 256 (replicate PACKET_BUF_SIZE 0),
     nr_avail := \<lparr>avail_flags = 0, avail_idx = (if is_rx then 256 else 0), avail_ring = map of_nat [0..<256]\<rparr>\<rparr>"

definition demo_net_shared :: "(u8 list list \<times> u8 list list) net_shared" where
  "demo_net_shared = \<lparr>rx_ring = demo_ring True, tx_ring = demo_ring False, net_hw = ([], [])\<rparr>"

lemma demo_net_run: "net_run fst snd still_ports demo_net demo_net_shared [] []"
  by (rule net_run.start)
    (simp_all add: net_fresh_def fresh_ring_def ring_shape_def demo_net_def demo_net_shared_def demo_ring_def zero_ring_def NET_QUEUE_SIZE_def)


text \<open>A used entry of ten bytes or less is dropped and its buffer is not posted again.\<close>

lemma runt_loses_buffer:
  assumes "net_initialized d" "rx_queue d = Some rx" "last_used rx \<noteq> used_idx (nr_used (rx_ring m))"
    and "index (used_ring (nr_used (rx_ring m))) (unat (last_used rx mod of_nat NET_QUEUE_SIZE)) = Some e" "unat (used_elem_len e) \<le> 10"
  shows "net_receive io buffer (d, m) = Some (None, buffer, d\<lparr>rx_queue := Some (rx\<lparr>last_used := last_used rx + 1\<rparr>)\<rparr>, m)"
  using assms by (simp add: net_receive_def)

text \<open>The driver indexes 256 descriptors whatever the device has: with fewer buffers, the first packet beyond them stops the kernel.\<close>

lemma small_queue_panics:
  assumes "net_initialized d" "tx_queue d = Some tx" "0 < num_free tx" "length (nr_buffers (tx_ring m)) \<le> free_head tx"
  shows "net_transmit io data (d, m) = None"
  using assms by (simp add: net_transmit_def index_def usize_sub_def Let_def)

section \<open>Initialisation\<close>

text \<open>The loop over the buffers of a device with 256 entries leaves a fresh ring.\<close>

lemma add_buffers:
  assumes "n \<le> 256" "\<forall>i < n. \<exists>p. heap i = Some p \<and> hhdm \<le> p"
  shows "\<exists>r. for_each (add_buffer heap hhdm is_rx) [0..<n] zero_ring = Some r
    \<and> length (nr_descs r) = 256 \<and> length (avail_ring (nr_avail r)) = 256 \<and> nr_used r = nr_used zero_ring \<and> avail_idx (nr_avail r) = 0
    \<and> nr_buffers r = replicate n (replicate PACKET_BUF_SIZE 0)
    \<and> (\<forall>k < n. vd_len (nr_descs r ! k) = of_nat PACKET_BUF_SIZE \<and> (is_rx \<longrightarrow> avail_ring (nr_avail r) ! k = of_nat k))"
  using assms
proof (induction n)
  case 0
  then show ?case by (simp add: zero_ring_def NET_QUEUE_SIZE_def)
next
  case (Suc n)
  then obtain r where r: "for_each (add_buffer heap hhdm is_rx) [0..<n] zero_ring = Some r" "length (nr_descs r) = 256"
    "length (avail_ring (nr_avail r)) = 256" "nr_used r = nr_used zero_ring" "avail_idx (nr_avail r) = 0"
    "nr_buffers r = replicate n (replicate PACKET_BUF_SIZE 0)"
    "\<forall>k < n. vd_len (nr_descs r ! k) = of_nat PACKET_BUF_SIZE \<and> (is_rx \<longrightarrow> avail_ring (nr_avail r) ! k = of_nat k)" by auto
  obtain p where p: "heap n = Some p" "hhdm \<le> p" using Suc.prems(2) by auto
  define r1 where "r1 = r\<lparr>nr_descs := (nr_descs r)[n := \<lparr>vd_addr = p, vd_len = of_nat PACKET_BUF_SIZE, vd_flags = (if is_rx then VRING_DESC_F_WRITE else 0), vd_next = 0\<rparr>],
     nr_buffers := nr_buffers r @ [replicate PACKET_BUF_SIZE 0],
     nr_avail := (nr_avail r)\<lparr>avail_ring := (if is_rx then (avail_ring (nr_avail r))[n := of_nat n] else avail_ring (nr_avail r))\<rparr>\<rparr>"
  have "add_buffer heap hhdm is_rx n r = Some r1"
    using p r(2,3) Suc.prems(1) by (simp add: add_buffer_def checked_sub_def store_def r1_def)
  then have "for_each (add_buffer heap hhdm is_rx) [0..<Suc n] zero_ring = Some r1" using r(1) by (simp add: for_each_append)
  moreover have "nr_buffers r1 = replicate (Suc n) (replicate PACKET_BUF_SIZE 0)"
    using r(6) by (simp add: r1_def replicate_append_same)
  ultimately show ?case using r(2-5,7) Suc.prems(1) by (auto simp: r1_def less_Suc_eq nth_list_update)
qed

text \<open>Until it is told that the driver is ready, the device leaves the queues alone.\<close>

definition quiet_net :: "'h net_shared ports \<Rightarrow> bool" where
  "quiet_net io \<longleftrightarrow> (\<forall>b p v m. net_ring b (out32 io p v m) = net_ring b m) \<and> (\<forall>b p v m. net_ring b (out16 io p v m) = net_ring b m)
     \<and> (\<forall>b p v m. net_ring b (out8 io p v m) = net_ring b m) \<and> (\<forall>b p m. net_ring b (snd (in16 io p m)) = net_ring b m)
     \<and> (\<forall>b p m. net_ring b (snd (in8 io p m)) = net_ring b m)"

lemma quiet_netD:
  assumes "quiet_net io"
  shows "net_ring b (out32 io p v m) = net_ring b m" "net_ring b (out16 io p v' m) = net_ring b m" "net_ring b (out8 io p v'' m) = net_ring b m"
    "in16 io p m = (w, m1) \<Longrightarrow> net_ring b m1 = net_ring b m" "in8 io p m = (w', m1) \<Longrightarrow> net_ring b m1 = net_ring b m"
  using assms unfolding quiet_net_def by (simp_all, (metis snd_conv)+)

lemma setup_net_queue_fresh:
  assumes "setup_net_queue io heap base qi hhdm is_rx (fa, m) = Some (Some q, fa', m')"
    and size: "\<forall>p m. fst (in16 io p m) = 256" and quiet: "quiet_net io"
    and heap: "\<forall>i < 256. \<exists>p. heap i = Some p \<and> hhdm \<le> p"
  shows "q = \<lparr>num_free = (if is_rx then 0 else 256), free_head = 0, last_used = 0\<rparr> \<and> fresh_ring is_rx (net_ring is_rx m')
    \<and> net_ring (\<not> is_rx) m' = net_ring (\<not> is_rx) m"
proof -
  obtain r where r: "for_each (add_buffer heap hhdm is_rx) [0..<256] zero_ring = Some r"
    "length (nr_descs r) = 256" "length (avail_ring (nr_avail r)) = 256" "nr_used r = nr_used zero_ring" "avail_idx (nr_avail r) = 0"
    "nr_buffers r = replicate 256 (replicate PACKET_BUF_SIZE 0)"
    "\<forall>k < 256. vd_len (nr_descs r ! k) = of_nat PACKET_BUF_SIZE \<and> (is_rx \<longrightarrow> avail_ring (nr_avail r) ! k = of_nat k)"
    using add_buffers [OF order_refl heap, of is_rx] by blast
  have get: "net_ring b (set_net_ring c x m) = (if b = c then x else net_ring b m)" for b c x and m :: "'a net_shared"
    by (simp add: net_ring_def set_net_ring_def)
  have size': "in16 io p m = (w, m1) \<Longrightarrow> w = 256 \<and> (\<forall>b. net_ring b m1 = net_ring b m)" for p m w m1
    using size quiet_netD(4) [OF quiet] by (metis fst_conv)
  have fresh: "fresh_ring is_rx (if is_rx then r\<lparr>nr_avail := (nr_avail r)\<lparr>avail_idx := 256\<rparr>\<rparr> else r)"
    using r by (auto simp: fresh_ring_def ring_shape_def zero_ring_def NET_QUEUE_SIZE_def)
  from assms(1) fresh r(1) show ?thesis
    unfolding setup_net_queue_def
    by (auto simp: get quiet_netD(1,2) [OF quiet] Let_def split: bind_splits prod.splits if_splits option.splits
        dest!: size')
qed

lemma read_mac_base:
  "read_mac io base [0..<6] m = Some (bs, m') \<Longrightarrow> unat base + 16 < 2 ^ 16"
  by (auto simp: upt_conv_Cons checked_add_Some_iff VIRTIO_NET_MAC_def split: bind_splits prod.splits)

text \<open>When initialisation finds a device with 256 entries and both queues can be allocated, it ends in the fresh state.\<close>

lemma net_init_fresh:
  assumes "net_init io heap hhdm ((dev, False), fa, m) = Some ((d, True), fa', m')" "rx_queue d \<noteq> None" "tx_queue d \<noteq> None"
    and size: "\<forall>p m. fst (in16 io p m) = 256" and quiet: "quiet_net io" and heap: "\<forall>q. \<forall>i < 256. \<exists>p. heap q i = Some p \<and> hhdm \<le> p"
  shows "net_fresh d m'"
proof -
  from assms(1) obtain base m0 bs m1 rx fa1 fa2 m2 tx m3 where i: "read_mac io base [0..<6] m0 = Some (bs, m1)"
    "setup_net_queue io (heap RX_QUEUE) base RX_QUEUE hhdm True (fa1, m1) = Some (rx, fa2, m2)"
    "setup_net_queue io (heap TX_QUEUE) base TX_QUEUE hhdm False (fa2, m2) = Some (tx, fa', m3)"
    "add_status io base VIRTIO_STATUS_DRIVER_OK m3 = Some m'"
    "d = \<lparr>net_base = base, mac = bs, rx_queue = rx, tx_queue = tx, net_initialized = True\<rparr>"
    unfolding net_init_def by (auto simp: Let_def split: bind_splits prod.splits if_splits option.splits)
  obtain q1 q2 where q: "rx = Some q1" "tx = Some q2" using assms(2,3) i(5) by auto
  have "net_ring b m' = net_ring b m3" for b
    using i(4) quiet_netD(3,5) [OF quiet] by (auto simp: add_status_def Let_def split: bind_splits prod.splits)
  then have "rx_ring m' = rx_ring m3" "tx_ring m' = tx_ring m3" by (metis net_ring_def)+
  then show ?thesis
    using setup_net_queue_fresh [OF i(2) [unfolded q] size quiet] setup_net_queue_fresh [OF i(3) [unfolded q] size quiet] heap read_mac_base [OF i(1)] i(5) q
    by (simp add: net_fresh_def net_ring_def)
qed

end
