(* ===== verification/Http_Text.thy ===== *)
theory Http_Text
  imports Rust_Text Byte_Codec
begin

text \<open>
  The parsers of \<^verbatim>\<open>net/http.rs\<close>: URLs and responses, with the string functions of the standard library they use.  A string is the list of its
  bytes; the delimiters are ASCII characters, so searching the bytes finds what searching the characters finds.
\<close>

section \<open>String functions\<close>

text \<open>\<open>find\<close> of a character or of a string, and \<open>strip_prefix\<close>.\<close>

fun find_elem :: "'a \<Rightarrow> 'a list \<Rightarrow> nat option" where
  "find_elem c [] = None"
| "find_elem c (x # xs) = (if x = c then Some 0 else map_option Suc (find_elem c xs))"

definition starts_with :: "'a list \<Rightarrow> 'a list \<Rightarrow> bool" where
  "starts_with p s \<longleftrightarrow> take (length p) s = p"

definition strip_pre :: "'a list \<Rightarrow> 'a list \<Rightarrow> 'a list option" where
  "strip_pre p s = (if starts_with p s then Some (drop (length p) s) else None)"

fun find_sub :: "'a list \<Rightarrow> 'a list \<Rightarrow> nat option" where
  "find_sub p [] = (if p = [] then Some 0 else None)"
| "find_sub p (x # xs) = (if starts_with p (x # xs) then Some 0 else map_option Suc (find_sub p xs))"

text \<open>The first of \<open>lines()\<close>: up to the line feed, without a carriage return before it.\<close>

definition strip_cr :: "u8 list \<Rightarrow> u8 list" where
  "strip_cr l = (if l \<noteq> [] \<and> last l = 13 then butlast l else l)"

definition first_line :: "u8 list \<Rightarrow> u8 list option" where
  "first_line s =
     (if s = [] then None
      else case find_elem 10 s of
        Some i \<Rightarrow> Some (strip_cr (take i s))
      | None \<Rightarrow> Some s)"

text \<open>\<open>split_whitespace\<close>: the number of bytes of the whitespace character at the front, if there is one.\<close>

fun ws_len :: "u8 list \<Rightarrow> nat" where
  "ws_len [] = 0"
| "ws_len (a # s) =
     (if (9 \<le> a \<and> a \<le> 13) \<or> a = 32 then 1
      else case s of
        [] \<Rightarrow> 0
      | b # s \<Rightarrow>
          if a = 0xC2 \<and> (b = 0x85 \<or> b = 0xA0) then 2
          else case s of
            [] \<Rightarrow> 0
          | c # s \<Rightarrow>
              if (a = 0xE1 \<and> b = 0x9A \<and> c = 0x80)
                 \<or> (a = 0xE2 \<and> b = 0x80 \<and> ((0x80 \<le> c \<and> c \<le> 0x8A) \<or> c = 0xA8 \<or> c = 0xA9 \<or> c = 0xAF))
                 \<or> (a = 0xE2 \<and> b = 0x81 \<and> c = 0x9F)
                 \<or> (a = 0xE3 \<and> b = 0x80 \<and> c = 0x80) then 3
              else 0)"

function words_from :: "u8 list \<Rightarrow> u8 list \<Rightarrow> u8 list list" where
  "words_from cur [] = (if cur = [] then [] else [cur])"
| "words_from cur (a # s) =
     (if 0 < ws_len (a # s) then (if cur = [] then [] else [cur]) @ words_from [] (drop (ws_len (a # s)) (a # s))
      else words_from (cur @ [a]) s)"
  by pat_completeness auto
termination words_from
  by (relation "measure (\<lambda>(_, s). length s)") auto

definition split_whitespace :: "u8 list \<Rightarrow> u8 list list" where
  "split_whitespace s = words_from [] s"

section \<open>URLs\<close>

definition parse_url :: "string \<Rightarrow> string \<times> u16 \<times> string" where
  "parse_url url =
     (let default_port = (if starts_with ''https://'' url then 443 else 80);
          url = (case strip_pre ''https://'' url of
                   Some r \<Rightarrow> r
                 | None \<Rightarrow> (case strip_pre ''http://'' url of Some r \<Rightarrow> r | None \<Rightarrow> url));
          (host_port, path) = (case find_elem CHR ''/'' url of
                   Some i \<Rightarrow> (take i url, drop i url)
                 | None \<Rightarrow> (url, ''/''));
          (host, port) = (case find_elem CHR '':'' host_port of
                   Some i \<Rightarrow> (take i host_port, (case parse_uint 65536 (drop (i + 1) host_port) of Some p \<Rightarrow> of_nat p | None \<Rightarrow> default_port))
                 | None \<Rightarrow> (host_port, default_port))
      in (host, port, path))"

section \<open>Responses\<close>

record HttpResponse =
  status_code :: u16
  body :: "u8 list"

definition crlf2 :: "u8 list" where
  "crlf2 = [13, 10, 13, 10]"

text \<open>\<open>None\<close> is the error \<open>ParseError\<close>.\<close>

definition parse_http_response :: "u8 list \<Rightarrow> HttpResponse option" where
  "parse_http_response data =
     (if \<not> utf8_valid data then None
      else do {
        status_line \<leftarrow> first_line data;
        w \<leftarrow> (case split_whitespace status_line of _ # w # _ \<Rightarrow> Some w | _ \<Rightarrow> None);
        code \<leftarrow> parse_uint 65536 (string_of w);
        let body_start = (case find_sub crlf2 data of Some i \<Rightarrow> i + 4 | None \<Rightarrow> length data);
        Some \<lparr>status_code = of_nat code, body = drop body_start data\<rparr>
      })"

section \<open>URLs are read back\<close>

lemma find_elem_append: "c \<notin> set xs \<Longrightarrow> find_elem c (xs @ c # ys) = Some (length xs)"
  by (induction xs) auto

lemma find_elem_None: "find_elem c xs = None \<longleftrightarrow> c \<notin> set xs"
  by (induction xs) auto

lemma starts_with_append [simp]: "starts_with p (p @ s)"
  by (simp add: starts_with_def)

lemma strip_pre_append [simp]: "strip_pre p (p @ s) = Some s"
  by (simp add: strip_pre_def)

text \<open>A URL as it is written: scheme, host, perhaps a port, perhaps a path.\<close>

datatype scheme = Https | Http | NoScheme

definition print_scheme :: "scheme \<Rightarrow> string" where
  "print_scheme s = (case s of Https \<Rightarrow> ''https://'' | Http \<Rightarrow> ''http://'' | NoScheme \<Rightarrow> [])"

definition print_url :: "scheme \<Rightarrow> string \<Rightarrow> u16 option \<Rightarrow> string \<Rightarrow> string" where
  "print_url s host port path = print_scheme s @ host @ (case port of Some p \<Rightarrow> CHR '':'' # dec (unat p) | None \<Rightarrow> []) @ path"

definition authority :: "string \<Rightarrow> u16 option \<Rightarrow> string" where
  "authority host port = host @ (case port of Some p \<Rightarrow> CHR '':'' # dec (unat p) | None \<Rightarrow> [])"

lemma authority_no_slash: "CHR ''/'' \<notin> set host \<Longrightarrow> CHR ''/'' \<notin> set (authority host port)"
  using dec_slash by (auto simp: authority_def split: option.splits)

text \<open>A host without a scheme is not taken for one that has a scheme.\<close>

lemma no_scheme:
  assumes "CHR ''/'' \<notin> set host" "CHR '':'' \<notin> set host" "path = [] \<or> hd path = CHR ''/''"
    and p: "p = ''https'' \<or> p = ''http''"
  shows "\<not> starts_with (p @ ''://'') (authority host port @ path)"
proof
  define P where "P = (\<lambda>c. c \<noteq> CHR '':'' \<and> c \<noteq> CHR ''/'')"
  define rest where "rest = (case port of Some q \<Rightarrow> CHR '':'' # dec (unat q) | None \<Rightarrow> []) @ path"
  assume "starts_with (p @ ''://'') (authority host port @ path)"
  then obtain r where r: "host @ rest = p @ CHR '':'' # CHR ''/'' # r"
    unfolding starts_with_def authority_def rest_def by (metis append.assoc append_Cons append_take_drop_id)
  have "takeWhile P rest = []" using assms(3) by (cases path) (auto simp: rest_def P_def split: option.splits)
  then have "takeWhile P (host @ rest) = host" using assms(1,2) by (subst takeWhile_append2) (auto simp: P_def)
  moreover have "takeWhile P (p @ CHR '':'' # CHR ''/'' # r) = p" using p by (auto simp: P_def)
  ultimately have "host = p" using r by metis
  then have rest: "rest = CHR '':'' # CHR ''/'' # r" using r by simp
  then obtain q where "port = Some q" using assms(3) by (cases port) (auto simp: rest_def)
  with rest have "dec (unat q) @ path = CHR ''/'' # r" by (simp add: rest_def)
  then have "CHR ''/'' \<in> set (dec (unat q))" using dec_not_empty [of "unat q"] by (cases "dec (unat q)") auto
  with dec_slash show False by blast
qed

lemma parse_authority:
  assumes "CHR ''/'' \<notin> set host" "CHR '':'' \<notin> set host" "path = [] \<or> hd path = CHR ''/''"
  shows "(case find_elem CHR ''/'' (authority host port @ path) of
            Some i \<Rightarrow> (take i (authority host port @ path), drop i (authority host port @ path))
          | None \<Rightarrow> (authority host port @ path, ''/'')) = (authority host port, if path = [] then ''/'' else path)"
proof (cases path)
  case Nil
  then show ?thesis using find_elem_None [of "CHR ''/''" "authority host port"] authority_no_slash [OF assms(1)] by simp
next
  case (Cons c cs)
  then have "find_elem CHR ''/'' (authority host port @ path) = Some (length (authority host port))"
    using assms(3) find_elem_append [OF authority_no_slash [OF assms(1)]] by simp
  with Cons show ?thesis by simp
qed

lemma parse_port:
  assumes "CHR '':'' \<notin> set host"
  shows "(case find_elem CHR '':'' (authority host port) of
            Some i \<Rightarrow> (take i (authority host port), (case parse_uint 65536 (drop (i + 1) (authority host port)) of Some p \<Rightarrow> of_nat p | None \<Rightarrow> dflt))
          | None \<Rightarrow> (authority host port, dflt)) = (host, case port of Some p \<Rightarrow> p | None \<Rightarrow> dflt)"
proof (cases port)
  case None
  then show ?thesis using find_elem_None [of "CHR '':''" host] assms by (simp add: authority_def)
next
  case (Some p)
  have "unat p < 2 ^ LENGTH(16)" by (rule unsigned_less)
  then show ?thesis using Some find_elem_append [OF assms] parse_uint_dec [of "unat p" 65536] by (simp add: authority_def)
qed

text \<open>URLs are read back: for every scheme or none, every host without slash or colon, every port or none and every path or none, \<open>parse_url\<close>
  returns the host, the port or the default of the scheme, and the path or \<open>/\<close>.\<close>

theorem url_roundtrip:
  assumes "CHR ''/'' \<notin> set host" "CHR '':'' \<notin> set host" "path = [] \<or> hd path = CHR ''/''"
  shows "parse_url (print_url s host port path)
     = (host, case port of Some p \<Rightarrow> p | None \<Rightarrow> (if s = Https then 443 else 80), if path = [] then ''/'' else path)"
proof -
  have u: "print_url s host port path = print_scheme s @ authority host port @ path" for s
    by (simp add: print_url_def authority_def)
  have n: "\<not> starts_with ''https://'' (authority host port @ path)" "\<not> starts_with ''http://'' (authority host port @ path)"
    using no_scheme [OF assms, of "''https''" port] no_scheme [OF assms, of "''http''" port] by simp_all
  have "\<not> starts_with ''https://'' (''http://'' @ x)" for x by (simp add: starts_with_def)
  then have d: "starts_with ''https://'' (print_url s host port path) \<longleftrightarrow> s = Https" for s
    using n starts_with_append [of "''https://''"] by (cases s) (simp_all add: u print_scheme_def del: append_Cons)
  have st: "(case strip_pre ''https://'' (print_url s host port path) of Some r \<Rightarrow> r
       | None \<Rightarrow> (case strip_pre ''http://'' (print_url s host port path) of Some r \<Rightarrow> r | None \<Rightarrow> print_url s host port path))
     = authority host port @ path"
    using n d by (cases s) (simp_all add: strip_pre_def u print_scheme_def starts_with_def)
  show ?thesis unfolding parse_url_def Let_def st parse_authority [OF assms] d
    using parse_port [OF assms(2), of port] by simp
qed

theorem url_roundtrip_witness: "parse_url ''http://api.local:8080/v1'' = (''api.local'', 8080, ''/v1'')"
proof -
  have "print_url Http ''api.local'' (Some 8080) ''/v1'' = ''http://api.local:8080/v1''"
    by (simp add: print_url_def print_scheme_def dec.simps char_of_def bit_Suc_0_iff)
  with url_roundtrip [of "''api.local''" "''/v1''" Http "Some 8080"] show ?thesis by simp
qed

section \<open>Responses are read back\<close>

lemma find_sub_first:
  "\<forall>i < length xs. \<not> starts_with p (drop i (xs @ p @ ys)) \<Longrightarrow> find_sub p (xs @ p @ ys) = Some (length xs)"
proof (induction xs)
  case Nil
  have "starts_with p (p @ ys)" by simp
  then show ?case by (cases "p @ ys") (auto simp del: starts_with_append)
next
  case (Cons x xs)
  have "\<not> starts_with p (x # xs @ p @ ys)" using Cons.prems by (metis append_Cons drop0 length_greater_0_conv list.discI)
  moreover have "find_sub p (xs @ p @ ys) = Some (length xs)"
    using Cons.prems by (intro Cons.IH) (metis Suc_less_eq append_Cons drop_Suc_Cons length_Cons)
  ultimately show ?case by simp
qed

text \<open>Words of ASCII characters other than whitespace.\<close>

definition plain :: "u8 \<Rightarrow> bool" where
  "plain a \<longleftrightarrow> 32 < a \<and> a < 127"

lemma ws_len_plain:
  assumes "plain a" shows "ws_len (a # s) = 0"
proof -
  have ne: "a \<noteq> 32" "a \<noteq> 0xC2" "a \<noteq> 0xE1" "a \<noteq> 0xE2" "a \<noteq> 0xE3" using assms by (auto simp: plain_def)
  have "\<not> a \<le> 13" using assms order_le_less_trans [of a 13 32] by (auto simp: plain_def)
  with ne show ?thesis by (simp split: list.split)
qed

lemma words_from_word:
  "\<forall>a \<in> set w. plain a \<Longrightarrow> words_from cur (w @ s) = words_from (cur @ w) s"
  by (induction w arbitrary: cur) (auto simp: ws_len_plain simp del: ws_len.simps)

lemma words_from_space: "cur \<noteq> [] \<Longrightarrow> words_from cur (32 # s) = cur # words_from [] s"
  by simp

lemma dec_plain: "\<forall>a \<in> set (bytes_of (dec n)). plain a"
proof
  fix a assume "a \<in> set (bytes_of (dec n))"
  then obtain c where c: "c \<in> set (dec n)" "a = of_nat (of_char c)" by (auto simp: bytes_of_def)
  have "unat a = of_char c" using c(2) dec_chars [OF c(1)] by (simp add: unat_of_nat)
  then show "plain a" using dec_chars [OF c(1)] by (simp add: plain_def word_less_nat_alt)
qed

lemma status_words:
  "\<exists>ws. split_whitespace (bytes_of ''HTTP/1.1'' @ 32 # bytes_of (dec code) @ 32 # reason) = bytes_of ''HTTP/1.1'' # bytes_of (dec code) # ws"
proof -
  have v: "\<forall>a \<in> set (bytes_of ''HTTP/1.1''). plain a" by (simp add: bytes_of_def plain_def)
  have ne: "bytes_of ''HTTP/1.1'' \<noteq> []" "bytes_of (dec code) \<noteq> []" using dec_not_empty by (simp_all add: bytes_of_def)
  show ?thesis
    unfolding split_whitespace_def
    by (simp add: words_from_word [OF v] words_from_word [OF dec_plain] words_from_space ne del: words_from.simps)
qed

lemma status_line_first:
  assumes "10 \<notin> set l" shows "first_line (l @ 13 # 10 # z) = Some l"
proof -
  have "find_elem 10 ((l @ [13]) @ 10 # z) = Some (length (l @ [13]))" by (rule find_elem_append) (use assms in simp)
  then show ?thesis by (simp add: first_line_def strip_cr_def)
qed

text \<open>C39. Responses are read back: for every status code, reason and headers in valid UTF-8 of which the first blank line is the one before the body,
  \<open>parse_http_response\<close> returns the status code and the body; and a response that is not valid UTF-8 is refused.\<close>

theorem http_response_roundtrip:
  assumes "code < 65536" "10 \<notin> set reason" "rest = [] \<or> (\<exists>hs. rest = 13 # 10 # hs)"
    and head: "head = bytes_of ''HTTP/1.1'' @ 32 # bytes_of (dec code) @ 32 # reason @ rest"
    and blank: "\<forall>i < length head. \<not> starts_with crlf2 (drop i (head @ crlf2 @ payload))"
  shows "parse_http_response (head @ crlf2 @ payload)
    = (if utf8_valid (head @ crlf2 @ payload) then Some \<lparr>status_code = of_nat code, body = payload\<rparr> else None)"
proof -
  define l where "l = bytes_of ''HTTP/1.1'' @ 32 # bytes_of (dec code) @ 32 # reason"
  obtain z where z: "head @ crlf2 @ payload = l @ 13 # 10 # z"
    using assms(3) by (auto simp: head l_def crlf2_def)
  have "10 \<notin> set (bytes_of (dec code))" using dec_plain [of code] by (auto simp: plain_def)
  then have "10 \<notin> set l" using assms(2) by (simp add: l_def bytes_of_def)
  then have line: "first_line (head @ crlf2 @ payload) = Some l" unfolding z by (rule status_line_first)
  obtain ws where ws: "split_whitespace l = bytes_of ''HTTP/1.1'' # bytes_of (dec code) # ws" using status_words unfolding l_def by blast
  have pos: "find_sub crlf2 (head @ crlf2 @ payload) = Some (length head)" by (rule find_sub_first [OF blank])
  have "drop (length head + 4) (head @ crlf2 @ payload) = payload" by (simp add: crlf2_def)
  then show ?thesis
    by (simp add: parse_http_response_def line ws pos parse_uint_dec [OF assms(1)])
qed

lemma no_cr_head:
  assumes "13 \<notin> set h" shows "\<forall>i < length h. \<not> starts_with crlf2 (drop i (h @ x))"
proof (intro allI impI)
  fix i assume i: "i < length h"
  then obtain y ys where "drop i (h @ x) = y # ys" "y = h ! i" by (simp add: Cons_nth_drop_Suc [symmetric])
  moreover have "h ! i \<noteq> 13" using i assms by (metis nth_mem)
  ultimately show "\<not> starts_with crlf2 (drop i (h @ x))" by (simp add: starts_with_def crlf2_def)
qed

theorem http_response_roundtrip_witness:
  "parse_http_response (bytes_of ''HTTP/1.1'' @ 32 # bytes_of (dec 200) @ 32 # bytes_of ''OK'' @ crlf2 @ [104, 105])
     = Some \<lparr>status_code = 200, body = [104, 105]\<rparr>"
proof -
  have d: "dec 200 = ''200''" by (simp add: dec.simps char_of_def bit_Suc_0_iff)
  define h where "h = bytes_of ''HTTP/1.1'' @ 32 # bytes_of (dec 200) @ 32 # bytes_of ''OK'' @ []"
  have h: "h = [72, 84, 84, 80, 47, 49, 46, 49, 32, 50, 48, 48, 32, 79, 75]" by (simp add: h_def d bytes_of_def)
  have "\<forall>i < length h. \<not> starts_with crlf2 (drop i (h @ crlf2 @ [104, 105]))" by (rule no_cr_head) (simp add: h)
  moreover have "utf8_valid (h @ crlf2 @ [104, 105])" by (simp add: h crlf2_def)
  ultimately show ?thesis using http_response_roundtrip [of 200 "bytes_of ''OK''" "[]" h "[104, 105]"]
    by (simp add: h_def bytes_of_def)
qed

end
