(* ===== verification/Permissions.thy ===== *)
theory Permissions
  imports Oxide_Prelude "HOL-Library.Sublist"
begin

text \<open>
  \<^verbatim>\<open>capability/permissions.rs\<close> and \<^verbatim>\<open>capability/resource.rs\<close>: the permission bit field and the
  resources a capability names, with the two orders that delegation compares: inclusion of
  permission bits and \<open>is_subset_of\<close> on resources.  Both are shown to be preorders, which is what
  lets authority be followed along a whole delegation chain.
\<close>

section \<open>Permission bits\<close>

datatype PermissionBits = from_raw (raw: u32)

definition NONE :: PermissionBits where "NONE = from_raw 0"
definition READ :: PermissionBits where "READ = from_raw (push_bit 0 1)"
definition WRITE :: PermissionBits where "WRITE = from_raw (push_bit 1 1)"
definition EXECUTE :: PermissionBits where "EXECUTE = from_raw (push_bit 2 1)"
definition DELEGATE :: PermissionBits where "DELEGATE = from_raw (push_bit 3 1)"
definition SPAWN :: PermissionBits where "SPAWN = from_raw (push_bit 4 1)"
definition KILL :: PermissionBits where "KILL = from_raw (push_bit 5 1)"
definition SUBSCRIBE :: PermissionBits where "SUBSCRIBE = from_raw (push_bit 6 1)"
definition PUBLISH :: PermissionBits where "PUBLISH = from_raw (push_bit 7 1)"
definition CONNECT :: PermissionBits where "CONNECT = from_raw (push_bit 8 1)"
definition PERM_ALL :: PermissionBits where "PERM_ALL = from_raw 0xFFFFFFFF"

lemmas permission_defs = NONE_def READ_def WRITE_def EXECUTE_def DELEGATE_def SPAWN_def KILL_def
  SUBSCRIBE_def PUBLISH_def CONNECT_def PERM_ALL_def

definition contains :: "PermissionBits \<Rightarrow> PermissionBits \<Rightarrow> bool" where
  "contains self other \<longleftrightarrow> raw self AND raw other = raw other"

definition perm_union :: "PermissionBits \<Rightarrow> PermissionBits \<Rightarrow> PermissionBits" where
  "perm_union self other = from_raw (raw self OR raw other)"

definition perm_intersect :: "PermissionBits \<Rightarrow> PermissionBits \<Rightarrow> PermissionBits" where
  "perm_intersect self other = from_raw (raw self AND raw other)"

definition can_delegate_to :: "PermissionBits \<Rightarrow> PermissionBits \<Rightarrow> bool" where
  "can_delegate_to self sub \<longleftrightarrow> contains self DELEGATE \<and> contains self sub"

text \<open>The \<open>Display\<close> implementation: the names of the bits that are set, in the table's order.\<close>

definition perm_flags :: "(string \<times> PermissionBits) list" where
  "perm_flags =
     [(''R'', READ), (''W'', WRITE), (''X'', EXECUTE), (''D'', DELEGATE), (''SPAWN'', SPAWN),
      (''KILL'', KILL), (''SUB'', SUBSCRIBE), (''PUB'', PUBLISH), (''CONN'', CONNECT)]"

fun fmt_flags :: "PermissionBits \<Rightarrow> bool \<Rightarrow> (string \<times> PermissionBits) list \<Rightarrow> string" where
  "fmt_flags p first [] = '']''"
| "fmt_flags p first ((name, flag) # fs) =
     (if contains p flag
      then (if first then [] else ''|'') @ name @ fmt_flags p False fs
      else fmt_flags p first fs)"

definition perm_fmt :: "PermissionBits \<Rightarrow> string" where
  "perm_fmt p = (if raw p = 0 then ''[NONE]'' else ''['' @ fmt_flags p True perm_flags)"

lemma contains_bits: "contains p q \<longleftrightarrow> (\<forall>n. bit (raw q) n \<longrightarrow> bit (raw p) n)"
proof
  assume "contains p q"
  then have "bit (raw p AND raw q) n \<longleftrightarrow> bit (raw q) n" for n by (simp add: contains_def)
  then show "\<forall>n. bit (raw q) n \<longrightarrow> bit (raw p) n" by (simp add: bit_and_iff) blast
next
  assume "\<forall>n. bit (raw q) n \<longrightarrow> bit (raw p) n"
  then show "contains p q" unfolding contains_def by (intro bit_eqI) (auto simp: bit_and_iff)
qed

lemma contains_refl [simp, intro]: "contains p p"
  by (simp add: contains_bits)

lemma contains_trans [trans]: "contains p q \<Longrightarrow> contains q r \<Longrightarrow> contains p r"
  by (simp add: contains_bits)

lemma contains_antisym: "contains p q \<Longrightarrow> contains q p \<Longrightarrow> p = q"
  by (intro PermissionBits.expand bit_eqI) (auto simp: contains_bits)

lemma contains_union_I [intro]: "contains p r \<or> contains q r \<Longrightarrow> contains (perm_union p q) r"
  by (auto simp: contains_bits perm_union_def bit_or_iff)

lemma contains_union_right: "contains r (perm_union p q) \<longleftrightarrow> contains r p \<and> contains r q"
  by (auto simp: contains_bits perm_union_def bit_or_iff)

lemma intersect_greatest:
  "contains (perm_intersect p q) r \<longleftrightarrow> contains p r \<and> contains q r"
  by (auto simp: contains_bits perm_intersect_def bit_and_iff)

lemma contains_PERM_ALL [simp]: "contains PERM_ALL p"
proof -
  have ones: "(0xFFFFFFFF :: u32) = - 1" by simp
  show ?thesis
    by (simp only: contains_def PERM_ALL_def PermissionBits.sel ones and.left_neutral)
qed

lemma contains_NONE [simp]: "contains p NONE"
  by (simp add: contains_def NONE_def)

section \<open>Resources\<close>

datatype ResourceRef =
    Agent u64
  | Memory u64 u64
  | Network string u16
  | Storage string
  | Channel string
  | Tool string
  | Model string
  | AgentSpawn
  | System string

definition is_subset_of :: "ResourceRef \<Rightarrow> ResourceRef \<Rightarrow> bool" where
  "is_subset_of self parent =
     (case (self, parent) of
        (Memory cb cl, Memory pb pl) \<Rightarrow>
          (let child_end = saturating_add cb cl; parent_end = saturating_add pb pl
           in cb \<ge> pb \<and> child_end \<le> parent_end)
      | (a, b) \<Rightarrow>
          if a = b then True
          else (case (a, b) of
                  (Network ch cp, Network ph pp) \<Rightarrow> (ph = ''*'' \<or> ch = ph) \<and> (pp = 0 \<or> cp = pp)
                | (Storage child, Storage parent_path) \<Rightarrow> prefix parent_path child
                | _ \<Rightarrow> False))"

lemma is_subset_of_simps:
  "is_subset_of (Memory cb cl) (Memory pb pl) \<longleftrightarrow>
     pb \<le> cb \<and> saturating_add cb cl \<le> saturating_add pb pl"
  "is_subset_of (Network ch cp) (Network ph pp) \<longleftrightarrow>
     (ph = ''*'' \<or> ch = ph) \<and> (pp = 0 \<or> cp = pp)"
  "is_subset_of (Storage child) (Storage parent_path) \<longleftrightarrow> prefix parent_path child"
  by (auto simp: is_subset_of_def Let_def)

lemma is_subset_of_other:
  "\<not> (\<exists>a b c d. r = Memory a b \<and> s = Memory c d) \<Longrightarrow>
   \<not> (\<exists>a b c d. r = Network a b \<and> s = Network c d) \<Longrightarrow>
   \<not> (\<exists>a b. r = Storage a \<and> s = Storage b) \<Longrightarrow> is_subset_of r s \<longleftrightarrow> r = s"
  by (auto simp: is_subset_of_def split: ResourceRef.splits)

lemma is_subset_of_refl [simp, intro]: "is_subset_of r r"
  by (cases r) (auto simp: is_subset_of_def Let_def)

text \<open>A resource only ever fits inside a resource of its own kind.\<close>

lemma is_subset_of_cases:
  assumes "is_subset_of r s"
  obtains (eq) "r = s"
  | (mem) cb cl pb pl where "r = Memory cb cl" "s = Memory pb pl"
  | (net) ch cp ph pp where "r = Network ch cp" "s = Network ph pp"
  | (sto) c p where "r = Storage c" "s = Storage p"
  using assms by (auto simp: is_subset_of_def split: ResourceRef.splits if_splits)

lemma is_subset_of_trans [trans]:
  assumes rs: "is_subset_of r s" and st: "is_subset_of s t"
  shows "is_subset_of r t"
  using rs
proof (cases rule: is_subset_of_cases)
  case eq
  with st show ?thesis by simp
next
  case (mem cb cl pb pl)
  from st show ?thesis
    by (cases rule: is_subset_of_cases) (use rs st mem in \<open>auto simp: is_subset_of_simps\<close>)
next
  case (net ch cp ph pp)
  from st show ?thesis
    by (cases rule: is_subset_of_cases) (use rs st net in \<open>auto simp: is_subset_of_simps\<close>)
next
  case (sto c p)
  from st show ?thesis
    by (cases rule: is_subset_of_cases) (use rs st sto in \<open>auto simp: is_subset_of_simps\<close>)
qed

text \<open>The byte addresses a memory resource stands for, when the region fits the address space.\<close>

definition mem_range :: "u64 \<Rightarrow> u64 \<Rightarrow> nat set" where
  "mem_range base len = {unat base ..< unat base + unat len}"

lemma is_subset_of_mem_range:
  assumes "is_subset_of (Memory cb cl) (Memory pb pl)" "unat cb + unat cl < 2 ^ 64"
  shows "mem_range cb cl \<subseteq> mem_range pb pl"
proof -
  have "unat pb \<le> unat cb" "unat (saturating_add cb cl) \<le> unat (saturating_add pb pl)"
    using assms(1) by (auto simp: is_subset_of_simps word_le_nat_alt)
  then have "unat cb + unat cl \<le> unat pb + unat pl"
    using assms(2) by (simp add: unat_saturating_add)
  with \<open>unat pb \<le> unat cb\<close> show ?thesis by (auto simp: mem_range_def)
qed

end
