(* ===== verification/Cap_Table.thy ===== *)
theory Cap_Table
  imports Permissions
begin

text \<open>
  \<^verbatim>\<open>capability/table.rs\<close>: the global capability table, with creation, look-up, validation, delegation
  and cascading revocation.  A slot of the vector is \<open>None\<close> or a capability whose index is its id.
\<close>

datatype CapError = NotFound | InsufficientPermissions | InvalidDelegation | Revoked | NotOwner

record Capability =
  cap_id :: u64
  resource :: ResourceRef
  permissions :: PermissionBits
  owner :: u64
  parent_cap :: "u64 option"
  revoked :: bool

record CapabilityTable =
  capabilities :: "Capability option list"
  next_id :: u64

definition cap_new :: CapabilityTable where
  "cap_new = \<lparr>capabilities = [], next_id = 1\<rparr>"

text \<open>\<open>self.capabilities.get(id as usize)\<close>, with the two nested options flattened.\<close>

definition slot :: "CapabilityTable \<Rightarrow> u64 \<Rightarrow> Capability option" where
  "slot t i = (if unat i < length (capabilities t) then capabilities t ! unat i else None)"

text \<open>Grow the vector to reach the index (\<open>resize_with\<close>), then store.\<close>

definition put_cap :: "u64 \<Rightarrow> Capability \<Rightarrow> Capability option list \<Rightarrow> Capability option list" where
  "put_cap i c caps =
     (let caps' = (if length caps \<le> unat i then caps @ replicate (unat i + 1 - length caps) None else caps)
      in caps'[unat i := Some c])"

definition cap_create_root ::
  "u64 \<Rightarrow> ResourceRef \<Rightarrow> PermissionBits \<Rightarrow> CapabilityTable \<Rightarrow> (u64 \<times> CapabilityTable) option" where
  "cap_create_root own res perms t = do {
     let i = next_id t;
     n \<leftarrow> checked_add (next_id t) 1;
     let cap = \<lparr>cap_id = i, resource = res, permissions = perms, owner = own,
                parent_cap = None, revoked = False\<rparr>;
     Some (i, \<lparr>capabilities = put_cap i cap (capabilities t), next_id = n\<rparr>)
   }"

definition cap_get :: "CapabilityTable \<Rightarrow> u64 \<Rightarrow> CapError + Capability" where
  "cap_get t i =
     (case slot t i of
        Some cap \<Rightarrow> if \<not> revoked cap then Inr cap else Inl Revoked
      | None \<Rightarrow> Inl NotFound)"

definition cap_validate :: "CapabilityTable \<Rightarrow> u64 \<Rightarrow> u64 \<Rightarrow> PermissionBits \<Rightarrow> CapError + Capability" where
  "cap_validate t i task required =
     (case cap_get t i of
        Inl e \<Rightarrow> Inl e
      | Inr cap \<Rightarrow>
          if owner cap \<noteq> task then Inl NotOwner
          else if \<not> contains (permissions cap) required then Inl InsufficientPermissions
          else Inr cap)"

definition cap_delegate ::
  "u64 \<Rightarrow> u64 \<Rightarrow> u64 \<Rightarrow> PermissionBits \<Rightarrow> ResourceRef option \<Rightarrow> CapabilityTable
     \<Rightarrow> ((CapError + u64) \<times> CapabilityTable) option" where
  "cap_delegate source_id from to perms resource_override t =
     (case cap_get t source_id of
        Inl e \<Rightarrow> Some (Inl e, t)
      | Inr source \<Rightarrow>
          if owner source \<noteq> from then Some (Inl NotOwner, t)
          else if \<not> can_delegate_to (permissions source) perms then Some (Inl InvalidDelegation, t)
          else
            (case (case resource_override of
                     Some r \<Rightarrow> if is_subset_of r (resource source) then Some r else None
                   | None \<Rightarrow> Some (resource source)) of
               None \<Rightarrow> Some (Inl InvalidDelegation, t)
             | Some res \<Rightarrow> do {
                 let i = next_id t;
                 n \<leftarrow> checked_add (next_id t) 1;
                 let cap = \<lparr>cap_id = i, resource = res, permissions = perms, owner = to,
                            parent_cap = Some source_id, revoked = False\<rparr>;
                 Some (Inr i, \<lparr>capabilities = put_cap i cap (capabilities t), next_id = n\<rparr>)
               }))"

definition is_active :: "Capability option \<Rightarrow> bool" where
  "is_active s = (case s of Some c \<Rightarrow> \<not> revoked c | None \<Rightarrow> False)"

definition active_count :: "CapabilityTable \<Rightarrow> nat" where
  "active_count t = length (filter is_active (capabilities t))"

definition mark_revoked :: "CapabilityTable \<Rightarrow> u64 \<Rightarrow> CapabilityTable" where
  "mark_revoked t i = t\<lparr>capabilities := (capabilities t)[unat i := map_option (revoked_update (\<lambda>_. True)) (slot t i)]\<rparr>"

definition active_children :: "CapabilityTable \<Rightarrow> u64 \<Rightarrow> u64 list" where
  "active_children t i =
     List.map_filter (\<lambda>s. case s of
         Some c \<Rightarrow> if parent_cap c = Some i \<and> \<not> revoked c then Some (cap_id c) else None
       | None \<Rightarrow> None) (capabilities t)"

text \<open>
  \<open>revoke_recursive\<close> with its loop over the children as a second function.  The recursion is
  nested, since the loop runs on the table the previous call left; it terminates because every
  call that goes deeper has revoked one more capability.
\<close>

function revoke_recursive :: "CapabilityTable \<Rightarrow> u64 \<Rightarrow> CapabilityTable \<times> nat"
  and revoke_children :: "CapabilityTable \<Rightarrow> u64 list \<Rightarrow> nat \<Rightarrow> CapabilityTable \<times> nat" where
  "revoke_recursive t i =
     (case slot t i of
        Some cap \<Rightarrow>
          if revoked cap then (t, 0)
          else let t' = mark_revoked t i in revoke_children t' (active_children t' i) 1
      | None \<Rightarrow> (t, 0))"
| "revoke_children t [] n = (t, n)"
| "revoke_children t (c # cs) n =
     (case revoke_recursive t c of (t', k) \<Rightarrow> revoke_children t' cs (n + k))"
  by pat_completeness auto

lemma slot_mark_revoked:
  "slot (mark_revoked t i) j = (if j = i then map_option (revoked_update (\<lambda>_. True)) (slot t i) else slot t j)"
  by (auto simp: slot_def mark_revoked_def nth_list_update)

lemma active_count_mark:
  assumes "slot t i = Some c" "\<not> revoked c"
  shows "Suc (active_count (mark_revoked t i)) = active_count t"
proof -
  let ?xs = "capabilities t" and ?k = "unat i"
  have k: "?k < length ?xs" and c: "?xs ! ?k = Some c"
    using assms(1) by (auto simp: slot_def split: if_splits)
  have "?xs = take ?k ?xs @ Some c # drop (Suc ?k) ?xs"
    using k c by (metis id_take_nth_drop)
  then have "active_count t = length (filter is_active (take ?k ?xs @ Some c # drop (Suc ?k) ?xs))"
    unfolding active_count_def by (rule arg_cong)
  with assms k show ?thesis
    by (simp add: active_count_def mark_revoked_def upd_conv_take_nth_drop is_active_def)
qed

lemma revoke_active_partial:
  "revoke_recursive_revoke_children_dom (Inl (t, i)) \<Longrightarrow>
     active_count (fst (revoke_recursive t i)) \<le> active_count t"
  "revoke_recursive_revoke_children_dom (Inr (t, cs, n)) \<Longrightarrow>
     active_count (fst (revoke_children t cs n)) \<le> active_count t"
proof (induction t i and t cs n rule: revoke_recursive_revoke_children.pinduct)
  case (1 t i)
  then show ?case
    by (auto simp: revoke_recursive.psimps Let_def active_count_mark [symmetric] split: option.splits
        intro: le_SucI)
next
  case (2 t n)
  then show ?case by (simp add: revoke_children.psimps)
next
  case (3 t c cs n)
  then show ?case by (auto simp: revoke_children.psimps split: prod.splits)
qed

termination revoke_recursive
proof (relation "inv_image (less_than <*lex*> less_than)
    (\<lambda>x. case x of Inl (t, i) \<Rightarrow> (active_count t, 0)
                 | Inr (t, cs, n) \<Rightarrow> (active_count t, Suc (length cs)))", goal_cases)
  case (2 t i cap t')
  then show ?case using active_count_mark [of t i cap] by simp
next
  case (4 t c cs n t' k)
  then have "fst (revoke_recursive t c) = t'" by (metis fst_conv)
  then have "active_count t' \<le> active_count t"
    using revoke_active_partial(1) [of t c] 4 by auto
  then show ?case by auto
qed auto

declare revoke_recursive.simps [simp del]


definition parent_owned_by :: "CapabilityTable \<Rightarrow> Capability \<Rightarrow> u64 \<Rightarrow> bool" where
  "parent_owned_by t cap task =
     (case parent_cap cap of
        None \<Rightarrow> False
      | Some pid \<Rightarrow> (case slot t pid of None \<Rightarrow> False | Some p \<Rightarrow> owner p = task))"

definition cap_revoke :: "u64 \<Rightarrow> u64 \<Rightarrow> CapabilityTable \<Rightarrow> (CapError + nat) \<times> CapabilityTable" where
  "cap_revoke i revoker t =
     (case cap_get t i of
        Inl e \<Rightarrow> (Inl e, t)
      | Inr cap \<Rightarrow>
          if \<not> (owner cap = revoker \<or> parent_owned_by t cap revoker) then (Inl NotOwner, t)
          else (case revoke_recursive t i of (t', n) \<Rightarrow> (Inr n, t')))"

section \<open>Slots\<close>

lemma slot_put_cap:
  "capabilities t' = put_cap i c (capabilities t) \<Longrightarrow>
   slot t' j = (if j = i then Some c else slot t j)"
  by (auto simp: slot_def put_cap_def Let_def nth_append nth_list_update)

lemma length_put_cap: "length (put_cap i c caps) = max (length caps) (unat i + 1)"
  by (simp add: put_cap_def Let_def)

lemma cap_get_Inr_iff: "cap_get t i = Inr c \<longleftrightarrow> slot t i = Some c \<and> \<not> revoked c"
  by (auto simp: cap_get_def split: option.splits)

lemma cap_validate_Inr_iff:
  "cap_validate t i task required = Inr c \<longleftrightarrow>
     slot t i = Some c \<and> \<not> revoked c \<and> owner c = task \<and> contains (permissions c) required"
  by (auto simp: cap_validate_def cap_get_def split: option.splits sum.splits)

section \<open>The table invariant\<close>

text \<open>
  Every capability sits at its own id, below \<open>next_id\<close>.  A delegated capability has an older parent
  in the table that held \<open>DELEGATE\<close>, and it carries no permission and no resource the parent does
  not; and it is revoked whenever its parent is.
\<close>

definition parent_ok :: "CapabilityTable \<Rightarrow> u64 \<Rightarrow> Capability \<Rightarrow> bool" where
  "parent_ok t i c =
     (case parent_cap c of
        None \<Rightarrow> True
      | Some p \<Rightarrow> p < i \<and>
          (case slot t p of
             None \<Rightarrow> False
           | Some pc \<Rightarrow> can_delegate_to (permissions pc) (permissions c)
               \<and> is_subset_of (resource c) (resource pc)
               \<and> (revoked pc \<longrightarrow> revoked c)))"

definition cap_wf :: "CapabilityTable \<Rightarrow> bool" where
  [wf_defs]: "cap_wf t \<longleftrightarrow>
     next_id t \<noteq> 0 \<and> length (capabilities t) \<le> unat (next_id t) \<and>
     (\<forall>i c. slot t i = Some c \<longrightarrow> cap_id c = i \<and> i \<noteq> 0 \<and> parent_ok t i c)"

lemma cap_wf_slotD:
  assumes "cap_wf t" "slot t i = Some c"
  shows "cap_id c = i" "i \<noteq> 0" "i < next_id t" "parent_ok t i c"
  using assms by (auto simp: cap_wf_def slot_def word_less_nat_alt split: if_splits)

lemma cap_wf_fresh: "cap_wf t \<Longrightarrow> slot t (next_id t) = None"
  using cap_wf_slotD(3) by fastforce

lemma cap_wf_new [simp, intro]: "cap_wf cap_new"
  by (simp add: cap_wf_def cap_new_def slot_def)

text \<open>Both ways to add a capability store one record at the fresh id.\<close>

lemma cap_wf_add:
  assumes wf: "cap_wf t" and n: "checked_add (next_id t) 1 = Some n"
    and t': "t' = \<lparr>capabilities = put_cap (next_id t) cap (capabilities t), next_id = n\<rparr>"
    and cap: "cap_id cap = next_id t" "parent_ok t (next_id t) cap"
  shows "cap_wf t'"
proof -
  have un: "unat n = Suc (unat (next_id t))" using checked_add_unat [OF n] by simp
  have slots: "slot t' j = (if j = next_id t then Some cap else slot t j)" for j
    using t' by (intro slot_put_cap) simp
  have parents: "parent_ok t' i c" if "parent_ok t i c" for i c
    using that cap_wf_fresh [OF wf]
    by (auto simp: parent_ok_def slots split: option.splits)
  have "n \<noteq> 0" using un by auto
  moreover have "length (capabilities t') \<le> unat n"
    using wf un t' by (auto simp: cap_wf_def length_put_cap)
  moreover have "cap_id c = i \<and> i \<noteq> 0 \<and> parent_ok t' i c" if "slot t' i = Some c" for i c
    using that wf cap parents by (auto simp: slots cap_wf_def split: if_splits)
  ultimately show ?thesis using t' by (simp add: cap_wf_def)
qed

lemma cap_create_root_Some:
  assumes "cap_create_root own res perms t = Some (i, t')"
  shows "i = next_id t" "checked_add (next_id t) 1 = Some (next_id t')"
    "capabilities t' = put_cap i \<lparr>cap_id = i, resource = res, permissions = perms, owner = own,
       parent_cap = None, revoked = False\<rparr> (capabilities t)"
  using assms by (auto simp: cap_create_root_def Let_def split: bind_splits)

lemma cap_wf_create_root [intro]:
  assumes "cap_wf t" "cap_create_root own res perms t = Some (i, t')"
  shows "cap_wf t'"
proof (rule cap_wf_add [OF assms(1) cap_create_root_Some(2) [OF assms(2)]])
  show "t' = \<lparr>capabilities = put_cap (next_id t) \<lparr>cap_id = next_id t, resource = res, permissions = perms,
      owner = own, parent_cap = None, revoked = False\<rparr> (capabilities t), next_id = next_id t'\<rparr>"
    using cap_create_root_Some [OF assms(2)] by (intro CapabilityTable.equality) auto
qed (simp_all add: parent_ok_def)


lemma cap_create_root_slot:
  assumes "cap_create_root own res perms t = Some (i, t')"
  shows "slot t' j = (if j = i then Some \<lparr>cap_id = i, resource = res, permissions = perms, owner = own,
       parent_cap = None, revoked = False\<rparr> else slot t j)"
  using cap_create_root_Some(3) [OF assms] by (rule slot_put_cap)

text \<open>What a successful delegation has checked, and what it stored.\<close>

lemma cap_delegate_Inr:
  assumes "cap_delegate source from to perms ovr t = Some (Inr i, t')"
  obtains src where
    "slot t source = Some src" "\<not> revoked src" "owner src = from"
    "can_delegate_to (permissions src) perms"
    "is_subset_of (case ovr of None \<Rightarrow> resource src | Some r \<Rightarrow> r) (resource src)"
    "i = next_id t" "checked_add (next_id t) 1 = Some (next_id t')"
    "capabilities t' = put_cap i \<lparr>cap_id = i,
       resource = (case ovr of None \<Rightarrow> resource src | Some r \<Rightarrow> r), permissions = perms, owner = to,
       parent_cap = Some source, revoked = False\<rparr> (capabilities t)"
proof -
  from assms obtain src where src: "cap_get t source = Inr src"
    by (auto simp: cap_delegate_def split: sum.splits)
  then have "slot t source = Some src" "\<not> revoked src" by (auto simp: cap_get_Inr_iff)
  with assms src that show thesis
    by (auto simp: cap_delegate_def Let_def split: if_splits option.splits bind_splits)
qed

lemma cap_delegate_Inl:
  "cap_delegate source from to perms ovr t = Some (Inl e, t') \<Longrightarrow> t' = t"
  by (auto simp: cap_delegate_def Let_def split: sum.splits if_splits option.splits bind_splits)

lemma cap_delegate_slot:
  assumes "cap_delegate source from to perms ovr t = Some (Inr i, t')"
  shows "\<exists>c. slot t' i = Some c \<and> owner c = to \<and> permissions c = perms \<and> parent_cap c = Some source
      \<and> \<not> revoked c \<and> (\<forall>j. j \<noteq> i \<longrightarrow> slot t' j = slot t j)"
  using assms by (elim cap_delegate_Inr) (auto simp: slot_put_cap)

lemma cap_wf_delegate [intro]:
  assumes wf: "cap_wf t" and d: "cap_delegate source from to perms ovr t = Some (r, t')"
  shows "cap_wf t'"
proof (cases r)
  case (Inl e)
  with d wf show ?thesis using cap_delegate_Inl by blast
next
  case (Inr i)
  with d have d': "cap_delegate source from to perms ovr t = Some (Inr i, t')" by simp
  then obtain src where src:
    "slot t source = Some src" "\<not> revoked src" "can_delegate_to (permissions src) perms"
    "is_subset_of (case ovr of None \<Rightarrow> resource src | Some r \<Rightarrow> r) (resource src)"
    "i = next_id t" "checked_add (next_id t) 1 = Some (next_id t')"
    "capabilities t' = put_cap i \<lparr>cap_id = i,
       resource = (case ovr of None \<Rightarrow> resource src | Some r \<Rightarrow> r), permissions = perms, owner = to,
       parent_cap = Some source, revoked = False\<rparr> (capabilities t)"
    by (elim cap_delegate_Inr)
  show ?thesis
  proof (rule cap_wf_add [OF wf src(6)])
    show "t' = \<lparr>capabilities = put_cap (next_id t) \<lparr>cap_id = next_id t,
       resource = (case ovr of None \<Rightarrow> resource src | Some r \<Rightarrow> r), permissions = perms, owner = to,
       parent_cap = Some source, revoked = False\<rparr> (capabilities t), next_id = next_id t'\<rparr>"
      using src by (intro CapabilityTable.equality) auto
  qed (use wf src in \<open>simp_all add: parent_ok_def cap_wf_slotD(3)\<close>)
qed

section \<open>Cascading revocation\<close>

text \<open>Revocation changes nothing but \<open>revoked\<close> flags, and only from false to true.\<close>

definition revoke_frame :: "CapabilityTable \<Rightarrow> CapabilityTable \<Rightarrow> bool" where
  "revoke_frame t t' \<longleftrightarrow> next_id t' = next_id t \<and> length (capabilities t') = length (capabilities t) \<and>
     (\<forall>j. case slot t j of
            None \<Rightarrow> slot t' j = None
          | Some c \<Rightarrow> \<exists>r. slot t' j = Some (c\<lparr>revoked := r\<rparr>) \<and> (revoked c \<longrightarrow> r))"

lemma revoke_frameD:
  assumes "revoke_frame t t'"
  shows "slot t j = None \<Longrightarrow> slot t' j = None"
    "slot t j = Some c \<Longrightarrow> \<exists>r. slot t' j = Some (c\<lparr>revoked := r\<rparr>) \<and> (revoked c \<longrightarrow> r)"
  using assms unfolding revoke_frame_def by (auto split: option.splits dest!: spec [of _ j])

lemma revoke_frame_back:
  assumes "revoke_frame t t'" "slot t' j = Some c'"
  obtains c where "slot t j = Some c" "cap_id c' = cap_id c" "resource c' = resource c"
    "permissions c' = permissions c" "owner c' = owner c" "parent_cap c' = parent_cap c"
    "revoked c \<longrightarrow> revoked c'"
proof (cases "slot t j")
  case None
  with revoke_frameD(1) [OF assms(1)] assms(2) show ?thesis by simp
next
  case (Some c)
  then obtain r where "slot t' j = Some (c\<lparr>revoked := r\<rparr>)" "revoked c \<longrightarrow> r"
    using revoke_frameD(2) [OF assms(1)] by blast
  with that assms(2) Some show ?thesis by auto
qed

lemma revoke_frame_forth:
  assumes "revoke_frame t t'" "slot t j = Some c"
  obtains c' where "slot t' j = Some c'" "parent_cap c' = parent_cap c" "revoked c \<longrightarrow> revoked c'"
  using revoke_frameD(2) [OF assms] by auto

lemma revoked_self: "\<exists>r. c = c\<lparr>revoked := r\<rparr> \<and> (revoked c \<longrightarrow> r)" for c :: Capability
  by (rule exI [of _ "revoked c"]) (cases c, simp)

lemma revoke_frame_refl [simp, intro]: "revoke_frame t t"
  by (simp add: revoke_frame_def split: option.splits) (metis revoked_self)

lemma revoke_frame_trans [trans]:
  assumes "revoke_frame t u" "revoke_frame u v"
  shows "revoke_frame t v"
proof -
  have "\<exists>r. slot v j = Some (c\<lparr>revoked := r\<rparr>) \<and> (revoked c \<longrightarrow> r)" if c: "slot t j = Some c" for j c
  proof -
    from revoke_frameD(2) [OF assms(1) c] obtain r
      where r: "slot u j = Some (c\<lparr>revoked := r\<rparr>)" "revoked c \<longrightarrow> r" by blast
    from revoke_frameD(2) [OF assms(2) r(1)] r(2) show ?thesis by auto
  qed
  moreover have "slot v j = None" if "slot t j = None" for j
    using that assms revoke_frameD(1) by blast
  ultimately show ?thesis
    using assms by (auto simp: revoke_frame_def split: option.splits)
qed

lemma mark_revoked_sel [simp]:
  "next_id (mark_revoked t i) = next_id t" "length (capabilities (mark_revoked t i)) = length (capabilities t)"
  by (simp_all add: mark_revoked_def)

lemma revoke_frame_mark: "revoke_frame t (mark_revoked t i)"
proof -
  have "case slot t j of None \<Rightarrow> slot (mark_revoked t i) j = None
      | Some c \<Rightarrow> \<exists>r. slot (mark_revoked t i) j = Some (c\<lparr>revoked := r\<rparr>) \<and> (revoked c \<longrightarrow> r)" for j
  proof (cases "j = i")
    case True
    then show ?thesis by (cases "slot t i") (auto simp: slot_mark_revoked)
  next
    case False
    then have "slot (mark_revoked t i) j = slot t j" by (simp add: slot_mark_revoked)
    then show ?thesis by (simp split: option.splits) (metis revoked_self)
  qed
  then show ?thesis by (simp add: revoke_frame_def)
qed


lemma revoke_active:
  "active_count (fst (revoke_recursive t i)) + snd (revoke_recursive t i) = active_count t"
  "active_count (fst (revoke_children t cs n)) + snd (revoke_children t cs n) = active_count t + n"
proof (induction t i and t cs n rule: revoke_recursive_revoke_children.induct)
  case (1 t i)
  then show ?case
    by (auto simp: revoke_recursive.simps [of t i] Let_def active_count_mark split: option.splits)
qed (auto split: prod.splits)

lemma revoke_is_frame:
  "revoke_frame t (fst (revoke_recursive t i))"
  "revoke_frame t (fst (revoke_children t cs n))"
proof (induction t i and t cs n rule: revoke_recursive_revoke_children.induct)
  case (1 t i)
  let ?t' = "mark_revoked t i"
  show ?case
  proof (cases "is_active (slot t i)")
    case True
    then obtain c where "slot t i = Some c" "\<not> revoked c"
      by (auto simp: is_active_def split: option.splits)
    with 1 have "revoke_frame ?t' (fst (revoke_recursive t i))"
      by (simp add: revoke_recursive.simps [of t i] Let_def)
    with revoke_frame_mark show ?thesis by (rule revoke_frame_trans)
  next
    case False
    then show ?thesis
      by (auto simp: revoke_recursive.simps [of t i] is_active_def split: option.splits)
  qed
next
  case (3 t c cs n)
  then show ?case by (auto split: prod.splits intro: revoke_frame_trans)
qed simp

text \<open>The descendants of a capability along delegation, itself included.\<close>

inductive descends :: "CapabilityTable \<Rightarrow> u64 \<Rightarrow> u64 \<Rightarrow> bool" for t where
  self: "slot t a = Some c \<Longrightarrow> descends t a a"
| child: "descends t a p \<Longrightarrow> slot t i = Some c \<Longrightarrow> parent_cap c = Some p \<Longrightarrow> descends t a i"

lemma descends_trans: "descends t b c \<Longrightarrow> descends t a b \<Longrightarrow> descends t a c"
  by (induction rule: descends.induct) (auto intro: descends.child)

lemma descends_frame_back: "descends t' a i \<Longrightarrow> revoke_frame t t' \<Longrightarrow> descends t a i"
proof (induction rule: descends.induct)
  case (self a c)
  from self(2,1) show ?case by (rule revoke_frame_back) (rule descends.self)
next
  case (child a p i c)
  from child.prems child.hyps(2) obtain c0 where "slot t i = Some c0" "parent_cap c = parent_cap c0"
    by (rule revoke_frame_back)
  with child show ?case by (auto intro: descends.child)
qed

definition is_revoked :: "CapabilityTable \<Rightarrow> u64 \<Rightarrow> bool" where
  "is_revoked t i = (case slot t i of Some c \<Rightarrow> revoked c | None \<Rightarrow> False)"

definition ids_ok :: "CapabilityTable \<Rightarrow> bool" where
  "ids_ok t \<longleftrightarrow> length (capabilities t) \<le> 2 ^ 64 \<and> (\<forall>i c. slot t i = Some c \<longrightarrow> cap_id c = i)"

lemma ids_ok_frame:
  assumes "revoke_frame t t'" "ids_ok t"
  shows "ids_ok t'"
proof -
  have "cap_id c = i" if "slot t' i = Some c" for i c
    using revoke_frame_back [OF assms(1) that] assms(2) by (auto simp: ids_ok_def)
  with assms show ?thesis by (simp add: ids_ok_def revoke_frame_def)
qed

lemma is_revoked_iff: "is_revoked t i \<longleftrightarrow> (\<exists>c. slot t i = Some c \<and> revoked c)"
  by (simp add: is_revoked_def split: option.splits)

lemma is_revoked_frame: "revoke_frame t t' \<Longrightarrow> is_revoked t i \<Longrightarrow> is_revoked t' i"
  unfolding is_revoked_iff using revoke_frame_forth by metis

lemma set_map_filter: "set (List.map_filter f xs) = {y. \<exists>x \<in> set xs. f x = Some y}"
  by (induction xs) (auto split: option.splits)

lemma mem_active_children:
  assumes "ids_ok t"
  shows "i \<in> set (active_children t p) \<longleftrightarrow>
     (\<exists>c. slot t i = Some c \<and> parent_cap c = Some p \<and> \<not> revoked c)"
proof -
  have slots: "(Some c \<in> set (capabilities t)) = (\<exists>j. slot t j = Some c)" for c
  proof
    assume "Some c \<in> set (capabilities t)"
    then obtain k where k: "k < length (capabilities t)" "capabilities t ! k = Some c"
      by (auto simp: in_set_conv_nth)
    then have "unat (of_nat k :: u64) = k"
      using assms by (intro unat_of_nat_small) (auto simp: ids_ok_def)
    with k have "slot t (of_nat k) = Some c" by (simp add: slot_def)
    then show "\<exists>j. slot t j = Some c" ..
  next
    assume "\<exists>j. slot t j = Some c"
    then show "Some c \<in> set (capabilities t)"
      by (metis nth_mem option.distinct(1) slot_def)
  qed
  have "i \<in> set (active_children t p) \<longleftrightarrow>
      (\<exists>c. Some c \<in> set (capabilities t) \<and> parent_cap c = Some p \<and> \<not> revoked c \<and> cap_id c = i)"
    by (force simp: active_children_def set_map_filter split: option.splits if_splits)
  also have "\<dots> \<longleftrightarrow> (\<exists>c. slot t i = Some c \<and> parent_cap c = Some p \<and> \<not> revoked c)"
    unfolding slots using assms ids_ok_def by metis
  finally show ?thesis .
qed


text \<open>An edge along which revocation has not been propagated yet.\<close>

definition bad_edge :: "CapabilityTable \<Rightarrow> u64 \<Rightarrow> u64 \<Rightarrow> bool" where
  "bad_edge t p j \<longleftrightarrow> is_revoked t p \<and> (\<exists>c. slot t j = Some c \<and> parent_cap c = Some p \<and> \<not> revoked c)"

lemma bad_edge_mark:
  "bad_edge (mark_revoked t i) p j \<Longrightarrow> p \<noteq> i \<Longrightarrow> bad_edge t p j"
  by (auto simp: bad_edge_def is_revoked_def slot_mark_revoked split: option.splits if_splits)

lemma revoke_cases:
  obtains (skip) "revoke_recursive t i = (t, 0)" "\<not> is_active (slot t i)"
  | (mark) c where "slot t i = Some c" "\<not> revoked c"
      "revoke_recursive t i = revoke_children (mark_revoked t i) (active_children (mark_revoked t i) i) 1"
proof (cases "is_active (slot t i)")
  case True
  then show thesis
    using mark by (auto simp: revoke_recursive.simps [of t i] Let_def is_active_def split: option.splits)
next
  case False
  then show thesis
    using skip by (auto simp: revoke_recursive.simps [of t i] is_active_def split: option.splits)
qed

text \<open>No new bad edge appears, and the capabilities asked for are revoked.\<close>

lemma revoke_bad_edges:
  "ids_ok t \<Longrightarrow> (\<forall>p j. bad_edge (fst (revoke_recursive t i)) p j \<longrightarrow> bad_edge t p j)
     \<and> (slot t i \<noteq> None \<longrightarrow> is_revoked (fst (revoke_recursive t i)) i)"
  "ids_ok t \<Longrightarrow> (\<forall>p j. bad_edge (fst (revoke_children t cs n)) p j \<longrightarrow> bad_edge t p j)
     \<and> (\<forall>c \<in> set cs. slot t c \<noteq> None \<longrightarrow> is_revoked (fst (revoke_children t cs n)) c)"
proof (induction t i and t cs n rule: revoke_recursive_revoke_children.induct)
  case (1 t i)
  show ?case
  proof (cases t i rule: revoke_cases)
    case skip
    then show ?thesis by (auto simp: is_active_def is_revoked_def split: option.splits)
  next
    case (mark c)
    let ?t' = "mark_revoked t i"
    let ?r = "fst (revoke_recursive t i)"
    have ids: "ids_ok ?t'" using ids_ok_frame [OF revoke_frame_mark "1.prems"] .
    with "1.IH" mark
    have IH: "\<forall>p j. bad_edge ?r p j \<longrightarrow> bad_edge ?t' p j"
        "\<forall>c \<in> set (active_children ?t' i). slot ?t' c \<noteq> None \<longrightarrow> is_revoked ?r c"
      by auto
    have fr: "revoke_frame ?t' ?r" using mark(3) revoke_is_frame(2) by metis
    have "bad_edge t p j" if bad: "bad_edge ?r p j" for p j
    proof -
      have bad': "bad_edge ?t' p j" using IH(1) bad by blast
      have "p \<noteq> i"
      proof
        assume "p = i"
        with bad' have "j \<in> set (active_children ?t' i)" "slot ?t' j \<noteq> None"
          by (auto simp: mem_active_children [OF ids] bad_edge_def)
        with IH(2) have "is_revoked ?r j" by blast
        with bad show False by (auto simp: bad_edge_def is_revoked_def)
      qed
      with bad' show ?thesis by (rule bad_edge_mark)
    qed
    moreover have "is_revoked ?r i"
      by (rule is_revoked_frame [OF fr]) (use mark in \<open>simp add: is_revoked_def slot_mark_revoked\<close>)
    ultimately show ?thesis by blast
  qed
next
  case (3 t c cs n)
  obtain t' k where r: "revoke_recursive t c = (t', k)" by (cases "revoke_recursive t c")
  have fr: "revoke_frame t t'" using revoke_is_frame(1) [of t c] r by simp
  have fr': "revoke_frame t' (fst (revoke_children t' cs (n + k)))" by (rule revoke_is_frame)
  note IH1 = "3.IH"(1) [OF "3.prems"]
    and IH2 = "3.IH"(2) [OF r [symmetric] ids_ok_frame [OF fr "3.prems"]]
  have "is_revoked (fst (revoke_children t' cs (n + k))) d"
    if "d \<in> set (c # cs)" "slot t d \<noteq> None" for d
  proof (cases "d \<in> set cs")
    case True
    from that(2) obtain x where "slot t d = Some x" by blast
    with fr obtain x' where "slot t' d = Some x'" by (metis revoke_frame_forth)
    with True IH2 show ?thesis by blast
  next
    case False
    with that IH1 r show ?thesis by (auto intro: is_revoked_frame [OF fr'])
  qed
  with IH1 IH2 r show ?case by (auto simp: split: prod.splits)
qed simp

text \<open>Only descendants are revoked.\<close>

lemma revoke_only_descendants:
  "ids_ok t \<Longrightarrow> is_revoked (fst (revoke_recursive t i)) j \<Longrightarrow> is_revoked t j \<or> descends t i j"
  "ids_ok t \<Longrightarrow> is_revoked (fst (revoke_children t cs n)) j \<Longrightarrow>
     is_revoked t j \<or> (\<exists>c \<in> set cs. descends t c j)"
proof (induction t i and t cs n rule: revoke_recursive_revoke_children.induct)
  case (1 t i)
  show ?case
  proof (cases t i rule: revoke_cases)
    case skip
    with "1.prems" show ?thesis by simp
  next
    case (mark c)
    let ?t' = "mark_revoked t i"
    have ids: "ids_ok ?t'" using ids_ok_frame [OF revoke_frame_mark "1.prems"(1)] .
    with "1.IH" "1.prems" mark
    have "is_revoked ?t' j \<or> (\<exists>c \<in> set (active_children ?t' i). descends ?t' c j)" by auto
    moreover have "descends t i d" if "d \<in> set (active_children ?t' i)" for d
      using that mark
      by (auto simp: mem_active_children [OF ids] slot_mark_revoked split: if_splits
          intro: descends.child [OF descends.self])
    moreover have "is_revoked ?t' j \<Longrightarrow> is_revoked t j \<or> descends t i j"
      using mark by (auto simp: is_revoked_def slot_mark_revoked split: if_splits intro: descends.self)
    ultimately show ?thesis
      using descends_frame_back [OF _ revoke_frame_mark] descends_trans by blast
  qed
next
  case (3 t c cs n)
  obtain t' k where r: "revoke_recursive t c = (t', k)" by (cases "revoke_recursive t c")
  have fr: "revoke_frame t t'" using revoke_is_frame(1) [of t c] r by simp
  have "is_revoked t' j \<or> (\<exists>c \<in> set cs. descends t' c j)"
    using "3.IH"(2) [OF r [symmetric] ids_ok_frame [OF fr "3.prems"(1)]] "3.prems"(2) r by simp
  with "3.IH"(1) [OF "3.prems"(1)] r show ?case
    using descends_frame_back [OF _ fr] by auto
qed simp


lemma cap_wf_ids_ok: "cap_wf t \<Longrightarrow> ids_ok t"
  using unsigned_less [of "next_id t", where ?'a = nat]
  by (auto simp: ids_ok_def cap_wf_def intro: order_trans less_imp_le)

lemma cap_wf_no_bad_edge: "cap_wf t \<Longrightarrow> \<not> bad_edge t p j"
proof
  assume wf: "cap_wf t" and "bad_edge t p j"
  then obtain c pc where "slot t j = Some c" "parent_cap c = Some p" "\<not> revoked c"
      "slot t p = Some pc" "revoked pc"
    by (auto simp: bad_edge_def is_revoked_iff)
  with cap_wf_slotD(4) [OF wf, of j c] show False by (simp add: parent_ok_def)
qed

lemma cap_wf_revoke_recursive:
  assumes wf: "cap_wf t"
  shows "cap_wf (fst (revoke_recursive t i))"
proof -
  let ?t' = "fst (revoke_recursive t i)"
  have fr: "revoke_frame t ?t'" by (rule revoke_is_frame)
  have nobad: "\<not> bad_edge ?t' p j" for p j
    using revoke_bad_edges(1) [OF cap_wf_ids_ok [OF wf]] cap_wf_no_bad_edge [OF wf] by blast
  have "cap_id c = j \<and> j \<noteq> 0 \<and> parent_ok ?t' j c" if c: "slot ?t' j = Some c" for j c
  proof -
    obtain c0 where c0: "slot t j = Some c0" "cap_id c = cap_id c0" "resource c = resource c0"
      "permissions c = permissions c0" "parent_cap c = parent_cap c0"
      using revoke_frame_back [OF fr c] by metis
    have "parent_ok ?t' j c"
    proof (cases "parent_cap c0")
      case None
      with c0 show ?thesis by (simp add: parent_ok_def)
    next
      case (Some p)
      with cap_wf_slotD(4) [OF wf c0(1)] obtain pc where pc: "p < j" "slot t p = Some pc"
        "can_delegate_to (permissions pc) (permissions c0)" "is_subset_of (resource c0) (resource pc)"
        by (auto simp: parent_ok_def split: option.splits)
      obtain r where "slot ?t' p = Some (pc\<lparr>revoked := r\<rparr>)"
        using revoke_frameD(2) [OF fr pc(2)] by blast
      with pc c0 c Some nobad [of p j] show ?thesis
        by (auto simp: parent_ok_def bad_edge_def is_revoked_def)
    qed
    with cap_wf_slotD(1,2) [OF wf c0(1)] c0 show ?thesis by simp
  qed
  with wf fr show ?thesis by (auto simp: cap_wf_def revoke_frame_def)
qed

lemma cap_revoke_cases:
  assumes "cap_revoke i rv t = (r, t')"
  obtains (denied) e where "r = Inl e" "t' = t"
  | (granted) c n where "r = Inr n" "revoke_recursive t i = (t', n)" "slot t i = Some c" "\<not> revoked c"
      "owner c = rv \<or> parent_owned_by t c rv"
  using assms
  by (auto simp: cap_revoke_def cap_get_def split: sum.splits if_splits prod.splits option.splits)

lemma cap_wf_revoke [intro]:
  assumes "cap_wf t" "cap_revoke i rv t = (r, t')"
  shows "cap_wf t'"
  using assms(2) by (cases rule: cap_revoke_cases)
    (use assms(1) cap_wf_revoke_recursive [OF assms(1), of i] in auto)

lemma revoked_descends:
  assumes "descends t a j" "cap_wf t" "is_revoked t a"
  shows "is_revoked t j"
  using assms
proof (induction rule: descends.induct)
  case (child a p i c)
  with cap_wf_no_bad_edge [of t p i] show ?case by (auto simp: bad_edge_def is_revoked_def)
qed

lemma descends_frame: "revoke_frame t t' \<Longrightarrow> descends t a i \<Longrightarrow> descends t' a i"
proof (rotate_tac, induction rule: descends.induct)
  case (self a c)
  from self(2,1) show ?case by (rule revoke_frame_forth) (rule descends.self)
next
  case (child a p i c)
  from child.prems child.hyps(2) obtain c' where "slot t' i = Some c'" "parent_cap c' = parent_cap c"
    by (rule revoke_frame_forth)
  with child show ?case by (auto intro: descends.child)
qed

text \<open>In a well-formed table exactly the descendants become revoked.\<close>

lemma revoke_recursive_exact:
  assumes wf: "cap_wf t"
  shows "is_revoked (fst (revoke_recursive t i)) j \<longleftrightarrow> is_revoked t j \<or> descends t i j"
proof
  show "is_revoked t j \<or> descends t i j" if "is_revoked (fst (revoke_recursive t i)) j"
    using revoke_only_descendants(1) [OF cap_wf_ids_ok [OF wf] that] .
next
  let ?t' = "fst (revoke_recursive t i)"
  have fr: "revoke_frame t ?t'" by (rule revoke_is_frame)
  have "is_revoked ?t' j" if d: "descends t i j"
  proof -
    from d have "slot t i \<noteq> None" by (induction rule: descends.induct) auto
    then have "is_revoked ?t' i" using revoke_bad_edges(1) [OF cap_wf_ids_ok [OF wf]] by blast
    with descends_frame [OF fr d] cap_wf_revoke_recursive [OF wf] show ?thesis
      by (rule revoked_descends)
  qed
  then show "is_revoked ?t' j" if "is_revoked t j \<or> descends t i j"
    using that is_revoked_frame [OF fr] by blast
qed

lemma active_count_card:
  assumes "length (capabilities t) \<le> 2 ^ 64"
  shows "active_count t = card {j. is_active (slot t j)}"
proof -
  let ?K = "{k. k < length (capabilities t) \<and> is_active (capabilities t ! k)}"
  have "unat (of_nat k :: u64) = k" if "k \<in> ?K" for k
    using that assms by (intro unat_of_nat_small) simp
  then have "bij_betw (of_nat :: nat \<Rightarrow> u64) ?K {j. is_active (slot t j)}"
    by (intro bij_betw_byWitness [where f' = unat]) (auto simp: slot_def is_active_def split: if_splits)
  then show ?thesis
    by (simp add: active_count_def length_filter_conv_card bij_betw_same_card)
qed


section \<open>Every table the kernel can reach\<close>

inductive cap_step :: "CapabilityTable \<Rightarrow> CapabilityTable \<Rightarrow> bool" where
  create_root: "cap_create_root own res perms t = Some (i, t') \<Longrightarrow> cap_step t t'"
| delegate: "cap_delegate src from to perms ovr t = Some (r, t') \<Longrightarrow> cap_step t t'"
| revoke: "cap_revoke i rv t = (r, t') \<Longrightarrow> cap_step t t'"

definition cap_reachable :: "CapabilityTable \<Rightarrow> bool" where
  "cap_reachable t \<longleftrightarrow> cap_step\<^sup>*\<^sup>* cap_new t"

lemma cap_step_wf: "cap_step t t' \<Longrightarrow> cap_wf t \<Longrightarrow> cap_wf t'"
  by (induction rule: cap_step.induct) auto

lemma cap_steps_wf: "cap_step\<^sup>*\<^sup>* t t' \<Longrightarrow> cap_wf t \<Longrightarrow> cap_wf t'"
  by (induction rule: rtranclp_induct) (auto intro: cap_step_wf)

lemma cap_reachable_wf: "cap_reachable t \<Longrightarrow> cap_wf t"
  by (auto simp: cap_reachable_def intro: cap_steps_wf)

lemma cap_reachable_step: "cap_reachable t \<Longrightarrow> cap_step t t' \<Longrightarrow> cap_reachable t'"
  by (auto simp: cap_reachable_def)

text \<open>An existing slot keeps its capability, up to the \<open>revoked\<close> flag, which is never cleared.\<close>

lemma cap_step_slot:
  assumes "cap_step t t'" "cap_wf t" "slot t j = Some c"
  shows "slot t' j = Some c \<or> revoke_frame t t'"
  using assms
proof (induction rule: cap_step.induct)
  case (create_root own res perms t i t')
  then have "j \<noteq> i" using cap_wf_fresh [of t] cap_create_root_Some(1) by force
  with create_root show ?case by (simp add: cap_create_root_slot)
next
  case (delegate src frm to perms ovr t r t')
  show ?case
  proof (cases r)
    case (Inl e)
    with delegate.hyps have "t' = t" using cap_delegate_Inl by blast
    then show ?thesis by simp
  next
    case (Inr i)
    with delegate.hyps have "i = next_id t" by (auto elim: cap_delegate_Inr)
    with delegate.prems have "j \<noteq> i" using cap_wf_fresh [of t] by force
    with delegate Inr cap_delegate_slot show ?thesis by metis
  qed
next
  case (revoke i rv t r t')
  from revoke.hyps show ?case
  proof (cases rule: cap_revoke_cases)
    case (granted c n)
    then show ?thesis using revoke_is_frame(1) [of t i] by simp
  qed simp
qed

lemma cap_step_revoked:
  assumes "cap_step t t'" "cap_wf t" "is_revoked t j"
  shows "is_revoked t' j"
  using assms cap_step_slot is_revoked_frame unfolding is_revoked_iff by metis

lemma cap_steps_revoked:
  "cap_step\<^sup>*\<^sup>* t t' \<Longrightarrow> cap_wf t \<Longrightarrow> is_revoked t j \<Longrightarrow> is_revoked t' j"
  by (induction rule: rtranclp_induct) (auto intro: cap_step_revoked cap_steps_wf)

lemma cap_validate_revoked: "is_revoked t j \<Longrightarrow> cap_validate t j task p = Inl Revoked"
  by (auto simp: is_revoked_def cap_validate_def cap_get_def split: option.splits)

text \<open>Permissions and resources shrink along a delegation chain.\<close>

lemma descends_confined:
  assumes "descends t a i" "cap_wf t" "slot t a = Some ac" "slot t i = Some c"
  shows "contains (permissions ac) (permissions c) \<and> is_subset_of (resource c) (resource ac)"
  using assms
proof (induction arbitrary: c rule: descends.induct)
  case (child a p i c0)
  then have "c0 = c" by simp
  with child.prems(1) child.hyps obtain pc where "slot t p = Some pc"
    "contains (permissions pc) (permissions c)" "is_subset_of (resource c) (resource pc)"
    using cap_wf_slotD(4) [of t i c]
    by (auto simp: parent_ok_def can_delegate_to_def split: option.splits)
  moreover from this child.IH child.prems
  have "contains (permissions ac) (permissions pc) \<and> is_subset_of (resource pc) (resource ac)" by blast
  ultimately show ?case using contains_trans is_subset_of_trans by blast
qed simp

lemma descends_from_root:
  assumes "cap_wf t" "slot t i = Some c"
  shows "\<exists>r rc. descends t r i \<and> slot t r = Some rc \<and> parent_cap rc = None"
  using assms(2)
proof (induction "unat i" arbitrary: i c rule: less_induct)
  case less
  show ?case
  proof (cases "parent_cap c")
    case None
    with less.prems show ?thesis by (blast intro: descends.self)
  next
    case (Some p)
    with cap_wf_slotD(4) [OF assms(1) less.prems] obtain pc where "p < i" "slot t p = Some pc"
      by (auto simp: parent_ok_def split: option.splits)
    with less.hyps obtain r rc where "descends t r p" "slot t r = Some rc" "parent_cap rc = None"
      by (metis word_less_nat_alt)
    with Some less.prems show ?thesis by (blast intro: descends.child)
  qed
qed

section \<open>Example table\<close>

text \<open>A root capability of task 1 and a delegation of part of it to task 2.\<close>

definition demo_table :: CapabilityTable where
  "demo_table =
     \<lparr>capabilities =
        [None,
         Some \<lparr>cap_id = 1, resource = Storage ''/data'', permissions = from_raw 11, owner = 1,
               parent_cap = None, revoked = False\<rparr>,
         Some \<lparr>cap_id = 2, resource = Storage ''/data/logs'', permissions = from_raw 9, owner = 2,
               parent_cap = Some 1, revoked = False\<rparr>],
      next_id = 3\<rparr>"


end
