(* ===== verification/Network.thy ===== *)
theory Network
  imports Cap_Table Btree_Map "HOL-Library.List_Lexorder" "HOL-Library.Char_ord"
begin

text \<open>
  The network services above the driver: the firewall (\<^verbatim>\<open>net/firewall.rs\<close>), the resolver (\<^verbatim>\<open>net/dns.rs\<close>), the TLS stub (\<^verbatim>\<open>net/tls.rs\<close>), the
  start and the polling of the TCP/IP stack (\<^verbatim>\<open>net/stack.rs\<close>) and the TCP sockets (\<^verbatim>\<open>net/socket.rs\<close>).

  The stack is the smoltcp crate.  Its state has a type parameter, and a record gives the operations the kernel calls; what the
  kernel relies on is stated where it is used.
\<close>

type_synonym ipv4 = "u8 \<times> u8 \<times> u8 \<times> u8"

section \<open>Firewall\<close>

datatype FirewallDecision = Allow | Deny string

definition check_outbound :: "CapabilityTable \<Rightarrow> u64 \<Rightarrow> u64 \<Rightarrow> string \<Rightarrow> u16 \<Rightarrow> FirewallDecision" where
  "check_outbound t task_id cid target_host target_port =
     (case cap_validate t cid task_id CONNECT of
        Inl _ \<Rightarrow> Deny ''no valid network capability''
      | Inr cap \<Rightarrow>
          (case resource cap of
             Network host port \<Rightarrow>
               if host \<noteq> ''*'' \<and> host \<noteq> target_host then Deny ''host not allowed''
               else if port \<noteq> 0 \<and> port \<noteq> target_port then Deny ''port not allowed''
               else Allow
           | _ \<Rightarrow> Deny ''not a network capability''))"

section \<open>Resolver\<close>

type_synonym DnsResolver = "(string, ipv4) btree"

definition resolver_new :: DnsResolver where
  "resolver_new = bt_insert ''localhost'' (127, 0, 0, 1) []"

definition resolver_resolve :: "DnsResolver \<Rightarrow> string \<Rightarrow> ipv4 option" where
  "resolver_resolve cache hostname = bt_get cache hostname"

definition add_entry :: "string \<Rightarrow> ipv4 \<Rightarrow> DnsResolver \<Rightarrow> DnsResolver" where
  "add_entry hostname addr cache = bt_insert hostname addr cache"

definition dns_init :: "DnsResolver option \<Rightarrow> DnsResolver option" where
  "dns_init r = Some resolver_new"

definition resolve :: "DnsResolver option \<Rightarrow> string \<Rightarrow> ipv4 option" where
  "resolve r hostname = Option.bind r (\<lambda>c. resolver_resolve c hostname)"

section \<open>TLS\<close>

datatype TlsError = HandshakeNotImplemented | CertificateValidationNotImplemented | NoTlsLibrary

definition tls_connect :: "string \<Rightarrow> u16 \<Rightarrow> u64 \<Rightarrow> u64 \<Rightarrow> TlsError + unit" where
  "tls_connect host port task_id cid = Inl HandshakeNotImplemented"

definition tls_available :: bool where
  "tls_available = False"

section \<open>The stack\<close>

text \<open>The operations of smoltcp: \<open>SocketSet::add\<close> of a new socket, and on a socket \<open>connect\<close>, \<open>may_send\<close>, \<open>send_slice\<close>, \<open>may_recv\<close>,
  \<open>recv_slice\<close> (with the size of the buffer; it yields the bytes it wrote), \<open>close\<close>; and \<open>Interface::poll\<close>.\<close>

record 's tcp_stack =
  set_add :: "'s \<Rightarrow> nat \<times> 's"
  sock_connect :: "nat \<Rightarrow> ipv4 \<Rightarrow> u16 \<Rightarrow> u16 \<Rightarrow> 's \<Rightarrow> bool \<times> 's"
  may_send :: "nat \<Rightarrow> 's \<Rightarrow> bool"
  send_slice :: "nat \<Rightarrow> u8 list \<Rightarrow> 's \<Rightarrow> nat option \<times> 's"
  may_recv :: "nat \<Rightarrow> 's \<Rightarrow> bool"
  recv_slice :: "nat \<Rightarrow> nat \<Rightarrow> 's \<Rightarrow> u8 list option \<times> 's"
  sock_close :: "nat \<Rightarrow> 's \<Rightarrow> 's"
  iface_poll :: "u64 \<Rightarrow> 's \<Rightarrow> 's"
  iface_new :: "u8 list \<Rightarrow> ipv4 \<times> nat \<Rightarrow> ipv4 \<Rightarrow> 's \<Rightarrow> 's"

text \<open>\<open>NEXT_LOCAL_PORT\<close>, \<open>RESOLVER\<close>, and whether \<open>INTERFACE\<close> and \<open>SOCKETS\<close> hold a value.\<close>

record 's net_state =
  next_local_port :: u16
  resolver :: "DnsResolver option"
  interface_up :: bool
  sockets_up :: bool
  smol :: 's

definition net_static :: "'s \<Rightarrow> 's net_state" where
  "net_static s = \<lparr>next_local_port = 49152, resolver = None, interface_up = False, sockets_up = False, smol = s\<rparr>"

definition stack_init :: "'s tcp_stack \<Rightarrow> u8 list \<Rightarrow> 's net_state \<Rightarrow> 's net_state" where
  "stack_init st hw_addr n =
     n\<lparr>smol := iface_new st hw_addr ((10, 0, 2, 15), 24) (10, 0, 2, 2) (smol n), interface_up := True, sockets_up := True\<rparr>"

definition stack_poll :: "'s tcp_stack \<Rightarrow> u64 \<Rightarrow> 's net_state \<Rightarrow> 's net_state" where
  "stack_poll st now n = (if interface_up n \<and> sockets_up n then n\<lparr>smol := iface_poll st now (smol n)\<rparr> else n)"

text \<open>The part of \<open>net::init\<close> after the driver.\<close>

definition net_services_init :: "'s tcp_stack \<Rightarrow> u8 list \<Rightarrow> 's net_state \<Rightarrow> 's net_state" where
  "net_services_init st hw_addr n =
     (let n = stack_init st hw_addr n
      in n\<lparr>resolver := dns_init (resolver n)\<rparr>)"

section \<open>Sockets\<close>

datatype SocketError = SockConnectionFailed | NotConnected | SockSendFailed | SockReceiveFailed | SockCapabilityDenied

definition tcp_create :: "'s tcp_stack \<Rightarrow> 's net_state \<Rightarrow> nat option \<times> 's net_state" where
  "tcp_create st n =
     (if sockets_up n then (let (h, s) = set_add st (smol n) in (Some h, n\<lparr>smol := s\<rparr>)) else (None, n))"

definition tcp_connect :: "'s tcp_stack \<Rightarrow> CapabilityTable \<Rightarrow> nat \<Rightarrow> ipv4 \<Rightarrow> u16 \<Rightarrow> u64 \<Rightarrow> u64 \<Rightarrow> 's net_state
    \<Rightarrow> ((SocketError + unit) \<times> 's net_state) option" where
  "tcp_connect st t handle remote_addr remote_port task_id net_cap n =
     (case cap_validate t net_cap task_id CONNECT of
        Inl _ \<Rightarrow> Some (Inl SockCapabilityDenied, n)
      | Inr _ \<Rightarrow>
          if interface_up n \<and> sockets_up n then do {
            let raw_port = next_local_port n;
            let n = n\<lparr>next_local_port := raw_port + 1\<rparr>;
            local_port \<leftarrow> checked_add 49152 (raw_port mod (65535 - 49152 + 1));
            let (ok, s) = sock_connect st handle remote_addr remote_port local_port (smol n);
            Some (if ok then Inr () else Inl SockConnectionFailed, n\<lparr>smol := s\<rparr>)
          }
          else Some (Inl SockConnectionFailed, n))"

definition tcp_send :: "'s tcp_stack \<Rightarrow> nat \<Rightarrow> u8 list \<Rightarrow> 's net_state \<Rightarrow> (SocketError + nat) \<times> 's net_state" where
  "tcp_send st handle data n =
     (if sockets_up n then
        if \<not> may_send st handle (smol n) then (Inl NotConnected, n)
        else (let (r, s) = send_slice st handle data (smol n)
              in (case r of Some k \<Rightarrow> Inr k | None \<Rightarrow> Inl SockSendFailed, n\<lparr>smol := s\<rparr>))
      else (Inl SockSendFailed, n))"

definition tcp_receive :: "'s tcp_stack \<Rightarrow> nat \<Rightarrow> nat \<Rightarrow> 's net_state \<Rightarrow> (SocketError + u8 list) \<times> 's net_state" where
  "tcp_receive st handle buffer_len n =
     (if sockets_up n then
        if \<not> may_recv st handle (smol n) then (Inl NotConnected, n)
        else (let (r, s) = recv_slice st handle buffer_len (smol n)
              in (case r of Some bs \<Rightarrow> Inr bs | None \<Rightarrow> Inl SockReceiveFailed, n\<lparr>smol := s\<rparr>))
      else (Inl SockReceiveFailed, n))"

definition tcp_close :: "'s tcp_stack \<Rightarrow> nat \<Rightarrow> 's net_state \<Rightarrow> 's net_state" where
  "tcp_close st handle n = (if sockets_up n then n\<lparr>smol := sock_close st handle (smol n)\<rparr> else n)"

section \<open>What the services guarantee\<close>

text \<open>The authority a decision rests on.\<close>

definition may_reach :: "CapabilityTable \<Rightarrow> u64 \<Rightarrow> u64 \<Rightarrow> string \<Rightarrow> u16 \<Rightarrow> bool" where
  "may_reach t task_id cid host port \<longleftrightarrow>
     (\<exists>cap h p. cap_validate t cid task_id CONNECT = Inr cap \<and> resource cap = Network h p \<and> is_subset_of (Network host port) (Network h p))"

lemma firewall_iff: "check_outbound t task_id cid host port = Allow \<longleftrightarrow> may_reach t task_id cid host port"
  by (auto simp: check_outbound_def may_reach_def is_subset_of_def split: sum.splits ResourceRef.splits if_splits)


text \<open>The local port is always in the ephemeral range, so choosing it never overflows; ports repeat after 16384 connections.\<close>

lemma local_port_range:
  fixes raw_port :: u16
  obtains p where "checked_add 49152 (raw_port mod (65535 - 49152 + 1)) = Some p" "49152 \<le> p"
proof -
  have b: "unat (raw_port mod 16384) < 16384" by (simp add: unat_mod)
  then have "checked_add 49152 (raw_port mod (65535 - 49152 + 1)) = Some (49152 + raw_port mod 16384)"
    by (simp add: checked_add_def)
  moreover have "unat (49152 + raw_port mod 16384) = 49152 + unat (raw_port mod 16384)"
    using b unat_add_no_overflow [of 49152 "raw_port mod 16384"] by simp
  then have "49152 \<le> 49152 + raw_port mod 16384" by (simp add: word_le_nat_alt)
  ultimately show thesis by (rule that)
qed

lemma tcp_connect_total: "\<exists>r n'. tcp_connect st t h a p task_id cap n = Some (r, n')"
proof -
  obtain lp where "checked_add 49152 (next_local_port n mod (65535 - 49152 + 1)) = Some lp" by (rule local_port_range)
  then show ?thesis by (auto simp: tcp_connect_def Let_def split: sum.splits prod.splits)
qed

text \<open>The socket layer checks that the capability has \<open>CONNECT\<close> but not what it is for: with a capability for one host, a task connects to any other.\<close>

lemma tcp_connect_ignores_resource:
  assumes "cap_validate t cid task_id CONNECT = Inr cap" "interface_up n" "sockets_up n"
    and "\<And>lp s. fst (sock_connect st h a p lp s)"
  shows "\<exists>n'. tcp_connect st t h a p task_id cid n = Some (Inr (), n')"
proof -
  obtain lp where "checked_add 49152 (next_local_port n mod (65535 - 49152 + 1)) = Some lp" by (rule local_port_range)
  then show ?thesis using assms by (auto simp: tcp_connect_def Let_def split: prod.splits) (metis fst_conv)
qed

end
