(* ===== verification/Http.thy ===== *)
theory Http
  imports Http_Text Network
begin

text \<open>
  \<^verbatim>\<open>net/http.rs\<close>: requests over the TCP sockets.  \<open>get\<close> and \<open>post\<close> differ only in the bytes they send, so the steps they share are written once.

  Both wait in loops that only the clock ends.  Time is part of the environment: \<open>clock\<close> reads the tick counter, and \<open>pass\<close> is what happens
  between two passes of a loop, interrupts included.  A loop that never ends has the value \<open>None\<close>, as a panic has.
\<close>

record 's environ =
  clock :: "'s \<Rightarrow> u64"
  pass :: "'s \<Rightarrow> 's"

datatype HttpError = DnsResolutionFailed | HttpConnectionFailed | HttpSendFailed | HttpReceiveFailed | ParseError | HttpCapabilityDenied | FirewallDenied

section \<open>Loops\<close>

definition poll_now :: "'s tcp_stack \<Rightarrow> 's environ \<Rightarrow> 's net_state \<Rightarrow> 's net_state" where
  "poll_now st env n = stack_poll st (clock env (smol n)) n"

definition pass_time :: "'s environ \<Rightarrow> 's net_state \<Rightarrow> 's net_state" where
  "pass_time env n = n\<lparr>smol := pass env (smol n)\<rparr>"

partial_function (option) wait_deadline :: "'s tcp_stack \<Rightarrow> 's environ \<Rightarrow> u64 \<Rightarrow> 's net_state \<Rightarrow> 's net_state option" where
  "wait_deadline st env deadline n =
     (let n = pass_time env (poll_now st env n) in
      if deadline < clock env (smol n) then Some n else wait_deadline st env deadline n)"

partial_function (option) receive_loop :: "'s tcp_stack \<Rightarrow> 's environ \<Rightarrow> nat \<Rightarrow> u64 \<Rightarrow> u8 list \<Rightarrow> 's net_state \<Rightarrow> (u8 list \<times> 's net_state) option" where
  "receive_loop st env handle deadline bytes n =
     (let (r, n) = tcp_receive st handle 4096 (poll_now st env n) in
      if r = Inr [] \<or> r = Inl NotConnected then Some (bytes, n)
      else
        (let bytes = bytes @ (case r of Inr bs \<Rightarrow> bs | Inl _ \<Rightarrow> []);
             n = pass_time env n
         in if deadline < clock env (smol n) then Some (bytes, n) else receive_loop st env handle deadline bytes n))"

section \<open>Requests\<close>

definition crlf :: string where
  "crlf = [CHR 0x0D, CHR 0x0A]"

definition get_request :: "string \<Rightarrow> string \<Rightarrow> string" where
  "get_request path host = ''GET '' @ path @ '' HTTP/1.1'' @ crlf @ ''Host: '' @ host @ crlf @ ''Connection: close'' @ crlf @ crlf"

definition post_request :: "string \<Rightarrow> string \<Rightarrow> nat \<Rightarrow> string" where
  "post_request path host len = ''POST '' @ path @ '' HTTP/1.1'' @ crlf @ ''Host: '' @ host @ crlf @ ''Content-Type: application/json'' @ crlf
     @ ''Content-Length: '' @ dec len @ crlf @ ''Connection: close'' @ crlf @ crlf"

text \<open>Name resolution, connection, and the time given to the connection.\<close>

definition http_open :: "'s tcp_stack \<Rightarrow> 's environ \<Rightarrow> CapabilityTable \<Rightarrow> string \<Rightarrow> u16 \<Rightarrow> u64 \<Rightarrow> u64 \<Rightarrow> 's net_state
    \<Rightarrow> ((HttpError + nat) \<times> 's net_state) option" where
  "http_open st env t host port task_id net_cap n =
     (case resolve (resolver n) host of
        None \<Rightarrow> Some (Inl DnsResolutionFailed, n)
      | Some addr \<Rightarrow>
          (let (created, n) = tcp_create st n in
           case created of
             None \<Rightarrow> Some (Inl HttpConnectionFailed, n)
           | Some handle \<Rightarrow> do {
               (r, n) \<leftarrow> tcp_connect st t handle addr port task_id net_cap n;
               case r of
                 Inl _ \<Rightarrow> Some (Inl HttpConnectionFailed, n)
               | Inr _ \<Rightarrow> do {
                   deadline \<leftarrow> checked_add (clock env (smol n)) 500;
                   n \<leftarrow> wait_deadline st env deadline n;
                   Some (Inr handle, n)
                 }
             }))"

fun send_all :: "'s tcp_stack \<Rightarrow> nat \<Rightarrow> u8 list list \<Rightarrow> 's net_state \<Rightarrow> bool \<times> 's net_state" where
  "send_all st handle [] n = (True, n)"
| "send_all st handle (b # bs) n =
     (case tcp_send st handle b n of
        (Inr _, n) \<Rightarrow> send_all st handle bs n
      | (Inl _, n) \<Rightarrow> (False, tcp_close st handle n))"

definition http_finish :: "'s tcp_stack \<Rightarrow> 's environ \<Rightarrow> nat \<Rightarrow> 's net_state \<Rightarrow> ((HttpError + HttpResponse) \<times> 's net_state) option" where
  "http_finish st env handle n = do {
     recv_deadline \<leftarrow> checked_add (clock env (smol n)) 1000;
     (bytes, n) \<leftarrow> receive_loop st env handle recv_deadline [] n;
     let n = tcp_close st handle n;
     if bytes = [] then Some (Inr \<lparr>status_code = 0, body = []\<rparr>, n)
     else Some (case parse_http_response bytes of Some r \<Rightarrow> Inr r | None \<Rightarrow> Inl ParseError, n)
   }"

definition http_request :: "'s tcp_stack \<Rightarrow> 's environ \<Rightarrow> CapabilityTable \<Rightarrow> (string \<Rightarrow> string \<Rightarrow> u8 list list) \<Rightarrow> string \<Rightarrow> u64 \<Rightarrow> u64 \<Rightarrow> 's net_state
    \<Rightarrow> ((HttpError + HttpResponse) \<times> 's net_state) option" where
  "http_request st env t chunks url task_id net_cap n =
     (let (host, port, path) = parse_url url in
      case cap_validate t net_cap task_id CONNECT of
        Inl _ \<Rightarrow> Some (Inl HttpCapabilityDenied, n)
      | Inr _ \<Rightarrow>
          (case check_outbound t task_id net_cap host port of
             Deny _ \<Rightarrow> Some (Inl FirewallDenied, n)
           | Allow \<Rightarrow> do {
               (r, n) \<leftarrow> http_open st env t host port task_id net_cap n;
               case r of
                 Inl e \<Rightarrow> Some (Inl e, n)
               | Inr handle \<Rightarrow>
                   (let (ok, n) = send_all st handle (chunks path host) n in
                    if \<not> ok then Some (Inl HttpSendFailed, n) else http_finish st env handle n)
             }))"

definition http_get :: "'s tcp_stack \<Rightarrow> 's environ \<Rightarrow> CapabilityTable \<Rightarrow> string \<Rightarrow> u64 \<Rightarrow> u64 \<Rightarrow> 's net_state
    \<Rightarrow> ((HttpError + HttpResponse) \<times> 's net_state) option" where
  "http_get st env t url task_id net_cap n =
     http_request st env t (\<lambda>path host. [bytes_of (get_request path host)]) url task_id net_cap n"

definition http_post :: "'s tcp_stack \<Rightarrow> 's environ \<Rightarrow> CapabilityTable \<Rightarrow> string \<Rightarrow> u8 list \<Rightarrow> u64 \<Rightarrow> u64 \<Rightarrow> 's net_state
    \<Rightarrow> ((HttpError + HttpResponse) \<times> 's net_state) option" where
  "http_post st env t url data task_id net_cap n =
     http_request st env t (\<lambda>path host. [bytes_of (post_request path host (length data)), data]) url task_id net_cap n"

section \<open>Time\<close>

text \<open>Between two states at most \<open>k\<close> ticks arrive, and while none arrives, the time left until the next one does not grow.\<close>

definition within :: "('s \<Rightarrow> u64) \<Rightarrow> ('s \<Rightarrow> nat) \<Rightarrow> nat \<Rightarrow> 's \<Rightarrow> 's \<Rightarrow> bool" where
  "within clk left k s s' \<longleftrightarrow> unat (clk s) \<le> unat (clk s') \<and> unat (clk s') \<le> unat (clk s) + k \<and> (clk s' = clk s \<longrightarrow> left s' \<le> left s)"

text \<open>An operation takes at most \<open>2 ^ 32\<close> ticks, as long as the counter is not near its end.\<close>

definition moves :: "('s \<Rightarrow> u64) \<Rightarrow> ('s \<Rightarrow> nat) \<Rightarrow> 's \<Rightarrow> 's \<Rightarrow> bool" where
  "moves clk left s s' \<longleftrightarrow> (unat (clk s) < 2 ^ 63 \<longrightarrow> within clk left (2 ^ 32) s s')"

text \<open>Every operation of the stack moves the clock in this sense, and a pass of a loop takes some of the time until the next tick.\<close>

definition timely :: "'s tcp_stack \<Rightarrow> 's environ \<Rightarrow> ('s \<Rightarrow> nat) \<Rightarrow> bool" where
  "timely st env left \<longleftrightarrow>
     (\<forall>s. moves (clock env) left s (snd (set_add st s))) \<and> (\<forall>h a p lp s. moves (clock env) left s (snd (sock_connect st h a p lp s)))
   \<and> (\<forall>h d s. moves (clock env) left s (snd (send_slice st h d s))) \<and> (\<forall>h k s. moves (clock env) left s (snd (recv_slice st h k s)))
   \<and> (\<forall>h s. moves (clock env) left s (sock_close st h s)) \<and> (\<forall>t s. moves (clock env) left s (iface_poll st t s))
   \<and> (\<forall>s. moves (clock env) left s (pass env s))
   \<and> (\<forall>s. unat (clock env s) < 2 ^ 63 \<longrightarrow> clock env (pass env s) = clock env s \<longrightarrow> left (pass env s) < left s)"

lemma within_refl: "within clk left k s s"
  by (simp add: within_def)

lemma within_trans:
  assumes "within clk left j s s'" "within clk left k s' s''" shows "within clk left (j + k) s s''"
proof -
  have "clk s'' = clk s \<Longrightarrow> clk s' = clk s" using assms by (auto simp: within_def word_le_nat_alt [symmetric])
  then show ?thesis using assms by (auto simp: within_def)
qed

lemma within_mono: "within clk left j s s' \<Longrightarrow> j \<le> k \<Longrightarrow> within clk left k s s'"
  by (auto simp: within_def)

lemma movesD: "moves clk left s s' \<Longrightarrow> unat (clk s) < 2 ^ 63 \<Longrightarrow> within clk left (2 ^ 32) s s'"
  by (simp add: moves_def)

lemma moves_refl: "moves clk left s s"
  by (simp add: moves_def within_refl)

lemma timelyD:
  assumes "timely st env left"
  shows "moves (clock env) left s (snd (set_add st s))" "moves (clock env) left s (snd (sock_connect st h a p lp s))"
    "moves (clock env) left s (snd (send_slice st h d s))" "moves (clock env) left s (snd (recv_slice st h k s))"
    "moves (clock env) left s (sock_close st h s)" "moves (clock env) left s (iface_poll st t s)" "moves (clock env) left s (pass env s)"
  using assms unfolding timely_def by blast+

lemma service_moves:
  assumes "timely st env left"
  shows poll_moves: "moves (clock env) left (smol n) (smol (poll_now st env n))"
    and receive_moves: "moves (clock env) left (smol n) (smol (snd (tcp_receive st h k n)))"
    and create_moves: "moves (clock env) left (smol n) (smol (snd (tcp_create st n)))"
    and send_moves: "moves (clock env) left (smol n) (smol (snd (tcp_send st h d n)))"
    and close_moves: "moves (clock env) left (smol n) (smol (tcp_close st h n))"
proof -
  note t = timelyD [OF assms]
  show "moves (clock env) left (smol n) (smol (poll_now st env n))" by (simp add: poll_now_def stack_poll_def t(6) moves_refl)
  show "moves (clock env) left (smol n) (smol (snd (tcp_receive st h k n)))"
    using t(4) [of "smol n" h k] by (simp add: tcp_receive_def moves_refl split_beta)
  show "moves (clock env) left (smol n) (smol (snd (tcp_create st n)))"
    using t(1) [of "smol n"] by (simp add: tcp_create_def moves_refl split_beta)
  show "moves (clock env) left (smol n) (smol (snd (tcp_send st h d n)))"
    using t(3) [of "smol n" h d] by (simp add: tcp_send_def moves_refl split_beta)
  show "moves (clock env) left (smol n) (smol (tcp_close st h n))" by (simp add: tcp_close_def t(5) moves_refl)
qed

lemma connect_moves:
  assumes "timely st env left" "tcp_connect st t h a p task_id cap n = Some (r, n')"
  shows "moves (clock env) left (smol n) (smol n')"
  using assms(2) timelyD(2) [OF assms(1), of "smol n" h a p]
  by (auto simp: tcp_connect_def Let_def split_beta moves_refl split: sum.splits if_splits bind_splits)

text \<open>A pass of a loop that ends in \<open>pass_time\<close>: the clock moves on, or the time until it does becomes shorter.\<close>

lemma pass_progress:
  assumes "timely st env left" "within (clock env) left (2 * 2 ^ 32) (smol n) (smol n1)" "unat (clock env (smol n)) + 2 ^ 34 < 2 ^ 63"
  shows "within (clock env) left (3 * 2 ^ 32) (smol n) (smol (pass_time env n1))"
    and "clock env (smol (pass_time env n1)) = clock env (smol n) \<Longrightarrow> left (smol (pass_time env n1)) < left (smol n)"
proof -
  have c: "unat (clock env (smol n1)) < 2 ^ 63" using assms(2,3) by (simp add: within_def)
  have p: "within (clock env) left (2 ^ 32) (smol n1) (smol (pass_time env n1))"
    using assms(1) c by (simp add: timely_def moves_def pass_time_def)
  from within_trans [OF assms(2) p] show w: "within (clock env) left (3 * 2 ^ 32) (smol n) (smol (pass_time env n1))" by simp
  assume e: "clock env (smol (pass_time env n1)) = clock env (smol n)"
  then have e1: "clock env (smol n1) = clock env (smol n)" using assms(2) p by (auto simp: within_def word_le_nat_alt [symmetric])
  then have "left (smol (pass_time env n1)) < left (smol n1)"
    using assms(1) c e unfolding timely_def by (simp add: pass_time_def)
  also have "left (smol n1) \<le> left (smol n)" using assms(2) e1 by (simp add: within_def)
  finally show "left (smol (pass_time env n1)) < left (smol n)" .
qed

section \<open>The loops end\<close>

lemma wait_deadline_ends:
  assumes t: "timely st env left" and d: "unat deadline + 2 ^ 36 < 2 ^ 63"
  shows "unat (clock env (smol n)) \<le> unat deadline + 2 ^ 34 \<Longrightarrow>
    \<exists>n'. wait_deadline st env deadline n = Some n' \<and> unat (clock env (smol n')) \<le> unat deadline + 2 ^ 35"
proof (induction n rule: wf_induct_rule [OF wf_measures [of "[\<lambda>n. unat deadline + 2 ^ 34 - unat (clock env (smol n)), \<lambda>n. left (smol n)]"]])
  case (1 n)
  define n1 where "n1 = pass_time env (poll_now st env n)"
  have c: "unat (clock env (smol n)) + 2 ^ 34 < 2 ^ 63" using "1.prems" d by simp
  have "within (clock env) left (2 * 2 ^ 32) (smol n) (smol (poll_now st env n))"
    using c by (intro within_mono [OF movesD [OF poll_moves [OF t]]]) simp_all
  note p = pass_progress [OF t this c, folded n1_def]
  show ?case
  proof (cases "deadline < clock env (smol n1)")
    case True
    then have "wait_deadline st env deadline n = Some n1" by (subst wait_deadline.simps) (simp add: n1_def)
    moreover have "unat (clock env (smol n1)) \<le> unat deadline + 2 ^ 35" using p(1) "1.prems" by (simp add: within_def)
    ultimately show ?thesis by blast
  next
    case False
    then have le: "unat (clock env (smol n1)) \<le> unat deadline" by (simp add: word_le_nat_alt not_less)
    have "wait_deadline st env deadline n = wait_deadline st env deadline n1"
      using False by (subst wait_deadline.simps) (simp add: n1_def)
    moreover have "(n1, n) \<in> measures [\<lambda>n. unat deadline + 2 ^ 34 - unat (clock env (smol n)), \<lambda>n. left (smol n)]"
      using p le by (cases "clock env (smol n1) = clock env (smol n)") (auto simp: within_def dest: le_neq_implies_less)
    ultimately show ?thesis using "1.IH" [of n1] le by simp
  qed
qed

lemma receive_loop_ends:
  assumes t: "timely st env left" and d: "unat deadline + 2 ^ 36 < 2 ^ 63"
  shows "unat (clock env (smol n)) \<le> unat deadline + 2 ^ 34 \<Longrightarrow> \<exists>r. receive_loop st env handle deadline bytes n = Some r"
proof (induction n arbitrary: bytes rule: wf_induct_rule [OF wf_measures [of "[\<lambda>n. unat deadline + 2 ^ 34 - unat (clock env (smol n)), \<lambda>n. left (smol n)]"]])
  case (1 n)
  obtain r n0 where r: "tcp_receive st handle 4096 (poll_now st env n) = (r, n0)" by force
  define n1 where "n1 = pass_time env n0"
  have c: "unat (clock env (smol n)) + 2 ^ 34 < 2 ^ 63" using "1.prems" d by simp
  have w: "within (clock env) left (2 ^ 32) (smol n) (smol (poll_now st env n))" using movesD [OF poll_moves [OF t]] c by simp
  then have "unat (clock env (smol (poll_now st env n))) < 2 ^ 63" using c by (simp add: within_def)
  then have "within (clock env) left (2 ^ 32) (smol (poll_now st env n)) (smol n0)"
    using movesD [OF receive_moves [OF t, of "poll_now st env n" handle 4096]] r by simp
  from within_trans [OF w this] have "within (clock env) left (2 * 2 ^ 32) (smol n) (smol n0)" by simp
  note p = pass_progress [OF t this c, folded n1_def]
  show ?case
  proof (cases "(r = Inr [] \<or> r = Inl NotConnected) \<or> deadline < clock env (smol n1)")
    case True
    then show ?thesis by (subst receive_loop.simps) (auto simp: r n1_def)
  next
    case False
    then have le: "unat (clock env (smol n1)) \<le> unat deadline" by (simp add: word_le_nat_alt not_less)
    define bytes' where "bytes' = bytes @ (case r of Inr bs \<Rightarrow> bs | Inl _ \<Rightarrow> [])"
    have "receive_loop st env handle deadline bytes n = receive_loop st env handle deadline bytes' n1"
      using False by (subst receive_loop.simps) (simp add: r n1_def bytes'_def Let_def)
    moreover have "(n1, n) \<in> measures [\<lambda>n. unat deadline + 2 ^ 34 - unat (clock env (smol n)), \<lambda>n. left (smol n)]"
      using p le by (cases "clock env (smol n1) = clock env (smol n)") (auto simp: within_def dest: le_neq_implies_less)
    ultimately show ?thesis using "1.IH" [of n1] le by simp
  qed
qed

section \<open>Requests return, and only with authority\<close>

lemma checked_add_small:
  "unat (a :: u64) < 2 ^ 63 \<Longrightarrow> unat b < 2 ^ 62 \<Longrightarrow> checked_add a b = Some (a + b) \<and> unat (a + b) = unat a + unat b"
  using unat_add_no_overflow [of a b] by (simp add: checked_add_def)

lemma http_open_returns:
  assumes t: "timely st env left" and c: "unat (clock env (smol n)) < 2 ^ 60"
  shows "\<exists>r n'. http_open st env tab host port task_id cap n = Some (r, n') \<and> unat (clock env (smol n')) < 2 ^ 61"
proof (cases "resolve (resolver n) host")
  case None
  then show ?thesis using c by (simp add: http_open_def)
next
  case (Some addr)
  obtain created n1 where n1: "tcp_create st n = (created, n1)" by force
  have c1: "unat (clock env (smol n1)) < 2 ^ 60 + 2 ^ 33"
    using movesD [OF create_moves [OF t, of n]] c n1 by (simp add: within_def)
  show ?thesis
  proof (cases created)
    case None
    then show ?thesis using Some n1 c1 by (simp add: http_open_def)
  next
    case (Some handle)
    obtain r n2 where n2: "tcp_connect st tab handle addr port task_id cap n1 = Some (r, n2)" using tcp_connect_total by blast
    have c2: "unat (clock env (smol n2)) < 2 ^ 60 + 2 ^ 34"
      using movesD [OF connect_moves [OF t n2]] c1 by (simp add: within_def)
    show ?thesis
    proof (cases r)
      case (Inl e)
      then show ?thesis using \<open>resolve (resolver n) host = Some addr\<close> Some n1 n2 c2 by (simp add: http_open_def)
    next
      case (Inr u)
      define d where "d = clock env (smol n2) + 500"
      have d: "checked_add (clock env (smol n2)) 500 = Some d" "unat d = unat (clock env (smol n2)) + 500"
        using checked_add_small [of "clock env (smol n2)" 500] c2 by (simp_all add: d_def)
      obtain n3 where "wait_deadline st env d n2 = Some n3" "unat (clock env (smol n3)) \<le> unat d + 2 ^ 35"
        using wait_deadline_ends [OF t, of d n2] d(2) c2 by auto
      then show ?thesis using \<open>resolve (resolver n) host = Some addr\<close> Some n1 n2 Inr d c2 by (simp add: http_open_def)
    qed
  qed
qed

lemma send_all_clock:
  assumes t: "timely st env left"
  shows "unat (clock env (smol n)) + Suc (length bs) * 2 ^ 33 < 2 ^ 63 \<Longrightarrow>
    unat (clock env (smol (snd (send_all st h bs n)))) \<le> unat (clock env (smol n)) + Suc (length bs) * 2 ^ 33"
proof (induction bs arbitrary: n)
  case (Cons b bs)
  obtain r n1 where r: "tcp_send st h b n = (r, n1)" by force
  have c1: "unat (clock env (smol n1)) \<le> unat (clock env (smol n)) + 2 ^ 32"
    using movesD [OF send_moves [OF t, of n h b]] Cons.prems r by (simp add: within_def)
  show ?case
  proof (cases r)
    case (Inl e)
    then show ?thesis using movesD [OF close_moves [OF t, of n1 h]] c1 Cons.prems r by (simp add: within_def)
  next
    case (Inr k)
    then show ?thesis using Cons.IH [of n1] c1 Cons.prems r by simp
  qed
qed simp

lemma http_finish_returns:
  assumes t: "timely st env left" and c: "unat (clock env (smol n)) < 2 ^ 62"
  shows "\<exists>r n'. http_finish st env handle n = Some (r, n')"
proof -
  define d where "d = clock env (smol n) + 1000"
  have d: "checked_add (clock env (smol n)) 1000 = Some d" "unat d = unat (clock env (smol n)) + 1000"
    using checked_add_small [of "clock env (smol n)" 1000] c by (simp_all add: d_def)
  obtain bytes n1 where "receive_loop st env handle d [] n = Some (bytes, n1)"
    using receive_loop_ends [OF t, of d n handle "[]"] d(2) c by auto
  then show ?thesis using d(1) by (simp add: http_finish_def Let_def)
qed

text \<open>The verdict of a request before it touches the network, if it has one.\<close>

definition refusal :: "CapabilityTable \<Rightarrow> string \<Rightarrow> u64 \<Rightarrow> u64 \<Rightarrow> HttpError option" where
  "refusal t url task_id net_cap =
     (case parse_url url of (host, port, _) \<Rightarrow>
        if isl (cap_validate t net_cap task_id CONNECT) then Some HttpCapabilityDenied
        else if \<not> may_reach t task_id net_cap host port then Some FirewallDenied
        else None)"

lemma http_request_outcome:
  assumes t: "timely st env left" and c: "unat (clock env (smol n)) < 2 ^ 60" and len: "\<And>p h. length (chunks p h) \<le> 2"
  shows "\<exists>r n'. http_request st env tab chunks url task_id cap n = Some (r, n')
     \<and> (\<forall>e. refusal tab url task_id cap = Some e \<longrightarrow> r = Inl e \<and> n' = n)"
proof -
  obtain host port path where u: "parse_url url = (host, port, path)" by (cases "parse_url url") auto
  show ?thesis
  proof (cases "refusal tab url task_id cap")
    case (Some e)
    then show ?thesis using firewall_iff [of tab task_id cap host port]
      by (auto simp: refusal_def u http_request_def split: if_splits sum.splits FirewallDecision.splits)
  next
    case None
    then obtain c where v: "cap_validate tab cap task_id CONNECT = Inr c" "check_outbound tab task_id cap host port = Allow"
      using firewall_iff [of tab task_id cap host port]
      by (cases "cap_validate tab cap task_id CONNECT") (auto simp: refusal_def u split: if_splits)
    obtain r n1 where o: "http_open st env tab host port task_id cap n = Some (r, n1)" "unat (clock env (smol n1)) < 2 ^ 61"
      using http_open_returns [OF t c] by blast
    show ?thesis
    proof (cases r)
      case (Inl e)
      then show ?thesis using None v o(1) by (simp add: http_request_def u)
    next
      case (Inr handle)
      obtain ok n2 where s: "send_all st handle (chunks path host) n1 = (ok, n2)" by force
      have "Suc (length (chunks path host)) * 2 ^ 33 \<le> 3 * 2 ^ 33" using len [of path host] by simp
      then have "unat (clock env (smol n2)) < 2 ^ 62"
        using send_all_clock [OF t, of n1 "chunks path host" handle] s o(2) by simp
      then obtain r3 n3 where "http_finish st env handle n2 = Some (r3, n3)" using http_finish_returns [OF t] by blast
      then show ?thesis using None v o(1) Inr s by (simp add: http_request_def u)
    qed
  qed
qed


definition demo_stack :: "u64 tcp_stack" where
  "demo_stack = \<lparr>set_add = Pair 0, sock_connect = (\<lambda>_ _ _ _. Pair True), may_send = (\<lambda>_ _. True), send_slice = (\<lambda>_ d. Pair (Some (length d))),
     may_recv = (\<lambda>_ _. False), recv_slice = (\<lambda>_ _. Pair None), sock_close = (\<lambda>_ s. s), iface_poll = (\<lambda>_ s. s), iface_new = (\<lambda>_ _ _ s. s)\<rparr>"

definition demo_time :: "u64 environ" where
  "demo_time = \<lparr>clock = (\<lambda>s. s), pass = (\<lambda>s. s + 1)\<rparr>"

lemma demo_timely: "timely demo_stack demo_time (\<lambda>_. 0)"
proof -
  have "unat (s + 1) = unat s + 1" if "unat s < 2 ^ 63" for s :: u64
    by (rule unat_plus_1) (use that in \<open>auto simp: unat_max_word\<close>)
  then show ?thesis by (auto simp: timely_def moves_def within_def demo_stack_def demo_time_def)
qed


end
