(* ===== verification/Cap_Theorems.thy ===== *)
theory Cap_Theorems
  imports Cap_Table
begin

text \<open>What the capability table guarantees over all its reachable states: revocation reaches
  exactly the delegation tree below a capability and lasts, and no chain of delegations widens
  authority beyond the root it starts from. A small table built by the kernel's own operations
  serves as the concrete instance.\<close>

lemmas cap_eval = cap_create_root_def cap_new_def checked_add_def put_cap_def Let_def cap_delegate_def
  cap_get_def cap_validate_def cap_revoke_def parent_owned_by_def slot_def contains_def can_delegate_to_def
  permission_defs is_subset_of_simps revoke_recursive.simps mark_revoked_def active_children_def

lemma demo_table_reachable: "cap_reachable demo_table"
proof -
  define t1 where "t1 = \<lparr>capabilities = [None, Some \<lparr>cap_id = 1, resource = Storage ''/data'',
    permissions = from_raw 11, owner = 1, parent_cap = None, revoked = False\<rparr>], next_id = 2\<rparr>"
  have "cap_create_root 1 (Storage ''/data'') (from_raw 11) cap_new = Some (1, t1)"
    by (simp add: t1_def cap_eval)
  then have "cap_reachable t1"
    by (auto simp: cap_reachable_def intro!: cap_step.create_root)
  moreover have "cap_delegate 1 1 2 (from_raw 9) (Some (Storage ''/data/logs'')) t1 = Some (Inr 2, demo_table)"
    by (simp add: t1_def demo_table_def cap_eval)
  ultimately show ?thesis using cap_reachable_step cap_step.delegate by blast
qed

definition demo_revoked :: CapabilityTable where
  "demo_revoked = snd (cap_revoke 1 1 demo_table)"

lemma demo_revoke: "cap_revoke 1 1 demo_table = (Inr 2, demo_revoked)"
  by (simp add: demo_revoked_def demo_table_def cap_eval)

lemma demo_descends: "descends demo_table 1 2"
proof -
  have "descends demo_table 1 1" by (rule descends.self) (simp add: demo_table_def slot_def)
  then show ?thesis by (rule descends.child) (simp add: demo_table_def slot_def, simp)
qed

section \<open>Properties\<close>

text \<open>C3. Revocation is exact: in every table the kernel can reach, a successful \<open>revoke\<close> revokes
  the capability and all its descendants, nothing else, and reports how many it revoked.\<close>

theorem revoke_exact:
  assumes "cap_reachable t" "cap_revoke i rv t = (Inr n, t')"
  shows "(\<forall>j. is_revoked t' j \<longleftrightarrow> is_revoked t j \<or> descends t i j)
    \<and> n = card {j. descends t i j \<and> \<not> is_revoked t j}"
proof
  have wf: "cap_wf t" using assms(1) by (rule cap_reachable_wf)
  from assms(2) have r: "revoke_recursive t i = (t', n)"
    by (cases rule: cap_revoke_cases) auto
  then show exact: "\<forall>j. is_revoked t' j \<longleftrightarrow> is_revoked t j \<or> descends t i j"
    using revoke_recursive_exact [OF wf, of i] by simp
  have fr: "revoke_frame t t'" using revoke_is_frame(1) [of t i] r by simp
  have len: "length (capabilities t) \<le> 2 ^ 64" "length (capabilities t') = length (capabilities t)"
    using cap_wf_ids_ok [OF wf] fr by (auto simp: ids_ok_def revoke_frame_def)
  have active: "is_active (slot u j) \<longleftrightarrow> slot u j \<noteq> None \<and> \<not> is_revoked u j" for u j
    by (auto simp: is_active_def is_revoked_def split: option.splits)
  have same: "slot t' j = None \<longleftrightarrow> slot t j = None" for j
    using revoke_frameD [OF fr, of j] by (cases "slot t j") auto
  let ?D = "{j. descends t i j \<and> \<not> is_revoked t j}"
  have "slot t j \<noteq> None" if "descends t i j" for j
    using that by (induction rule: descends.induct) auto
  with exact same
  have split: "{j. is_active (slot t j)} = {j. is_active (slot t' j)} \<union> ?D" "{j. is_active (slot t' j)} \<inter> ?D = {}"
    by (auto simp: active)
  have "active_count t = active_count t' + card ?D"
    using len by (simp add: active_count_card split card_Un_disjoint)
  with revoke_active(1) [of t i] r show "n = card ?D" by simp
qed

theorem revoke_exact_witness:
  "(\<forall>j. is_revoked demo_revoked j \<longleftrightarrow> is_revoked demo_table j \<or> descends demo_table 1 j)
    \<and> 2 = card {j. descends demo_table 1 j \<and> \<not> is_revoked demo_table j}"
  by (rule revoke_exact [OF demo_table_reachable demo_revoke])

text \<open>C8. Revocation is permanent: whatever the kernel does to the table afterwards, no task can
  ever again use the revoked capability or anything that had been delegated from it.\<close>

theorem revoke_permanent:
  assumes "cap_reachable t" "cap_revoke i rv t = (Inr n, t')" "descends t i j" "cap_step\<^sup>*\<^sup>* t' u"
  shows "cap_validate u j task required = Inl Revoked"
proof -
  have wf: "cap_wf t" using assms(1) by (rule cap_reachable_wf)
  from assms(2) have "revoke_recursive t i = (t', n)"
    by (cases rule: cap_revoke_cases) auto
  then have "is_revoked t' j" "cap_wf t'"
    using revoke_recursive_exact [OF wf, of i j] cap_wf_revoke_recursive [OF wf, of i] assms(3) by simp_all
  then show ?thesis by (intro cap_validate_revoked cap_steps_revoked [OF assms(4)])
qed

theorem revoke_permanent_witness:
  "cap_validate demo_revoked 2 2 READ = Inl Revoked"
  by (rule revoke_permanent [OF demo_table_reachable demo_revoke demo_descends rtranclp.rtrancl_refl])

text \<open>C5. Authority is confined: every capability descends from a root capability that the kernel
  created, and it carries no permission and names no resource that this root does not cover.\<close>

theorem authority_confined:
  assumes "cap_reachable t" "slot t i = Some c"
  shows "\<exists>r rc. slot t r = Some rc \<and> parent_cap rc = None \<and> descends t r i
    \<and> contains (permissions rc) (permissions c) \<and> is_subset_of (resource c) (resource rc)"
proof -
  have wf: "cap_wf t" using assms(1) by (rule cap_reachable_wf)
  from descends_from_root [OF wf assms(2)] obtain r rc where
    "descends t r i" "slot t r = Some rc" "parent_cap rc = None" by blast
  with descends_confined [OF _ wf _ assms(2)] show ?thesis by blast
qed

theorem authority_confined_witness:
  "\<exists>r rc. slot demo_table r = Some rc \<and> parent_cap rc = None \<and> descends demo_table r 2
    \<and> contains (permissions rc) (from_raw 9) \<and> is_subset_of (Storage ''/data/logs'') (resource rc)"
proof -
  define c where "c = \<lparr>cap_id = 2, resource = Storage ''/data/logs'', permissions = from_raw 9, owner = 2,
    parent_cap = Some 1, revoked = False\<rparr>"
  have "slot demo_table 2 = Some c" by (simp add: c_def demo_table_def slot_def)
  from authority_confined [OF demo_table_reachable this] show ?thesis by (simp add: c_def)
qed

end
