(* ===== verification/Task_Scheduler.thy ===== *)
theory Task_Scheduler
  imports Oxide_Prelude
begin

text \<open>
  \<^verbatim>\<open>task/scheduler.rs\<close>, \<^verbatim>\<open>task/context.rs\<close> and the task type of \<^verbatim>\<open>task/mod.rs\<close>: tasks, the priority queues, the
  choice of the next task, and the register switch.  What the clean-up of a dead task does to the rest
  of the kernel is an argument here; the kernel theory supplies it.
\<close>

section \<open>Tasks and contexts\<close>

datatype TaskState = Ready | Running | Blocked | Dead

datatype Priority = Realtime | Normal | Background

fun pri_index :: "Priority \<Rightarrow> nat" where
  "pri_index Realtime = 0"
| "pri_index Normal = 1"
| "pri_index Background = 2"

record CpuContext =
  rsp :: u64
  rbp :: u64
  rbx :: u64
  r12 :: u64
  r13 :: u64
  r14 :: u64
  r15 :: u64
  rip :: u64

definition context_empty :: CpuContext where
  "context_empty = \<lparr>rsp = 0, rbp = 0, rbx = 0, r12 = 0, r13 = 0, r14 = 0, r15 = 0, rip = 0\<rparr>"

text \<open>\<open>context_switch\<close>: the live registers go to the old context with the address of the resume label as
  their \<open>rip\<close>, and the new context becomes the live registers.\<close>

definition context_switch :: "u64 \<Rightarrow> CpuContext \<Rightarrow> CpuContext \<Rightarrow> CpuContext \<times> CpuContext" where
  "context_switch resume regs new = (regs\<lparr>rip := resume\<rparr>, new)"

record Task =
  task_id :: u64
  task_name :: string
  state :: TaskState
  priority :: Priority
  task_context :: CpuContext
  stack_top :: u64
  stack_frames :: "u64 list"
  task_caps :: "u64 list"

definition has_capability :: "Task \<Rightarrow> u64 \<Rightarrow> bool" where
  "has_capability t c \<longleftrightarrow> c \<in> set (task_caps t)"

definition grant_capability :: "u64 \<Rightarrow> Task \<Rightarrow> Task" where
  "grant_capability c t = (if c \<notin> set (task_caps t) then t\<lparr>task_caps := task_caps t @ [c]\<rparr> else t)"

definition revoke_capability :: "u64 \<Rightarrow> Task \<Rightarrow> Task" where
  "revoke_capability c t = t\<lparr>task_caps := filter (\<lambda>i. i \<noteq> c) (task_caps t)\<rparr>"

section \<open>The scheduler\<close>

record Scheduler =
  queues :: "Task list list"
  current :: "Task option"
  blocked :: "Task list"

definition sched_new :: Scheduler where
  "sched_new = \<lparr>queues = [[], [], []], current = None, blocked = []\<rparr>"

definition MAX_TASKS :: nat where
  "MAX_TASKS = 256"

definition push_ready :: "Task \<Rightarrow> Scheduler \<Rightarrow> Scheduler" where
  "push_ready t s = (let p = pri_index (priority t) in s\<lparr>queues := (queues s)[p := queues s ! p @ [t]]\<rparr>)"

text \<open>\<open>spawn\<close> with the array of contexts it writes to; \<open>None\<close> is its failed assertion.\<close>

definition sched_spawn :: "Task \<Rightarrow> CpuContext list \<times> Scheduler \<Rightarrow> (CpuContext list \<times> Scheduler) option" where
  "sched_spawn t = (\<lambda>(ctxs, s). do {
     let i = unat (task_id t);
     if i < MAX_TASKS then do {
       ctxs \<leftarrow> store ctxs i (task_context t);
       Some (ctxs, push_ready t s)
     } else None
   })"

text \<open>\<open>position\<close> followed by \<open>remove\<close>: take the first element that satisfies the predicate.\<close>

fun take_first :: "('a \<Rightarrow> bool) \<Rightarrow> 'a list \<Rightarrow> ('a \<times> 'a list) option" where
  "take_first P [] = None"
| "take_first P (x # xs) =
     (if P x then Some (x, xs)
      else case take_first P xs of None \<Rightarrow> None | Some (y, ys) \<Rightarrow> Some (y, x # ys))"

text \<open>The loop over the queues, from the highest priority down.\<close>

fun take_queues :: "('a \<Rightarrow> bool) \<Rightarrow> 'a list list \<Rightarrow> ('a \<times> 'a list list) option" where
  "take_queues P [] = None"
| "take_queues P (q # qs) =
     (case take_first P q of
        Some (x, q') \<Rightarrow> Some (x, q' # qs)
      | None \<Rightarrow> (case take_queues P qs of None \<Rightarrow> None | Some (x, qs') \<Rightarrow> Some (x, q # qs')))"

definition pick_next :: "Scheduler \<Rightarrow> Task option \<times> Scheduler" where
  "pick_next s =
     (case take_queues (\<lambda>_. True) (queues s) of
        Some (t, qs) \<Rightarrow> (Some (t\<lparr>state := Running\<rparr>), s\<lparr>queues := qs\<rparr>)
      | None \<Rightarrow> (None, s))"

definition pick_next_fair :: "nat \<Rightarrow> Scheduler \<Rightarrow> Task option \<times> Scheduler" where
  "pick_next_fair last_id s =
     (case take_queues (\<lambda>t. unat (task_id t) \<noteq> last_id) (queues s) of
        Some (t, qs) \<Rightarrow> (Some (t\<lparr>state := Running\<rparr>), s\<lparr>queues := qs\<rparr>)
      | None \<Rightarrow> pick_next s)"

definition current_id :: "Scheduler \<Rightarrow> nat" where
  "current_id s = (case current s of Some t \<Rightarrow> unat (task_id t) | None \<Rightarrow> 0)"

text \<open>The first half of \<open>reschedule\<close>: the current task goes back to where its state says.\<close>

definition put_back :: "(Task \<Rightarrow> 'k \<Rightarrow> 'k option) \<Rightarrow> Scheduler \<times> 'k \<Rightarrow> (Scheduler \<times> 'k) option" where
  "put_back cleanup = (\<lambda>(s, k).
     case current s of
       None \<Rightarrow> Some (s, k)
     | Some t \<Rightarrow>
         let s = s\<lparr>current := None\<rparr> in
         (case state t of
            Running \<Rightarrow> Some (push_ready (t\<lparr>state := Ready\<rparr>) s, k)
          | Blocked \<Rightarrow> Some (s\<lparr>blocked := blocked s @ [t]\<rparr>, k)
          | Dead \<Rightarrow> do { k \<leftarrow> cleanup t k; Some (s, k) }
          | Ready \<Rightarrow> Some (push_ready t s, k)))"

definition reschedule ::
  "(Task \<Rightarrow> 'k \<Rightarrow> 'k option) \<Rightarrow> Scheduler \<times> 'k \<Rightarrow> ((nat \<times> nat) \<times> Scheduler \<times> 'k) option" where
  "reschedule cleanup = (\<lambda>(s, k). do {
     let old_id = current_id s;
     (s, k) \<leftarrow> put_back cleanup (s, k);
     let (c, s) = pick_next_fair old_id s;
     let s = s\<lparr>current := c\<rparr>;
     Some ((old_id, current_id s), s, k)
   })"

definition block_current :: "Scheduler \<Rightarrow> Scheduler" where
  "block_current s = s\<lparr>current := map_option (\<lambda>t. t\<lparr>state := Blocked\<rparr>) (current s)\<rparr>"

definition kill_current :: "Scheduler \<Rightarrow> Scheduler" where
  "kill_current s = s\<lparr>current := map_option (\<lambda>t. t\<lparr>state := Dead\<rparr>) (current s)\<rparr>"

definition unblock :: "u64 \<Rightarrow> Scheduler \<Rightarrow> bool \<times> Scheduler" where
  "unblock i s =
     (case take_first (\<lambda>t. task_id t = i) (blocked s) of
        Some (t, b) \<Rightarrow> (True, push_ready (t\<lparr>state := Ready\<rparr>) (s\<lparr>blocked := b\<rparr>))
      | None \<Rightarrow> (False, s))"

definition task_count :: "Scheduler \<Rightarrow> nat" where
  "task_count s = sum_list (map length (queues s)) + length (blocked s)
     + (if current s \<noteq> None then 1 else 0)"

section \<open>The processor side\<close>

record Cpu =
  sched :: Scheduler
  contexts :: "CpuContext list"
  idle_context :: CpuContext
  need_reschedule :: bool
  regs :: CpuContext
  interrupts_on :: bool

text \<open>\<open>timer_tick\<close> and \<open>should_reschedule\<close>.\<close>

definition timer_tick :: "Cpu \<Rightarrow> Cpu" where
  "timer_tick p = p\<lparr>need_reschedule := True\<rparr>"

definition should_reschedule :: "Cpu \<Rightarrow> bool" where
  "should_reschedule p = need_reschedule p"

text \<open>The switch at the end of \<open>yield_now\<close>; the flag says whether control left the calling task.  Both
  continuations, the resume label and the entry trampoline, turn interrupts on again.\<close>

definition switch_to :: "u64 \<Rightarrow> nat \<times> nat \<Rightarrow> Cpu \<Rightarrow> (bool \<times> Cpu) option" where
  "switch_to resume = (\<lambda>(old_id, new_id) p.
     if old_id \<noteq> new_id \<and> new_id \<noteq> 0 then do {
       new \<leftarrow> index (contexts p) new_id;
       let (saved, live) = context_switch resume (regs p) new;
       p \<leftarrow> (if old_id = 0 then Some (p\<lparr>idle_context := saved\<rparr>)
             else do { cs \<leftarrow> store (contexts p) old_id saved; Some (p\<lparr>contexts := cs\<rparr>) });
       Some (True, p\<lparr>regs := live, interrupts_on := True\<rparr>)
     } else Some (False, p\<lparr>interrupts_on := True\<rparr>))"

definition yield_now ::
  "u64 \<Rightarrow> (Task \<Rightarrow> 'k \<Rightarrow> 'k option) \<Rightarrow> Cpu \<times> 'k \<Rightarrow> (bool \<times> Cpu \<times> 'k) option" where
  "yield_now resume cleanup = (\<lambda>(p, k). do {
     let p = p\<lparr>interrupts_on := False, need_reschedule := False\<rparr>;
     (ids, s, k) \<leftarrow> reschedule cleanup (sched p, k);
     (switched, p) \<leftarrow> switch_to resume ids (p\<lparr>sched := s\<rparr>);
     Some (switched, p, k)
   })"

definition block_and_yield ::
  "u64 \<Rightarrow> (Task \<Rightarrow> 'k \<Rightarrow> 'k option) \<Rightarrow> Cpu \<times> 'k \<Rightarrow> (bool \<times> Cpu \<times> 'k) option" where
  "block_and_yield resume cleanup = (\<lambda>(p, k).
     yield_now resume cleanup (p\<lparr>interrupts_on := False, sched := block_current (sched p)\<rparr>, k))"

text \<open>\<open>exit_current\<close> panics (\<open>unreachable!\<close>) when \<open>yield_now\<close> comes back without having switched.\<close>

definition exit_current ::
  "u64 \<Rightarrow> (Task \<Rightarrow> 'k \<Rightarrow> 'k option) \<Rightarrow> Cpu \<times> 'k \<Rightarrow> (Cpu \<times> 'k) option" where
  "exit_current resume cleanup = (\<lambda>(p, k). do {
     (switched, p, k) \<leftarrow> yield_now resume cleanup (p\<lparr>interrupts_on := False, sched := kill_current (sched p)\<rparr>, k);
     if switched then Some (p, k) else None
   })"

section \<open>Taking from the queues\<close>

lemma take_first_Some:
  "take_first P xs = Some (x, ys) \<Longrightarrow> \<exists>a b. xs = a @ x # b \<and> ys = a @ b \<and> P x \<and> (\<forall>y\<in>set a. \<not> P y)"
proof (induction xs arbitrary: ys)
  case (Cons z zs)
  show ?case
  proof (cases "P z")
    case True
    with Cons.prems show ?thesis by (intro exI [of _ "[]"] exI [of _ zs]) auto
  next
    case False
    with Cons.prems obtain ys' where ys': "take_first P zs = Some (x, ys')" "ys = z # ys'"
      by (auto split: option.splits)
    from Cons.IH [OF ys'(1)] obtain a b where "zs = a @ x # b" "ys' = a @ b" "P x" "\<forall>y\<in>set a. \<not> P y" by blast
    with False ys'(2) show ?thesis by (intro exI [of _ "z # a"] exI [of _ b]) auto
  qed
qed simp

lemma take_first_None: "take_first P xs = None \<longleftrightarrow> (\<forall>x\<in>set xs. \<not> P x)"
  by (induction xs) (auto split: option.splits)

lemma take_first_hit: "(\<forall>y\<in>set a. \<not> P y) \<Longrightarrow> P x \<Longrightarrow> take_first P (a @ x # b) = Some (x, a @ b)"
  by (induction a) auto

lemma take_queues_None: "take_queues P qs = None \<longleftrightarrow> (\<forall>q\<in>set qs. \<forall>x\<in>set q. \<not> P x)"
  by (induction qs) (auto simp: take_first_None split: option.splits dest!: take_first_Some)

text \<open>The task taken is the first match of the first queue that has a match.\<close>

lemma take_queues_Some:
  "take_queues P qs = Some (x, qs') \<Longrightarrow>
   \<exists>i a b. i < length qs \<and> qs ! i = a @ x # b \<and> qs' = qs[i := a @ b] \<and> P x
     \<and> (\<forall>y\<in>set a. \<not> P y) \<and> (\<forall>j<i. \<forall>y\<in>set (qs ! j). \<not> P y)"
proof (induction qs arbitrary: qs')
  case (Cons q qs)
  show ?case
  proof (cases "take_first P q")
    case (Some r)
    with Cons.prems obtain q' where r: "take_first P q = Some (x, q')" "qs' = q' # qs" by (cases r) auto
    from take_first_Some [OF r(1)] obtain a b where "q = a @ x # b" "q' = a @ b" "P x" "\<forall>y\<in>set a. \<not> P y" by blast
    with r(2) show ?thesis by (intro exI [of _ 0] exI [of _ a] exI [of _ b]) auto
  next
    case None
    with Cons.prems obtain qs1 where r: "take_queues P qs = Some (x, qs1)" "qs' = q # qs1"
      by (auto split: option.splits)
    from Cons.IH [OF r(1)] obtain i a b where "i < length qs" "qs ! i = a @ x # b" "qs1 = qs[i := a @ b]" "P x"
      "\<forall>y\<in>set a. \<not> P y" "\<forall>j<i. \<forall>y\<in>set (qs ! j). \<not> P y" by blast
    with None r(2) show ?thesis
      by (intro exI [of _ "Suc i"] exI [of _ a] exI [of _ b]) (auto simp: less_Suc_eq_0_disj take_first_None)
  qed
qed simp

lemma mset_concat_update:
  "i < length qs \<Longrightarrow> mset (concat (qs[i := q])) + mset (qs ! i) = mset (concat qs) + mset q"
  by (induction qs arbitrary: i) (auto split: nat.split simp: ac_simps)

section \<open>The scheduler invariant\<close>

definition all_tasks :: "Scheduler \<Rightarrow> Task list" where
  "all_tasks s = concat (queues s) @ blocked s @ (case current s of Some t \<Rightarrow> [t] | None \<Rightarrow> [])"

definition task_ids :: "Scheduler \<Rightarrow> u64 list" where
  "task_ids s = map task_id (all_tasks s)"

definition queue_ok :: "Scheduler \<Rightarrow> bool" where
  "queue_ok s \<longleftrightarrow> length (queues s) = 3
     \<and> (\<forall>i<3. \<forall>t\<in>set (queues s ! i). state t = Ready \<and> pri_index (priority t) = i)
     \<and> (\<forall>t\<in>set (blocked s). state t = Blocked)
     \<and> (\<forall>t. current s = Some t \<longrightarrow> state t \<noteq> Ready)"

definition ids_valid :: "Scheduler \<Rightarrow> bool" where
  "ids_valid s \<longleftrightarrow> distinct (task_ids s) \<and> (\<forall>i\<in>set (task_ids s). 0 < unat i \<and> unat i < MAX_TASKS)"

definition sched_wf :: "Scheduler \<Rightarrow> bool" where
  [wf_defs]: "sched_wf s \<longleftrightarrow> queue_ok s \<and> ids_valid s"

text \<open>What a task owns in the rest of the kernel.\<close>

definition footprint :: "Task \<Rightarrow> u64 \<times> u64 list" where
  "footprint t = (task_id t, stack_frames t)"

definition footprints :: "Scheduler \<Rightarrow> (u64 \<times> u64 list) multiset" where
  "footprints s = image_mset footprint (mset (all_tasks s))"

lemma mset_task_ids: "mset (task_ids s) = image_mset fst (footprints s)"
  by (simp add: task_ids_def footprints_def footprint_def image_mset.compositionality comp_def)

lemma ids_valid_footprints:
  assumes "footprints s' \<subseteq># footprints s" "ids_valid s" shows "ids_valid s'"
proof -
  have sub: "mset (task_ids s') \<subseteq># mset (task_ids s)" using assms(1) by (simp add: mset_task_ids image_mset_subseteq_mono)
  then have "set (task_ids s') \<subseteq> set (task_ids s)" by (metis set_mset_mono set_mset_mset)
  moreover have "distinct (task_ids s')"
    using assms(2) distinct_mset_subset [OF sub] by (simp add: ids_valid_def)
  ultimately show ?thesis using assms(2) by (auto simp: ids_valid_def)
qed

lemma pri_index_less [simp]: "pri_index p < 3"
  by (cases p) auto

lemma push_ready_footprints:
  "length (queues s) = 3 \<Longrightarrow> footprints (push_ready t s) = add_mset (footprint t) (footprints s)"
  using mset_concat_update [of "pri_index (priority t)" "queues s" "queues s ! pri_index (priority t) @ [t]"]
  by (simp add: footprints_def all_tasks_def push_ready_def Let_def)

lemma push_ready_queue_ok:
  "queue_ok s \<Longrightarrow> state t = Ready \<Longrightarrow> queue_ok (push_ready t s)"
  by (auto simp: queue_ok_def push_ready_def Let_def nth_list_update)

lemma footprint_state [simp]: "footprint (t\<lparr>state := x\<rparr>) = footprint t"
  by (simp add: footprint_def)

text \<open>The next task comes out of a queue and turns \<open>Running\<close>; nothing else moves.\<close>

lemma pick_next_fair_cases:
  assumes ok: "queue_ok s"
  obtains (idle) "pick_next_fair l s = (None, s)" "\<forall>q\<in>set (queues s). q = []"
  | (picked) t i a b where "pick_next_fair l s = (Some (t\<lparr>state := Running\<rparr>), s\<lparr>queues := (queues s)[i := a @ b]\<rparr>)"
      "i < 3" "queues s ! i = a @ t # b"
      "unat (task_id t) \<noteq> l \<longrightarrow> (\<forall>y\<in>set a. unat (task_id y) = l) \<and> (\<forall>j<i. \<forall>y\<in>set (queues s ! j). unat (task_id y) = l)"
      "unat (task_id t) = l \<longrightarrow> (\<forall>q\<in>set (queues s). \<forall>y\<in>set q. unat (task_id y) = l)"
proof -
  have len: "length (queues s) = 3" using ok by (simp add: queue_ok_def)
  show thesis
  proof (cases "take_queues (\<lambda>t. unat (task_id t) \<noteq> l) (queues s)")
    case (Some r)
    then obtain t qs where r: "take_queues (\<lambda>t. unat (task_id t) \<noteq> l) (queues s) = Some (t, qs)" by (cases r) auto
    from take_queues_Some [OF this] r len show thesis
      by (elim exE conjE) (rule picked, auto simp: pick_next_fair_def)
  next
    case none: None
    then have all: "\<forall>q\<in>set (queues s). \<forall>y\<in>set q. unat (task_id y) = l" by (simp add: take_queues_None)
    show thesis
    proof (cases "take_queues (\<lambda>_. True) (queues s)")
      case None
      then have "\<forall>q\<in>set (queues s). q = []" using take_queues_None [of "\<lambda>_. True" "queues s"] by (simp add: ex_in_conv)
      then show thesis using None none by (intro idle) (simp_all add: pick_next_fair_def pick_next_def)
    next
      case (Some r)
      then obtain t qs where r: "take_queues (\<lambda>_. True) (queues s) = Some (t, qs)" by (cases r) auto
      from take_queues_Some [OF this] obtain i a b where i: "i < length (queues s)" "queues s ! i = a @ t # b"
        "qs = (queues s)[i := a @ b]" by blast
      then have "unat (task_id t) = l" using all by (metis in_set_conv_decomp nth_mem)
      with i none r len all show thesis
        by (intro picked [of t i a b]) (simp_all add: pick_next_fair_def pick_next_def)
    qed
  qed
qed

lemma pick_next_fair_inv:
  assumes ok: "queue_ok s" "current s = None" and r: "pick_next_fair l s = (c, s')"
  shows "queue_ok (s'\<lparr>current := c\<rparr>) \<and> footprints (s'\<lparr>current := c\<rparr>) = footprints s
    \<and> (\<forall>t. c = Some t \<longrightarrow> state t = Running)"
  using ok(1)
proof (cases rule: pick_next_fair_cases [where l = l])
  case idle
  with r ok show ?thesis by (auto simp: queue_ok_def footprints_def all_tasks_def)
next
  case (picked t i a b)
  have len: "length (queues s) = 3" using ok(1) by (simp add: queue_ok_def)
  have c: "c = Some (t\<lparr>state := Running\<rparr>)" "s' = s\<lparr>queues := (queues s)[i := a @ b]\<rparr>" using picked(1) r by auto
  have "mset (concat (queues s)) = add_mset t (mset (concat ((queues s)[i := a @ b])))"
    using mset_concat_update [of i "queues s" "a @ b"] picked(2,3) len by (simp add: ac_simps)
  moreover have "set ((queues s)[i := a @ b] ! j) \<subseteq> set (queues s ! j)" for j
    using picked(2,3) len by (cases "j = i") auto
  then have "queue_ok (s'\<lparr>current := c\<rparr>)" using ok len c unfolding queue_ok_def by (auto simp: subset_eq)
  ultimately show ?thesis using ok c by (simp add: footprints_def all_tasks_def)
qed

lemma current_id_pos: "ids_valid s \<Longrightarrow> current s = Some t \<Longrightarrow> 0 < current_id s \<and> current_id s < MAX_TASKS"
  by (auto simp: ids_valid_def task_ids_def all_tasks_def current_id_def)

lemma switch_to_result:
  assumes "old_id < MAX_TASKS" "new_id < MAX_TASKS" "length (contexts p) = MAX_TASKS"
  shows "\<exists>p'. switch_to resume (old_id, new_id) p = Some (old_id \<noteq> new_id \<and> new_id \<noteq> 0, p')
    \<and> sched p' = sched p \<and> length (contexts p') = MAX_TASKS \<and> interrupts_on p' \<and> need_reschedule p' = need_reschedule p"
  using assms by (auto simp: switch_to_def context_switch_def index_def store_def Let_def)

text \<open>The contract between the scheduler and the clean-up of dead tasks: an invariant of the rest of the
  kernel that depends on what the live tasks own, and that survives handing back one task's share.\<close>

locale sched_env =
  fixes cleanup :: "Task \<Rightarrow> 'k \<Rightarrow> 'k option"
    and kinv :: "(u64 \<times> u64 list) multiset \<Rightarrow> 'k \<Rightarrow> bool"
  assumes cleanup: "kinv (add_mset (footprint t) M) k \<Longrightarrow> \<exists>k'. cleanup t k = Some k' \<and> kinv M k'"
begin

lemma put_back_inv:
  assumes ok: "queue_ok s" "kinv (footprints s) k"
  shows "\<exists>s' k'. put_back cleanup (s, k) = Some (s', k') \<and> queue_ok s' \<and> current s' = None
    \<and> kinv (footprints s') k' \<and> footprints s' = footprints s - (case current s of
        Some t \<Rightarrow> if state t = Dead then {#footprint t#} else {#} | None \<Rightarrow> {#})"
proof (cases "current s")
  case None
  with ok show ?thesis by (auto simp: put_back_def)
next
  case (Some t)
  let ?s = "s\<lparr>current := None\<rparr>"
  have s: "queue_ok ?s" "length (queues ?s) = 3" "footprints s = add_mset (footprint t) (footprints ?s)"
    using ok(1) Some by (auto simp: queue_ok_def footprints_def all_tasks_def)
  have "state t \<noteq> Ready" using ok(1) Some by (simp add: queue_ok_def)
  then consider (run) "state t = Running" | (blk) "state t = Blocked" | (dead) "state t = Dead"
    by (cases "state t") auto
  then show ?thesis
  proof cases
    case run
    let ?s' = "push_ready (t\<lparr>state := Ready\<rparr>) ?s"
    have "queue_ok ?s'" "footprints ?s' = footprints s" "current ?s' = None"
      using s push_ready_queue_ok [OF s(1), of "t\<lparr>state := Ready\<rparr>"] push_ready_footprints [OF s(2), of "t\<lparr>state := Ready\<rparr>"]
      by (simp_all add: push_ready_def Let_def)
    with Some run ok(2) show ?thesis by (simp add: put_back_def Let_def)
  next
    case blk
    let ?s' = "?s\<lparr>blocked := blocked ?s @ [t]\<rparr>"
    have "queue_ok ?s'" "footprints ?s' = footprints s"
      using s(1) Some blk by (auto simp: queue_ok_def footprints_def all_tasks_def)
    with Some blk ok(2) show ?thesis by (simp add: put_back_def Let_def)
  next
    case dead
    from cleanup [of t "footprints ?s" k] ok(2) s(3) obtain k' where "cleanup t k = Some k'" "kinv (footprints ?s) k'" by auto
    with Some dead s show ?thesis by (simp add: put_back_def Let_def)
  qed
qed

lemma reschedule_inv:
  assumes wf: "sched_wf s" "kinv (footprints s) k"
  obtains new s' k' where "reschedule cleanup (s, k) = Some ((current_id s, new), s', k')" "new = current_id s'"
    "sched_wf s'" "kinv (footprints s') k'" "\<forall>t. current s' = Some t \<longrightarrow> state t = Running"
    "footprints s' = footprints s - (case current s of
        Some t \<Rightarrow> if state t = Dead then {#footprint t#} else {#} | None \<Rightarrow> {#})"
proof -
  have ok: "queue_ok s" "ids_valid s" using wf(1) by (auto simp: sched_wf_def)
  from put_back_inv [OF ok(1) wf(2)] obtain s1 k1 where 1: "put_back cleanup (s, k) = Some (s1, k1)" "queue_ok s1"
    "current s1 = None" "kinv (footprints s1) k1" "footprints s1 = footprints s - (case current s of
        Some t \<Rightarrow> if state t = Dead then {#footprint t#} else {#} | None \<Rightarrow> {#})" by blast
  obtain c s2 where 2: "pick_next_fair (current_id s) s1 = (c, s2)" by fastforce
  note inv = pick_next_fair_inv [OF 1(2,3) 2]
  let ?s' = "s2\<lparr>current := c\<rparr>"
  have "ids_valid ?s'" by (rule ids_valid_footprints [OF _ ok(2)]) (use inv 1(5) in simp)
  then show thesis
    using inv 1 2 by (intro that [of "current_id ?s'" ?s' k1]) (simp_all add: reschedule_def sched_wf_def Let_def)
qed

lemma yield_now_inv:
  assumes wf: "sched_wf (sched p)" "kinv (footprints (sched p)) k" "length (contexts p) = MAX_TASKS"
  obtains sw p' k' where "yield_now resume cleanup (p, k) = Some (sw, p', k')"
    "sched_wf (sched p')" "kinv (footprints (sched p')) k'" "length (contexts p') = MAX_TASKS"
    "interrupts_on p'" "\<not> need_reschedule p'"
    "sw \<longleftrightarrow> current (sched p') \<noteq> None \<and> current_id (sched p') \<noteq> current_id (sched p)"
    "\<forall>t. current (sched p') = Some t \<longrightarrow> state t = Running"
proof -
  obtain new s' k' where r: "reschedule cleanup (sched p, k) = Some ((current_id (sched p), new), s', k')" "new = current_id s'"
    "sched_wf s'" "kinv (footprints s') k'" "\<forall>t. current s' = Some t \<longrightarrow> state t = Running"
    using reschedule_inv [OF wf(1,2)] by metis
  have pos: "current_id s' \<noteq> 0 \<longleftrightarrow> current s' \<noteq> None"
    using r(3) current_id_pos [of s'] by (cases "current s'") (auto simp: sched_wf_def current_id_def)
  have bound: "current_id s < MAX_TASKS" if "sched_wf s" for s
    using that current_id_pos [of s] by (cases "current s") (auto simp: sched_wf_def current_id_def MAX_TASKS_def)
  let ?p = "p\<lparr>interrupts_on := False, need_reschedule := False, sched := s'\<rparr>"
  from switch_to_result [of "current_id (sched p)" "current_id s'" ?p resume] bound [OF wf(1)] bound [OF r(3)] wf(3)
  obtain p' where p': "switch_to resume (current_id (sched p), current_id s') ?p =
      Some (current_id (sched p) \<noteq> current_id s' \<and> current_id s' \<noteq> 0, p')"
    "sched p' = s'" "length (contexts p') = MAX_TASKS" "interrupts_on p'" "\<not> need_reschedule p'" by auto
  show thesis
    by (rule that [of _ p' k']) (use r p' pos in \<open>auto simp: yield_now_def\<close>)
qed

end

section \<open>Which task runs next\<close>

definition first_ready :: "Scheduler \<Rightarrow> Task option" where
  "first_ready s = (case filter (\<lambda>q. q \<noteq> []) (queues s) of [] \<Rightarrow> None | q # _ \<Rightarrow> Some (hd q))"

lemma take_queues_first:
  assumes "\<forall>q\<in>set qs. \<forall>x\<in>set q. P x"
  shows "map_option fst (take_queues P qs) = (case filter (\<lambda>q. q \<noteq> []) qs of [] \<Rightarrow> None | q # _ \<Rightarrow> Some (hd q))"
  using assms
proof (induction qs)
  case (Cons q qs)
  then show ?case by (cases q) (auto split: option.splits list.splits)
qed simp

lemma take_queues_skip:
  assumes "\<not> P c" "p < length qs"
  shows "take_queues P (qs[p := qs ! p @ [c]]) =
    map_option (\<lambda>(x, qs'). (x, qs'[p := qs' ! p @ [c]])) (take_queues P qs)"
proof -
  have skip: "take_first P (q @ [c]) = map_option (\<lambda>(x, q'). (x, q' @ [c])) (take_first P q)" for q
    using assms(1) by (induction q) (auto split: option.splits)
  show ?thesis using assms(2)
    by (induction qs arbitrary: p) (auto simp: skip split: nat.splits option.splits)
qed

lemma ready_ids:
  assumes "ids_valid s" "q \<in> set (queues s)" "t \<in> set q"
  shows "unat (task_id t) \<noteq> current_id s"
proof (cases "current s")
  case None
  with assms show ?thesis by (force simp: ids_valid_def task_ids_def all_tasks_def current_id_def)
next
  case (Some c)
  have "task_id t \<in> set (map task_id (concat (queues s)))" using assms(2,3) by auto
  with assms(1) Some have "task_id t \<noteq> task_id c" by (auto simp: ids_valid_def task_ids_def all_tasks_def)
  with Some show ?thesis by (simp add: current_id_def)
qed

lemma take_queues_ready:
  assumes "ids_valid s"
  shows "map_option fst (take_queues (\<lambda>t. unat (task_id t) \<noteq> current_id s) (queues s)) = first_ready s"
  unfolding first_ready_def by (rule take_queues_first) (use ready_ids [OF assms] in blast)

lemma put_back_queues:
  assumes "queue_ok s" "put_back cleanup (s, k) = Some (s1, k1)"
  shows "queues s1 = (case current s of
      Some t \<Rightarrow> if state t = Running then queues (push_ready (t\<lparr>state := Ready\<rparr>) s) else queues s
    | None \<Rightarrow> queues s)"
  using assms by (auto simp: put_back_def push_ready_def Let_def queue_ok_def split: option.splits TaskState.splits bind_splits)

lemma reschedule_current:
  assumes wf: "sched_wf s" and r: "reschedule cleanup (s, k) = Some (ids, s', k')"
  shows "current s' = (case first_ready s of
      Some t \<Rightarrow> Some (t\<lparr>state := Running\<rparr>)
    | None \<Rightarrow> (case current s of Some t \<Rightarrow> if state t = Running then Some t else None | None \<Rightarrow> None))"
proof -
  let ?P = "\<lambda>t. unat (task_id t) \<noteq> current_id s"
  have ok: "queue_ok s" "ids_valid s" "length (queues s) = 3" using wf by (auto simp: sched_wf_def queue_ok_def)
  from r obtain s1 where s1: "put_back cleanup (s, k) = Some (s1, k')" "current s' = fst (pick_next_fair (current_id s) s1)"
    by (auto simp: reschedule_def Let_def split: bind_splits prod.splits)
  note queues = put_back_queues [OF ok(1) s1(1)]
  note ready = take_queues_ready [OF ok(2)]
  have none: "queues s = [[], [], []]" if "first_ready s = None"
  proof -
    have "filter (\<lambda>q. q \<noteq> []) (queues s) = []" using that by (simp add: first_ready_def split: list.splits)
    then have "\<forall>q\<in>set (queues s). q = []" by (simp add: filter_empty_conv)
    then show ?thesis using ok(3) by (metis numeral_3_eq_3 replicate_Suc replicate_eqI replicate_0)
  qed
  have same: "t\<lparr>state := Running\<rparr> = t" if "state t = Running" for t :: Task using that by simp
  show ?thesis
  proof (cases "\<exists>t. current s = Some t \<and> state t = Running")
    case True
    then obtain t where t: "current s = Some t" "state t = Running" by blast
    then have q1: "queues s1 = (queues s)[pri_index (priority t) := queues s ! pri_index (priority t) @ [t\<lparr>state := Ready\<rparr>]]"
      using queues by (simp add: push_ready_def Let_def)
    have "\<not> ?P (t\<lparr>state := Ready\<rparr>)" using t by (simp add: current_id_def)
    from take_queues_skip [of ?P, OF this, of "pri_index (priority t)" "queues s"] ok(3) q1
    have tq: "map_option fst (take_queues ?P (queues s1)) = first_ready s"
      using ready by (simp add: option.map_comp comp_def case_prod_unfold)
    show ?thesis
    proof (cases "first_ready s")
      case None
      then have "queues s1 = [[], [], []][pri_index (priority t) := [t\<lparr>state := Ready\<rparr>]]"
        using q1 none by (cases "priority t") auto
      with tq None t same [of t] show ?thesis
        by (cases "priority t") (auto simp: s1(2) pick_next_fair_def pick_next_def)
    next
      case (Some u)
      with tq show ?thesis by (auto simp: s1(2) pick_next_fair_def)
    qed
  next
    case False
    then have q1: "queues s1 = queues s" using queues by (auto split: option.splits)
    show ?thesis
    proof (cases "first_ready s")
      case None
      with none q1 False show ?thesis by (auto simp: s1(2) pick_next_fair_def pick_next_def split: option.splits)
    next
      case (Some u)
      with ready q1 show ?thesis by (auto simp: s1(2) pick_next_fair_def)
    qed
  qed
qed

section \<open>Round robin within a priority\<close>

fun resched_n :: "(Task \<Rightarrow> 'k \<Rightarrow> 'k option) \<Rightarrow> nat \<Rightarrow> Scheduler \<times> 'k \<Rightarrow> (Scheduler \<times> 'k) option" where
  "resched_n cleanup 0 sk = Some sk"
| "resched_n cleanup (Suc n) sk = do { sk \<leftarrow> resched_n cleanup n sk; (ids, sk) \<leftarrow> reschedule cleanup sk; Some sk }"

text \<open>The running task and the queue of its priority, seen as a ring with the running task first.\<close>

definition ring_state :: "nat \<Rightarrow> Task list \<Rightarrow> Scheduler \<Rightarrow> Scheduler" where
  "ring_state m ring s = s\<lparr>current := Some ((hd ring)\<lparr>state := Running\<rparr>), queues := (queues s)[m := tl ring]\<rparr>"

definition ring_ok :: "nat \<Rightarrow> Task list \<Rightarrow> Scheduler \<Rightarrow> bool" where
  "ring_ok m ring s \<longleftrightarrow> m < 3 \<and> length (queues s) = 3 \<and> 2 \<le> length ring \<and> (\<forall>j<m. queues s ! j = [])
     \<and> (\<forall>t\<in>set ring. state t = Ready \<and> pri_index (priority t) = m) \<and> distinct (map task_id ring)"

lemma take_queues_at:
  assumes "m < length qs" "\<forall>j<m. qs ! j = []" "take_first P (qs ! m) = Some (x, q)"
  shows "take_queues P qs = Some (x, qs[m := q])"
  using assms
proof (induction qs arbitrary: m)
  case (Cons r qs)
  show ?case
  proof (cases m)
    case (Suc m')
    then have "r = []" "\<forall>j<m'. qs ! j = []" using Cons.prems(2) by auto
    with Suc Cons.IH [of m'] Cons.prems show ?thesis by simp
  qed (use Cons.prems in simp)
qed simp

lemma reschedule_ring:
  assumes ok: "ring_ok m ring s"
  shows "\<exists>ids. reschedule cleanup (ring_state m ring s, k) = Some (ids, ring_state m (rotate1 ring) s, k)"
proof -
  from ok obtain t u rest where ring: "ring = t # u # rest"
    by (cases ring rule: remdups_adj.cases) (auto simp: ring_ok_def)
  have t: "state t = Ready" "pri_index (priority t) = m" and u: "task_id t \<noteq> task_id u"
    and m: "m < 3" "length (queues s) = 3" "\<forall>j<m. queues s ! j = []"
    using ok unfolding ring_ok_def ring by simp_all
  have t': "t\<lparr>state := Ready\<rparr> = t" using t(1) by simp
  let ?s = "s\<lparr>current := None, queues := (queues s)[m := u # rest @ [t]]\<rparr>"
  have put: "put_back cleanup (ring_state m ring s, k) = Some (?s, k)"
    using ring t m by (simp add: put_back_def ring_state_def push_ready_def Let_def t')
  have "take_queues (\<lambda>x. unat (task_id x) \<noteq> unat (task_id t)) (queues ?s) = Some (u, (queues ?s)[m := rest @ [t]])"
    by (rule take_queues_at) (use m u in auto)
  then have "pick_next_fair (unat (task_id t)) ?s = (Some (u\<lparr>state := Running\<rparr>), ?s\<lparr>queues := (queues s)[m := rest @ [t]]\<rparr>)"
    by (simp add: pick_next_fair_def)
  with put ring show ?thesis
    by (simp add: reschedule_def current_id_def ring_state_def Let_def)
qed

lemma ring_ok_rotate: "ring_ok m ring s \<Longrightarrow> ring_ok m (rotate n ring) s"
  by (auto simp: ring_ok_def rotate_map [symmetric])

lemma resched_n_ring:
  assumes "ring_ok m ring s"
  shows "resched_n cleanup n (ring_state m ring s, k) = Some (ring_state m (rotate n ring) s, k)"
proof (induction n)
  case (Suc n)
  with reschedule_ring [OF ring_ok_rotate [OF assms, of n], of cleanup k] show ?case by (auto simp: rotate_def)
qed simp

section \<open>Saved contexts\<close>

fun switches :: "u64 \<Rightarrow> (nat \<times> nat) list \<Rightarrow> Cpu \<Rightarrow> Cpu option" where
  "switches resume [] p = Some p"
| "switches resume (x # xs) p = do { (sw, p) \<leftarrow> switch_to resume x p; switches resume xs p }"

lemma switch_to_contexts:
  assumes "switch_to resume (old_id, new_id) p = Some (sw, p')"
  shows "length (contexts p') = length (contexts p) \<and> (\<forall>a. a \<noteq> old_id \<or> a = 0 \<longrightarrow> contexts p' ! a = contexts p ! a)
    \<and> (sw \<longrightarrow> new_id < length (contexts p) \<and> regs p' = contexts p ! new_id
         \<and> (old_id \<noteq> 0 \<longrightarrow> old_id < length (contexts p) \<and> contexts p' ! old_id = (regs p)\<lparr>rip := resume\<rparr>)
         \<and> (old_id = 0 \<longrightarrow> idle_context p' = (regs p)\<lparr>rip := resume\<rparr>))"
  using assms
  by (auto simp: switch_to_def context_switch_def index_def store_def Let_def split: if_splits bind_splits)

lemma switches_contexts:
  "switches resume xs p = Some p' \<Longrightarrow> \<forall>x\<in>set xs. fst x \<noteq> a \<Longrightarrow>
   contexts p' ! a = contexts p ! a \<and> length (contexts p') = length (contexts p)"
proof (induction xs arbitrary: p)
  case (Cons x xs)
  then obtain sw q where "switch_to resume (fst x, snd x) p = Some (sw, q)" "switches resume xs q = Some p'"
    by (auto split: bind_splits)
  with Cons switch_to_contexts [of resume "fst x" "snd x" p sw q] show ?case by auto
qed simp

section \<open>The other operations keep the invariant\<close>

lemma unblock_footprints:
  assumes "queue_ok s" shows "footprints (snd (unblock i s)) = footprints s \<and> queue_ok (snd (unblock i s))"
proof (cases "take_first (\<lambda>t. task_id t = i) (blocked s)")
  case None
  then show ?thesis using assms by (simp add: unblock_def)
next
  case (Some r)
  then obtain t b where r: "take_first (\<lambda>t. task_id t = i) (blocked s) = Some (t, b)" by (cases r) auto
  from take_first_Some [OF r] obtain a c where bl: "blocked s = a @ t # c" "b = a @ c" by blast
  let ?s = "s\<lparr>blocked := b\<rparr>"
  have "queue_ok ?s" "footprints s = add_mset (footprint t) (footprints ?s)"
    using assms bl by (auto simp: queue_ok_def footprints_def all_tasks_def)
  with r show ?thesis
    using push_ready_queue_ok [of ?s "t\<lparr>state := Ready\<rparr>"] push_ready_footprints [of ?s "t\<lparr>state := Ready\<rparr>"] assms
    by (simp add: unblock_def queue_ok_def)
qed

lemma sched_wf_unblock: "sched_wf s \<Longrightarrow> sched_wf (snd (unblock i s))"
  using unblock_footprints [of s i] ids_valid_footprints [of "snd (unblock i s)" s] by (simp add: sched_wf_def)

lemma current_state_footprints:
  "footprints (s\<lparr>current := map_option (\<lambda>t. t\<lparr>state := x\<rparr>) (current s)\<rparr>) = footprints s"
  by (cases "current s") (auto simp: footprints_def all_tasks_def)

lemma sched_wf_block_kill:
  assumes "sched_wf s" shows "sched_wf (block_current s)" "sched_wf (kill_current s)"
proof -
  have "sched_wf (s\<lparr>current := map_option (\<lambda>t. t\<lparr>state := x\<rparr>) (current s)\<rparr>)" if "x \<noteq> Ready" for x
    using assms that current_state_footprints [of x s] ids_valid_footprints [of _ s]
    by (auto simp: sched_wf_def queue_ok_def)
  then show "sched_wf (block_current s)" "sched_wf (kill_current s)"
    by (simp_all add: block_current_def kill_current_def)
qed

lemma sched_spawn_result:
  assumes wf: "sched_wf s" "length ctxs = MAX_TASKS" "state t = Ready" "0 < unat (task_id t)" "task_id t \<notin> set (task_ids s)"
  shows "unat (task_id t) < MAX_TASKS \<Longrightarrow> sched_spawn t (ctxs, s) = Some (ctxs[unat (task_id t) := task_context t], push_ready t s)
      \<and> sched_wf (push_ready t s)"
    and "\<not> unat (task_id t) < MAX_TASKS \<Longrightarrow> sched_spawn t (ctxs, s) = None"
proof -
  assume lt: "unat (task_id t) < MAX_TASKS"
  have ok: "queue_ok s" "length (queues s) = 3" using wf(1) by (auto simp: sched_wf_def queue_ok_def)
  have m: "mset (task_ids (push_ready t s)) = mset (task_id t # task_ids s)"
    using push_ready_footprints [OF ok(2), of t] by (simp add: mset_task_ids footprint_def)
  then have "distinct (task_ids (push_ready t s))" "set (task_ids (push_ready t s)) = insert (task_id t) (set (task_ids s))"
    using wf(1,5) mset_eq_imp_distinct_iff [OF m] mset_eq_setD [OF m] by (simp_all add: sched_wf_def ids_valid_def)
  then have "ids_valid (push_ready t s)" using wf lt by (auto simp: sched_wf_def ids_valid_def)
  then show "sched_spawn t (ctxs, s) = Some (ctxs[unat (task_id t) := task_context t], push_ready t s) \<and> sched_wf (push_ready t s)"
    using push_ready_queue_ok [OF ok(1) wf(3)] lt wf(2) by (simp add: sched_spawn_def store_def sched_wf_def)
qed (simp add: sched_spawn_def)

section \<open>Properties\<close>

definition demo_task :: "u64 \<Rightarrow> TaskState \<Rightarrow> Priority \<Rightarrow> Task" where
  "demo_task i st p = \<lparr>task_id = i, task_name = ''t'', state = st, priority = p, task_context = context_empty,
     stack_top = 0, stack_frames = [], task_caps = []\<rparr>"

definition demo_sched :: Scheduler where
  "demo_sched = \<lparr>queues = [[], [demo_task 2 Ready Normal], [demo_task 3 Ready Background]],
     current = Some (demo_task 1 Running Normal), blocked = []\<rparr>"

definition demo_next :: Scheduler where
  "demo_next = \<lparr>queues = [[], [demo_task 1 Ready Normal], [demo_task 3 Ready Background]],
     current = Some (demo_task 2 Running Normal), blocked = []\<rparr>"

lemmas sched_eval = reschedule_def put_back_def push_ready_def pick_next_fair_def pick_next_def current_id_def
  first_ready_def demo_task_def demo_sched_def demo_next_def

lemma demo_sched_wf: "sched_wf demo_sched"
proof -
  have "queue_ok demo_sched"
    by (auto simp: queue_ok_def demo_sched_def demo_task_def less_Suc_eq numeral_3_eq_3 numeral_2_eq_2)
  moreover have "ids_valid demo_sched"
    by (simp add: ids_valid_def task_ids_def all_tasks_def demo_sched_def demo_task_def MAX_TASKS_def)
  ultimately show ?thesis by (simp add: sched_wf_def)
qed

lemma demo_reschedule: "reschedule (\<lambda>t k. Some k) (demo_sched, ()) = Some ((1, 2), demo_next, ())"
  by (simp add: sched_eval)






definition demo_cpu :: Cpu where
  "demo_cpu = \<lparr>sched = sched_new, contexts = replicate 4 context_empty, idle_context = context_empty,
     need_reschedule = False, regs = context_empty\<lparr>rsp := 7, rip := 8\<rparr>, interrupts_on = True\<rparr>"


end
