(* ===== verification/Binary_Heap.thy ===== *)
theory Binary_Heap
  imports Oxide_Prelude
begin

text \<open>
  \<open>alloc::collections::BinaryHeap\<close>, which the deadline queue and the inference queue are built on: the
  array heap of the standard library, with the order as an argument.  An element that moves through
  the hole of the library's code is an element that is swapped here.
\<close>

definition swap :: "nat \<Rightarrow> nat \<Rightarrow> 'a list \<Rightarrow> 'a list" where
  "swap i j h = h[i := h ! j, j := h ! i]"

definition hparent :: "nat \<Rightarrow> nat" where
  "hparent i = (i - 1) div 2"

function sift_up :: "('a \<Rightarrow> 'a \<Rightarrow> bool) \<Rightarrow> nat \<Rightarrow> 'a list \<Rightarrow> 'a list" where
  "sift_up le pos h =
     (if pos = 0 then h
      else if le (h ! pos) (h ! hparent pos) then h
      else sift_up le (hparent pos) (swap pos (hparent pos) h))"
  by pat_completeness auto

termination sift_up
  by (relation "measure (\<lambda>(_, pos, _). pos)") (auto simp: hparent_def)

text \<open>Move the element at \<open>pos\<close> all the way down along the greater children, then up again.\<close>

definition greater_child :: "('a \<Rightarrow> 'a \<Rightarrow> bool) \<Rightarrow> 'a list \<Rightarrow> nat \<Rightarrow> nat" where
  "greater_child le h pos =
     (let c = 2 * pos + 1 in if c + 1 < length h \<and> le (h ! c) (h ! (c + 1)) then c + 1 else c)"

function sift_down_to_bottom :: "('a \<Rightarrow> 'a \<Rightarrow> bool) \<Rightarrow> nat \<Rightarrow> 'a list \<Rightarrow> 'a list" where
  "sift_down_to_bottom le pos h =
     (if 2 * pos + 1 < length h
      then sift_down_to_bottom le (greater_child le h pos) (swap pos (greater_child le h pos) h)
      else sift_up le pos h)"
  by pat_completeness auto

termination sift_down_to_bottom
  by (relation "measure (\<lambda>(_, pos, h). length h - pos)") (auto simp: swap_def greater_child_def Let_def)

declare sift_up.simps [simp del] sift_down_to_bottom.simps [simp del]

definition heap_push :: "('a \<Rightarrow> 'a \<Rightarrow> bool) \<Rightarrow> 'a \<Rightarrow> 'a list \<Rightarrow> 'a list" where
  "heap_push le x h = sift_up le (length h) (h @ [x])"

definition heap_pop :: "('a \<Rightarrow> 'a \<Rightarrow> bool) \<Rightarrow> 'a list \<Rightarrow> ('a \<times> 'a list) option" where
  "heap_pop le h =
     (if h = [] then None
      else let item = last h; d = butlast h
           in if d = [] then Some (item, d) else Some (d ! 0, sift_down_to_bottom le 0 (d[0 := item])))"

definition heap_peek :: "'a list \<Rightarrow> 'a option" where
  "heap_peek h = (if h = [] then None else Some (h ! 0))"

text \<open>Draining a heap and pushing what a filter keeps.\<close>

fun heap_push_all :: "('a \<Rightarrow> 'a \<Rightarrow> bool) \<Rightarrow> 'a list \<Rightarrow> 'a list \<Rightarrow> 'a list" where
  "heap_push_all le [] h = h"
| "heap_push_all le (x # xs) h = heap_push_all le xs (heap_push le x h)"

definition heap_retain :: "('a \<Rightarrow> 'a \<Rightarrow> bool) \<Rightarrow> ('a \<Rightarrow> bool) \<Rightarrow> 'a list \<Rightarrow> 'a list" where
  "heap_retain le P h = heap_push_all le (filter P h) []"

section \<open>Contents\<close>

lemma mset_swap_nth: "i < length h \<Longrightarrow> j < length h \<Longrightarrow> mset (swap i j h) = mset h"
  by (simp add: swap_def mset_swap)

lemma length_swap [simp]: "length (swap i j h) = length h"
  by (simp add: swap_def)

lemma hparent_less: "0 < i \<Longrightarrow> hparent i < i"
  by (auto simp: hparent_def)

lemma greater_child_bounds:
  "2 * pos + 1 < length h \<Longrightarrow> pos < greater_child le h pos \<and> greater_child le h pos < length h"
  by (auto simp: greater_child_def Let_def)

lemma mset_sift_up: "pos < length h \<Longrightarrow> mset (sift_up le pos h) = mset h"
proof (induction le pos h rule: sift_up.induct)
  case (1 le pos h)
  then show ?case using hparent_less [of pos] by (subst sift_up.simps) (auto simp: mset_swap_nth)
qed

lemma mset_sift_down: "pos < length h \<Longrightarrow> mset (sift_down_to_bottom le pos h) = mset h"
proof (induction le pos h rule: sift_down_to_bottom.induct)
  case (1 le pos h)
  show ?case
  proof (cases "2 * pos + 1 < length h")
    case True
    with 1 greater_child_bounds [OF True, of le] show ?thesis
      by (subst sift_down_to_bottom.simps) (simp add: mset_swap_nth)
  next
    case False
    with 1 show ?thesis by (subst sift_down_to_bottom.simps) (simp add: mset_sift_up)
  qed
qed

lemma mset_heap_push: "mset (heap_push le x h) = add_mset x (mset h)"
  by (simp add: heap_push_def mset_sift_up)

lemma mset_heap_push_all: "mset (heap_push_all le xs h) = mset xs + mset h"
  by (induction xs arbitrary: h) (simp_all add: mset_heap_push)

lemma mset_heap_retain: "mset (heap_retain le P h) = filter_mset P (mset h)"
  by (simp add: heap_retain_def mset_heap_push_all)

lemma mset_heap_pop:
  assumes "heap_pop le h = Some (x, h')" shows "mset h = add_mset x (mset h')"
proof -
  have h: "h \<noteq> []" using assms by (auto simp: heap_pop_def)
  then have "h = butlast h @ [last h]" by simp
  then have m: "mset h = add_mset (last h) (mset (butlast h))" by (metis mset_append mset_single_iff add_mset_add_single mset.simps)
  show ?thesis
  proof (cases "butlast h")
    case Nil
    with assms m h show ?thesis by (simp add: heap_pop_def Let_def)
  next
    case (Cons y ys)
    have "mset (sift_down_to_bottom le 0 ((y # ys)[0 := last h])) = mset ((y # ys)[0 := last h])"
      by (rule mset_sift_down) simp
    with Cons assms m h show ?thesis by (auto simp: heap_pop_def Let_def)
  qed
qed

lemma heap_pop_None [simp]: "heap_pop le h = None \<longleftrightarrow> h = []"
  by (simp add: heap_pop_def Let_def)

lemma heap_pop_length: "heap_pop le h = Some (x, h') \<Longrightarrow> length h = Suc (length h')"
  using mset_heap_pop [of le h x h'] by (metis size_add_mset size_mset)

section \<open>The heap invariant\<close>

definition is_heap :: "('a \<Rightarrow> 'a \<Rightarrow> bool) \<Rightarrow> 'a list \<Rightarrow> bool" where
  [wf_defs]: "is_heap le h \<longleftrightarrow> (\<forall>i. 0 < i \<and> i < length h \<longrightarrow> le (h ! i) (h ! hparent i))"

text \<open>A heap with a hole at \<open>pos\<close>: every edge that does not touch \<open>pos\<close> is in order, and so are the edges
  that skip it.\<close>

definition hole_at :: "('a \<Rightarrow> 'a \<Rightarrow> bool) \<Rightarrow> nat \<Rightarrow> 'a list \<Rightarrow> bool" where
  "hole_at le pos h \<longleftrightarrow>
     (\<forall>i. 0 < i \<and> i < length h \<and> i \<noteq> pos \<and> hparent i \<noteq> pos \<longrightarrow> le (h ! i) (h ! hparent i))
     \<and> (\<forall>i. 0 < i \<and> i < length h \<and> hparent i = pos \<and> 0 < pos \<longrightarrow> le (h ! i) (h ! hparent pos))"

locale heap_order =
  fixes le :: "'a \<Rightarrow> 'a \<Rightarrow> bool"
  assumes refl: "le x x" and trans: "le x y \<Longrightarrow> le y z \<Longrightarrow> le x z" and total: "le x y \<or> le y x"
begin

lemma swap_nth:
  "i < length h \<Longrightarrow> j < length h \<Longrightarrow> swap i j h ! k = (if k = i then h ! j else if k = j then h ! i else h ! k)"
  by (auto simp: swap_def nth_list_update)

lemma sift_up_heap:
  "pos < length h \<Longrightarrow> hole_at le pos h \<Longrightarrow> (\<forall>i. 0 < i \<and> i < length h \<and> hparent i = pos \<longrightarrow> le (h ! i) (h ! pos))
   \<Longrightarrow> is_heap le (sift_up le pos h)"
proof (induction pos arbitrary: h rule: less_induct)
  case (less pos)
  note hole = less.prems(2) [unfolded hole_at_def]
  show ?case
  proof (cases "pos = 0 \<or> le (h ! pos) (h ! hparent pos)")
    case True
    have "is_heap le h" unfolding is_heap_def
    proof (intro allI impI)
      fix i assume i: "0 < i \<and> i < length h"
      show "le (h ! i) (h ! hparent i)"
        using i True hole less.prems(3) by (cases "i = pos"; cases "hparent i = pos") auto
    qed
    with True show ?thesis by (subst sift_up.simps) auto
  next
    case False
    let ?p = "hparent pos" and ?h = "swap pos (hparent pos) h"
    have p: "?p < pos" "?p < length h" using False hparent_less [of pos] less.prems(1) by auto
    have up: "le (h ! ?p) (h ! pos)" using False total by blast
    have nth: "?h ! k = (if k = pos then h ! ?p else if k = ?p then h ! pos else h ! k)" for k
      by (rule swap_nth) (use less.prems(1) p in auto)
    have pp: "le (h ! ?p) (h ! hparent ?p)" if "0 < ?p"
      using hole p that hparent_less [OF that] by auto
    have sib: "le (h ! i) (h ! ?p)" if "0 < i" "i < length h" "hparent i = ?p" "i \<noteq> pos" for i
      using hole that p by force
    have kids: "le (?h ! i) (?h ! ?p)" if i: "0 < i" "i < length h" "hparent i = ?p" for i
      using trans [OF sib [OF i] up] up i(3) hparent_less [OF i(1)] p by (auto simp: nth)
    have edge: "le (h ! i) (h ! ?p)" if "0 < i" "i < length h" "hparent i = pos" for i
      using hole that False by auto
    have "hole_at le ?p ?h" unfolding hole_at_def
    proof (intro conjI allI impI)
      fix i assume i: "0 < i \<and> i < length ?h \<and> i \<noteq> ?p \<and> hparent i \<noteq> ?p"
      then have "i \<noteq> pos" by auto
      with i edge [of i] hole show "le (?h ! i) (?h ! hparent i)" by (auto simp: nth)
    next
      fix i assume i: "0 < i \<and> i < length ?h \<and> hparent i = ?p \<and> 0 < ?p"
      have "?h ! hparent ?p = h ! hparent ?p" using i hparent_less [of ?p] p by (auto simp: nth)
      then show "le (?h ! i) (?h ! hparent ?p)"
        using i pp trans [OF sib [of i] pp] hparent_less [of i] by (auto simp: nth)
    qed
    then have "is_heap le (sift_up le ?p ?h)" using kids p by (intro less.IH) auto
    with False show ?thesis by (subst sift_up.simps) auto
  qed
qed

lemma greater_child_greatest:
  assumes "2 * pos + 1 < length h" "0 < i" "i < length h" "hparent i = pos"
  shows "le (h ! i) (h ! greater_child le h pos)" "hparent (greater_child le h pos) = pos"
proof -
  have "i = 2 * pos + 1 \<or> i = 2 * pos + 2" using assms(2,4) by (auto simp: hparent_def)
  then show "le (h ! i) (h ! greater_child le h pos)"
    using assms(3) refl total [of "h ! (2 * pos + 1)" "h ! (2 * pos + 2)"] by (auto simp: greater_child_def Let_def)
  show "hparent (greater_child le h pos) = pos" by (auto simp: greater_child_def Let_def hparent_def)
qed

lemma sift_down_heap:
  "pos < length h \<Longrightarrow> hole_at le pos h \<Longrightarrow> is_heap le (sift_down_to_bottom le pos h)"
proof (induction "length h - pos" arbitrary: pos h rule: less_induct)
  case less
  note hole = less.prems(2) [unfolded hole_at_def]
  show ?case
  proof (cases "2 * pos + 1 < length h")
    case True
    let ?c = "greater_child le h pos" and ?h = "swap pos (greater_child le h pos) h"
    have c: "pos < ?c" "?c < length h" "hparent ?c = pos"
      using greater_child_bounds [OF True, of le] greater_child_greatest(2) [OF True, of "2 * pos + 1"] True
      by (auto simp: hparent_def)
    have nth: "?h ! k = (if k = pos then h ! ?c else if k = ?c then h ! pos else h ! k)" for k
      by (rule swap_nth) (use less.prems(1) c in auto)
    have "hole_at le ?c ?h" unfolding hole_at_def
    proof (intro conjI allI impI)
      fix i assume i: "0 < i \<and> i < length ?h \<and> i \<noteq> ?c \<and> hparent i \<noteq> ?c"
      consider (at) "i = pos" | (child) "hparent i = pos" "i \<noteq> pos" | (other) "i \<noteq> pos" "hparent i \<noteq> pos" by blast
      then show "le (?h ! i) (?h ! hparent i)"
      proof cases
        case at
        with hole i c hparent_less [of i] show ?thesis by (auto simp: nth)
      next
        case child
        with greater_child_greatest(1) [OF True, of i] i show ?thesis by (auto simp: nth)
      next
        case other
        with hole i show ?thesis by (auto simp: nth)
      qed
    next
      fix i assume i: "0 < i \<and> i < length ?h \<and> hparent i = ?c \<and> 0 < ?c"
      then have "?c < i" using hparent_less [of i] by auto
      moreover have "le (h ! i) (h ! hparent i)"
        using hole [THEN conjunct1, rule_format, of i] i c calculation by auto
      ultimately show "le (?h ! i) (?h ! hparent ?c)" using i c by (auto simp: nth)
    qed
    then have "is_heap le (sift_down_to_bottom le ?c ?h)" using c less.prems(1) by (intro less.hyps) auto
    with True show ?thesis by (subst sift_down_to_bottom.simps) auto
  next
    case False
    have "is_heap le (sift_up le pos h)"
      by (rule sift_up_heap [OF less.prems]) (use False in \<open>auto simp: hparent_def\<close>)
    with False show ?thesis by (subst sift_down_to_bottom.simps) auto
  qed
qed

lemma heap_push_heap:
  assumes "is_heap le h" shows "is_heap le (heap_push le x h)"
proof -
  let ?h = "h @ [x]"
  have old: "le (?h ! i) (?h ! hparent i)" if "0 < i" "i < length h" for i
    using assms that hparent_less [OF that(1)] by (auto simp: is_heap_def nth_append)
  have leaf: "hparent i \<noteq> length h" if "0 < i" "i < length ?h" for i
    using that hparent_less [OF that(1)] by auto
  have "hole_at le (length h) ?h" using old leaf by (auto simp: hole_at_def less_Suc_eq)
  then show ?thesis unfolding heap_push_def by (rule sift_up_heap [rotated]) (use leaf in auto)
qed

lemma root_greatest: "is_heap le h \<Longrightarrow> i < length h \<Longrightarrow> le (h ! i) (h ! 0)"
proof (induction i rule: less_induct)
  case (less i)
  show ?case
  proof (cases "i = 0")
    case False
    then have "le (h ! i) (h ! hparent i)" using less.prems by (simp add: is_heap_def)
    moreover have "le (h ! hparent i) (h ! 0)" using less False hparent_less [of i] by auto
    ultimately show ?thesis by (rule trans)
  qed (simp add: refl)
qed

lemma heap_pop_heap:
  assumes heap: "is_heap le h" and pop: "heap_pop le h = Some (x, h')"
  shows "is_heap le h'" "\<forall>y\<in>set h. le y x" "x = h ! 0"
proof -
  have h: "h \<noteq> []" using pop by (auto simp: heap_pop_def)
  have len: "length (butlast h) = length h - 1" by simp
  have nth: "butlast h ! i = h ! i" if "i < length h - 1" for i using that by (simp add: nth_butlast)
  show x: "x = h ! 0"
  proof (cases "butlast h")
    case Nil
    then show ?thesis using pop h by (cases h rule: rev_cases) (auto simp: heap_pop_def)
  next
    case (Cons y ys)
    then have "x = butlast h ! 0" using pop h by (simp add: heap_pop_def Let_def)
    then show ?thesis using Cons nth [of 0] len by simp
  qed
  then show "\<forall>y\<in>set h. le y x" using root_greatest [OF heap] by (auto simp: in_set_conv_nth)
  show "is_heap le h'"
  proof (cases "butlast h = []")
    case True
    then show ?thesis using pop h by (simp add: heap_pop_def is_heap_def)
  next
    case False
    let ?d = "(butlast h)[0 := last h]"
    have "hole_at le 0 ?d" using heap nth by (auto simp: hole_at_def is_heap_def dest: hparent_less)
    moreover have "0 < length ?d" using False by (metis length_greater_0_conv length_list_update)
    ultimately have "is_heap le (sift_down_to_bottom le 0 ?d)" by (intro sift_down_heap)
    then show ?thesis using False pop h by (simp add: heap_pop_def Let_def)
  qed
qed

lemma heap_push_all_heap: "is_heap le h \<Longrightarrow> is_heap le (heap_push_all le xs h)"
  by (induction xs arbitrary: h) (simp_all add: heap_push_heap)

lemma heap_retain_heap: "is_heap le (heap_retain le P h)"
  unfolding heap_retain_def by (rule heap_push_all_heap) (simp add: is_heap_def)

end

end
