(* ===== verification/Deadline_Queue.thy ===== *)
theory Deadline_Queue
  imports Binary_Heap Task_Scheduler
begin

text \<open>
  \<^verbatim>\<open>timer/deadline.rs\<close> and \<^verbatim>\<open>timer/clock.rs\<close>: the queue of wake-up times and the conversions of the tick
  counter.  Whether the scheduler's lock can be taken inside the timer interrupt is the argument
  \<open>sched_locked\<close>: it is held exactly when the interrupted code holds it.
\<close>

section \<open>Deadlines\<close>

record DeadlineEntry =
  deadline_tick :: u64
  dl_task :: u64
  callback_id :: u64

text \<open>\<open>Ord::cmp\<close>, reversed so that the earliest deadline is the greatest entry.\<close>

definition deadline_le :: "DeadlineEntry \<Rightarrow> DeadlineEntry \<Rightarrow> bool" where
  "deadline_le a b \<longleftrightarrow> deadline_tick b \<le> deadline_tick a"

interpretation dl: heap_order deadline_le
  by unfold_locales (auto simp: deadline_le_def)

record DeadlineQueue =
  dl_heap :: "DeadlineEntry list"
  next_callback :: u64

definition dl_new :: DeadlineQueue where
  "dl_new = \<lparr>dl_heap = [], next_callback = 1\<rparr>"

definition dl_schedule :: "u64 \<Rightarrow> u64 \<Rightarrow> DeadlineQueue \<Rightarrow> u64 \<times> DeadlineQueue" where
  "dl_schedule task deadline q =
     (let i = next_callback q;
          e = \<lparr>deadline_tick = deadline, dl_task = task, callback_id = i\<rparr>
      in (i, \<lparr>dl_heap = heap_push deadline_le e (dl_heap q), next_callback = i + 1\<rparr>))"

definition dl_cancel :: "u64 \<Rightarrow> DeadlineQueue \<Rightarrow> DeadlineQueue" where
  "dl_cancel i q = q\<lparr>dl_heap := heap_retain deadline_le (\<lambda>e. callback_id e \<noteq> i) (dl_heap q)\<rparr>"

function check_expired ::
  "u64 \<Rightarrow> bool \<Rightarrow> DeadlineEntry list \<Rightarrow> Scheduler \<Rightarrow> nat \<Rightarrow> nat \<times> DeadlineEntry list \<times> Scheduler" where
  "check_expired now sched_locked h s fired =
     (case heap_peek h of
        None \<Rightarrow> (fired, h, s)
      | Some e \<Rightarrow>
          if now < deadline_tick e then (fired, h, s)
          else (case heap_pop deadline_le h of
                  None \<Rightarrow> (fired, h, s)
                | Some (e, h) \<Rightarrow>
                    check_expired now sched_locked h (if sched_locked then s else snd (unblock (dl_task e) s)) (fired + 1)))"
  by pat_completeness auto

termination check_expired
  by (relation "measure (\<lambda>(_, _, h, _, _). length h)") (auto dest: heap_pop_length)

declare check_expired.simps [simp del]

definition pending_count :: "DeadlineQueue \<Rightarrow> nat" where
  "pending_count q = length (dl_heap q)"

text \<open>\<open>tick\<close>, called from the timer interrupt: skipped when the queue's lock is held.\<close>

definition dl_tick :: "u64 \<Rightarrow> bool \<Rightarrow> bool \<Rightarrow> DeadlineQueue \<times> Scheduler \<Rightarrow> DeadlineQueue \<times> Scheduler" where
  "dl_tick now queue_locked sched_locked = (\<lambda>(q, s).
     if queue_locked then (q, s)
     else (case check_expired now sched_locked (dl_heap q) s 0 of (_, h, s) \<Rightarrow> (q\<lparr>dl_heap := h\<rparr>, s)))"

section \<open>The clock\<close>

definition TICKS_PER_SEC :: u64 where
  "TICKS_PER_SEC = 100"

definition clock_millis :: "u64 \<Rightarrow> u64 option" where
  "clock_millis ticks = do { m \<leftarrow> checked_mul ticks 1000; Some (m div max TICKS_PER_SEC 1) }"

definition clock_seconds :: "u64 \<Rightarrow> u64" where
  "clock_seconds ticks = ticks div max TICKS_PER_SEC 1"

definition ms_to_ticks :: "u64 \<Rightarrow> u64 option" where
  "ms_to_ticks ms = do { m \<leftarrow> checked_mul ms TICKS_PER_SEC; Some (m div 1000) }"

definition boot_tsc :: "u32 \<Rightarrow> u32 \<Rightarrow> u64" where
  "boot_tsc lo hi = push_bit 32 (ucast hi) OR ucast lo"

section \<open>Expiry is exact\<close>

lemma is_heap_schedule: "is_heap deadline_le (dl_heap q) \<Longrightarrow> is_heap deadline_le (dl_heap (snd (dl_schedule t d q)))"
  by (simp add: dl_schedule_def Let_def dl.heap_push_heap)

lemma is_heap_cancel: "is_heap deadline_le (dl_heap (dl_cancel i q))"
  by (simp add: dl_cancel_def dl.heap_retain_heap)

text \<open>The order in which expired entries are taken does not matter for the outcome, only their set does.\<close>

lemma check_expired_run:
  assumes "is_heap deadline_le h"
  shows "\<exists>es h'. check_expired now lk h s fired =
      (fired + length es, h', if lk then s else fold (\<lambda>e s. snd (unblock (dl_task e) s)) es s)
    \<and> is_heap deadline_le h' \<and> mset h = mset es + mset h'
    \<and> (\<forall>e\<in>set es. deadline_tick e \<le> now) \<and> (\<forall>e\<in>set h'. now < deadline_tick e)"
  using assms
proof (induction now lk h s fired rule: check_expired.induct)
  case (1 now lk h s fired)
  show ?case
  proof (cases "h = [] \<or> now < deadline_tick (h ! 0)")
    case True
    moreover have "\<forall>e\<in>set h. now < deadline_tick e" if "h \<noteq> []"
    proof
      fix e assume "e \<in> set h"
      then have "deadline_tick (h ! 0) \<le> deadline_tick e"
        using dl.root_greatest [OF "1.prems"] by (auto simp: in_set_conv_nth deadline_le_def)
      then show "now < deadline_tick e" using True that by (auto intro: less_le_trans)
    qed
    ultimately show ?thesis using "1.prems"
      by (intro exI [of _ "[]"] exI [of _ h]) (subst check_expired.simps, auto simp: heap_peek_def)
  next
    case False
    then obtain e h1 where pop: "heap_pop deadline_le h = Some (e, h1)"
      by (cases "heap_pop deadline_le h") auto
    note heap = dl.heap_pop_heap [OF "1.prems" pop]
    let ?s = "if lk then s else snd (unblock (dl_task e) s)"
    have peek: "heap_peek h = Some e" "\<not> now < deadline_tick e" using False heap(3) by (auto simp: heap_peek_def)
    from "1.IH" [OF peek pop refl heap(1)] obtain es h' where IH:
      "check_expired now lk h1 ?s (fired + 1) =
         (fired + 1 + length es, h', if lk then ?s else fold (\<lambda>e s. snd (unblock (dl_task e) s)) es ?s)"
      "is_heap deadline_le h'" "mset h1 = mset es + mset h'"
      "\<forall>e\<in>set es. deadline_tick e \<le> now" "\<forall>e\<in>set h'. now < deadline_tick e" by blast
    have "check_expired now lk h s fired = check_expired now lk h1 ?s (fired + 1)"
      using peek pop by (subst check_expired.simps) simp
    with IH peek(2) mset_heap_pop [OF pop] show ?thesis
      by (intro exI [of _ "e # es"] exI [of _ h']) (auto simp: not_less)
  qed
qed

lemma take_first_filter:
  "distinct (map f xs) \<Longrightarrow> (case take_first (\<lambda>x. f x = i) xs of None \<Rightarrow> xs | Some (_, ys) \<Rightarrow> ys) = filter (\<lambda>x. f x \<noteq> i) xs"
proof (induction xs)
  case (Cons x xs)
  have "filter (\<lambda>y. f y \<noteq> f x) xs = xs" using Cons.prems by (simp add: filter_id_conv) (metis image_eqI)
  with Cons show ?case by (auto split: option.splits)
qed simp

lemma unblock_blocked:
  assumes "distinct (map task_id (blocked s))"
  shows "blocked (snd (unblock i s)) = filter (\<lambda>t. task_id t \<noteq> i) (blocked s)"
  using take_first_filter [OF assms, of i] by (auto simp: unblock_def push_ready_def Let_def split: option.splits)

lemma fold_unblock_blocked:
  assumes "distinct (map task_id (blocked s))"
  shows "blocked (fold (\<lambda>e s. snd (unblock (dl_task e) s)) es s) = filter (\<lambda>t. task_id t \<notin> dl_task ` set es) (blocked s)"
  using assms
proof (induction es arbitrary: s)
  case (Cons e es)
  have "distinct (map task_id (blocked (snd (unblock (dl_task e) s))))"
    using Cons.prems by (simp add: unblock_blocked distinct_map_filter)
  with Cons show ?case by (auto simp: unblock_blocked intro: filter_cong)
qed simp

lemma blocked_distinct: "sched_wf s \<Longrightarrow> distinct (map task_id (blocked s))"
  by (auto simp: sched_wf_def ids_valid_def task_ids_def all_tasks_def)

section \<open>Properties\<close>


definition demo_entry :: "u64 \<Rightarrow> u64 \<Rightarrow> DeadlineEntry" where
  "demo_entry d t = \<lparr>deadline_tick = d, dl_task = t, callback_id = t\<rparr>"

definition demo_sleepers :: Scheduler where
  "demo_sleepers = \<lparr>queues = [[], [], []], current = None, blocked = [demo_task 1 Blocked Normal, demo_task 2 Blocked Normal]\<rparr>"

lemma demo_sleepers_wf: "sched_wf demo_sleepers"
proof -
  have "queue_ok demo_sleepers"
    by (auto simp: queue_ok_def demo_sleepers_def demo_task_def less_Suc_eq numeral_3_eq_3)
  moreover have "ids_valid demo_sleepers"
    by (simp add: ids_valid_def task_ids_def all_tasks_def demo_sleepers_def demo_task_def MAX_TASKS_def)
  ultimately show ?thesis by (simp add: sched_wf_def)
qed


text \<open>The clock's conversions lose nothing but the remainder: a number of ticks converted to milliseconds and
  back is unchanged whenever the multiplications do not overflow.\<close>

theorem ticks_roundtrip:
  assumes "unat t * 1000 < 2 ^ 64"
  shows "do { ms \<leftarrow> clock_millis t; ms_to_ticks ms } = Some t"
proof -
  have m: "checked_mul t 1000 = Some (t * 1000)" "unat (t * 1000) = unat t * 1000"
    using assms by (simp_all add: checked_mul_def unat_word_ariths)
  have tps: "max TICKS_PER_SEC 1 = 100" "unat TICKS_PER_SEC = 100" by (simp_all add: TICKS_PER_SEC_def max_def word_le_nat_alt)
  let ?ms = "t * 1000 div 100"
  have ms: "unat ?ms = unat t * 10" by (simp add: unat_div m(2))
  have m2: "checked_mul ?ms TICKS_PER_SEC = Some (?ms * TICKS_PER_SEC)" "unat (?ms * TICKS_PER_SEC) = unat t * 1000"
    using assms by (simp_all add: checked_mul_def ms tps unat_word_ariths)
  have "unat (?ms * TICKS_PER_SEC div 1000) = unat t" unfolding unat_div m2(2) by simp
  then have "?ms * TICKS_PER_SEC div 1000 = t" by (rule unat_inject [THEN iffD1])
  with m m2 tps show ?thesis by (simp add: clock_millis_def ms_to_ticks_def)
qed

theorem ticks_roundtrip_witness:
  "do { ms \<leftarrow> clock_millis 123456789; ms_to_ticks ms } = Some 123456789"
  by (rule ticks_roundtrip) simp

end
