(* ===== verification/Gpu_Scheduler.thy ===== *)
theory Gpu_Scheduler
  imports Binary_Heap
begin

text \<open>
  \<^verbatim>\<open>gpu/scheduler.rs\<close>: the queue of inference requests, ordered by priority, deadline and submission time.
  The gate in front of it, \<open>submit_request\<close>, is in the kernel theories.
\<close>

datatype InferencePriority = Urgent | Normal | Batch

fun inference_index :: "InferencePriority \<Rightarrow> u8" where
  "inference_index Urgent = 0"
| "inference_index Normal = 1"
| "inference_index Batch = 2"

record InferenceRequest =
  req_id :: u64
  req_agent :: u64
  req_model :: string
  req_priority :: InferencePriority
  req_deadline :: "u64 option"
  submitted_tick :: u64

section \<open>The order of requests\<close>

datatype Ordering = Less | Equal | Greater

definition cmp_of :: "'a::linorder \<Rightarrow> 'a \<Rightarrow> Ordering" where
  "cmp_of a b = (if a < b then Less else if a = b then Equal else Greater)"

fun then_with :: "Ordering \<Rightarrow> Ordering \<Rightarrow> Ordering" where
  "then_with Equal o2 = o2"
| "then_with o1 _ = o1"

fun reverse :: "Ordering \<Rightarrow> Ordering" where
  "reverse Less = Greater"
| "reverse Equal = Equal"
| "reverse Greater = Less"

definition request_cmp :: "InferenceRequest \<Rightarrow> InferenceRequest \<Rightarrow> Ordering" where
  "request_cmp a b = reverse
     (then_with (cmp_of (inference_index (req_priority a)) (inference_index (req_priority b)))
       (case (req_deadline a, req_deadline b) of
          (Some x, Some y) \<Rightarrow> cmp_of x y
        | (Some _, None) \<Rightarrow> Less
        | (None, Some _) \<Rightarrow> Greater
        | (None, None) \<Rightarrow> cmp_of (submitted_tick a) (submitted_tick b)))"

text \<open>\<open><=\<close> as the heap uses it.\<close>

definition request_le :: "InferenceRequest \<Rightarrow> InferenceRequest \<Rightarrow> bool" where
  "request_le a b \<longleftrightarrow> request_cmp a b \<noteq> Greater"

text \<open>The order spelled out: \<open>a\<close> is served before or together with \<open>b\<close>.\<close>

definition serves_before :: "InferenceRequest \<Rightarrow> InferenceRequest \<Rightarrow> bool" where
  "serves_before a b \<longleftrightarrow> inference_index (req_priority a) < inference_index (req_priority b)
     \<or> inference_index (req_priority a) = inference_index (req_priority b)
       \<and> (case (req_deadline a, req_deadline b) of
            (Some x, Some y) \<Rightarrow> x \<le> y
          | (Some _, None) \<Rightarrow> True
          | (None, Some _) \<Rightarrow> False
          | (None, None) \<Rightarrow> submitted_tick a \<le> submitted_tick b)"

lemma request_le_iff: "request_le a b \<longleftrightarrow> serves_before b a"
proof -
  have r: "reverse x = Greater \<longleftrightarrow> x = Less" for x by (cases x) auto
  have t: "then_with x y = Less \<longleftrightarrow> x = Less \<or> x = Equal \<and> y = Less" for x y by (cases x) auto
  have c: "cmp_of x y = Less \<longleftrightarrow> x < y" "cmp_of x y = Equal \<longleftrightarrow> x = y" for x y :: "'b::linorder"
    by (auto simp: cmp_of_def)
  show ?thesis
    by (auto simp: request_le_def request_cmp_def serves_before_def r t c split: option.splits)
qed

interpretation rq: heap_order request_le
  by unfold_locales (auto simp: request_le_iff serves_before_def split: option.splits)

text \<open>Two requests of one priority with the same deadline are equal in this order, whatever their times of submission.\<close>

lemma equal_deadlines_tie:
  "\<lbrakk>req_priority a = req_priority b; req_deadline a = Some d; req_deadline b = Some d\<rbrakk> \<Longrightarrow> request_le a b \<and> request_le b a"
  by (simp add: request_le_iff serves_before_def)

section \<open>The scheduler\<close>

record GpuScheduler =
  gpu_queue :: "InferenceRequest list"
  gpu_current :: "InferenceRequest option"
  total_completed :: u64
  total_failed :: u64
  next_request_id :: u64

definition gpu_new :: GpuScheduler where
  "gpu_new = \<lparr>gpu_queue = [], gpu_current = None, total_completed = 0, total_failed = 0, next_request_id = 1\<rparr>"

definition gpu_submit ::
  "u64 \<Rightarrow> string \<Rightarrow> InferencePriority \<Rightarrow> u64 option \<Rightarrow> u64 \<Rightarrow> GpuScheduler \<Rightarrow> u64 \<times> GpuScheduler" where
  "gpu_submit agent model prio deadline now g =
     (let i = next_request_id g;
          r = \<lparr>req_id = i, req_agent = agent, req_model = model, req_priority = prio,
               req_deadline = deadline, submitted_tick = now\<rparr>
      in (i, g\<lparr>gpu_queue := heap_push request_le r (gpu_queue g), next_request_id := i + 1\<rparr>))"

definition gpu_dequeue :: "GpuScheduler \<Rightarrow> InferenceRequest option \<times> GpuScheduler" where
  "gpu_dequeue g =
     (case heap_pop request_le (gpu_queue g) of
        None \<Rightarrow> (None, g)
      | Some (r, h) \<Rightarrow> (Some r, g\<lparr>gpu_queue := h, gpu_current := Some r\<rparr>))"

definition complete_current :: "GpuScheduler \<Rightarrow> GpuScheduler option" where
  "complete_current g =
     (case gpu_current g of
        None \<Rightarrow> Some g
      | Some _ \<Rightarrow> do { n \<leftarrow> checked_add (total_completed g) 1; Some (g\<lparr>gpu_current := None, total_completed := n\<rparr>) })"

definition fail_current :: "GpuScheduler \<Rightarrow> GpuScheduler option" where
  "fail_current g =
     (case gpu_current g of
        None \<Rightarrow> Some g
      | Some _ \<Rightarrow> do { n \<leftarrow> checked_add (total_failed g) 1; Some (g\<lparr>gpu_current := None, total_failed := n\<rparr>) })"

definition not_expired :: "u64 \<Rightarrow> InferenceRequest \<Rightarrow> bool" where
  "not_expired now r = (case req_deadline r of Some d \<Rightarrow> \<not> d < now | None \<Rightarrow> True)"

definition expire_deadlines :: "u64 \<Rightarrow> GpuScheduler \<Rightarrow> (nat \<times> GpuScheduler) option" where
  "expire_deadlines now g = do {
     let expired = length (filter (\<lambda>r. \<not> not_expired now r) (gpu_queue g));
     let h = heap_retain request_le (not_expired now) (gpu_queue g);
     n \<leftarrow> checked_add (total_failed g) (of_nat expired);
     Some (expired, g\<lparr>gpu_queue := h, total_failed := n\<rparr>)
   }"

definition queue_length :: "GpuScheduler \<Rightarrow> nat" where
  "queue_length g = length (gpu_queue g)"

definition gpu_stats :: "GpuScheduler \<Rightarrow> u64 \<times> u64 \<times> nat" where
  "gpu_stats g = (total_completed g, total_failed g, length (gpu_queue g))"

section \<open>Histories\<close>

text \<open>The states of the scheduler, with the number of requests submitted and the number that a \<open>dequeue\<close>
  replaced while they were still running.\<close>

inductive gpu_history :: "nat \<Rightarrow> nat \<Rightarrow> GpuScheduler \<Rightarrow> bool" where
  start: "gpu_history 0 0 gpu_new"
| submit: "gpu_history n d g \<Longrightarrow> length (gpu_queue g) < 2 ^ 63 \<Longrightarrow>
    gpu_history (Suc n) d (snd (gpu_submit agent model prio deadline now g))"
| dequeue: "gpu_history n d g \<Longrightarrow> gpu_dequeue g = (Some r, g') \<Longrightarrow>
    gpu_history n (if gpu_current g = None then d else Suc d) g'"
| complete: "gpu_history n d g \<Longrightarrow> complete_current g = Some g' \<Longrightarrow> gpu_history n d g'"
| failed: "gpu_history n d g \<Longrightarrow> fail_current g = Some g' \<Longrightarrow> gpu_history n d g'"
| expire: "gpu_history n d g \<Longrightarrow> expire_deadlines now g = Some (k, g') \<Longrightarrow> gpu_history n d g'"

definition gpu_accounted :: "nat \<Rightarrow> nat \<Rightarrow> GpuScheduler \<Rightarrow> bool" where
  "gpu_accounted n d g \<longleftrightarrow> n = unat (total_completed g) + unat (total_failed g) + length (gpu_queue g)
     + (case gpu_current g of None \<Rightarrow> 0 | Some _ \<Rightarrow> 1) + d"

lemma length_heap_push: "length (heap_push le x h) = Suc (length h)"
  by (metis mset_heap_push size_add_mset size_mset)

lemma length_heap_retain: "length (heap_retain le P h) = length (filter P h)"
  by (metis mset_filter mset_heap_retain size_mset)

lemma gpu_history_inv:
  "gpu_history n d g \<Longrightarrow> is_heap request_le (gpu_queue g) \<and> gpu_accounted n d g \<and> length (gpu_queue g) < 2 ^ 64"
proof (induction rule: gpu_history.induct)
  case start
  then show ?case by (simp add: gpu_new_def is_heap_def gpu_accounted_def)
next
  case (submit n d g agent model prio deadline now)
  then show ?case by (auto simp: gpu_submit_def Let_def rq.heap_push_heap gpu_accounted_def length_heap_push)
next
  case (dequeue n d g r g')
  then obtain h where pop: "heap_pop request_le (gpu_queue g) = Some (r, h)" "g' = g\<lparr>gpu_queue := h, gpu_current := Some r\<rparr>"
    by (auto simp: gpu_dequeue_def split: option.splits)
  with dequeue rq.heap_pop_heap(1) [of "gpu_queue g" r h] heap_pop_length [OF pop(1)] show ?case
    by (auto simp: gpu_accounted_def split: option.splits)
next
  case (complete n d g g')
  then show ?case
    by (auto simp: complete_current_def gpu_accounted_def dest!: checked_add_unat split: option.splits bind_splits)
next
  case (failed n d g g')
  then show ?case
    by (auto simp: fail_current_def gpu_accounted_def dest!: checked_add_unat split: option.splits bind_splits)
next
  case (expire n d g now k g')
  let ?gone = "filter (\<lambda>r. \<not> not_expired now r) (gpu_queue g)"
  from expire(2) have g': "g' = g\<lparr>gpu_queue := heap_retain request_le (not_expired now) (gpu_queue g), total_failed := total_failed g'\<rparr>"
    "unat (total_failed g') = unat (total_failed g) + unat (of_nat (length ?gone) :: u64)"
    by (auto simp: expire_deadlines_def Let_def dest!: checked_add_unat split: bind_splits)
  have len: "length (filter (not_expired now) (gpu_queue g)) + length ?gone = length (gpu_queue g)"
    by (rule sum_length_filter_compl)
  then have "unat (of_nat (length ?gone) :: u64) = length ?gone"
    using expire.IH by (intro unat_of_nat_small) simp
  with expire.IH len g'(2) show ?case
    by (subst g'(1), subst (2) g'(1), subst (2) g'(1)) (auto simp: rq.heap_retain_heap gpu_accounted_def length_heap_retain split: option.splits)
qed

section \<open>Properties\<close>

text \<open>The scheduler serves the best request: in every state it reaches, \<open>dequeue\<close> returns a request that
  no queued request precedes by priority, then deadline, then submission time.\<close>

theorem dequeue_best:
  assumes "gpu_history n d g" "gpu_dequeue g = (Some r, g')"
  shows "\<forall>x\<in>set (gpu_queue g). serves_before r x"
proof -
  from assms(2) obtain h where "heap_pop request_le (gpu_queue g) = Some (r, h)"
    by (auto simp: gpu_dequeue_def split: option.splits)
  from rq.heap_pop_heap(2) [OF _ this] gpu_history_inv [OF assms(1)] show ?thesis by (simp add: request_le_iff)
qed

text \<open>C34. Every submitted request is accounted for: it is completed, failed, queued or running, unless a
  \<open>dequeue\<close> replaced it while it was running; such a request disappears from all counters.\<close>

theorem gpu_conservation:
  assumes "gpu_history n d g"
  shows "n = unat (total_completed g) + unat (total_failed g) + queue_length g
    + (case gpu_current g of None \<Rightarrow> 0 | Some _ \<Rightarrow> 1) + d"
  using gpu_history_inv [OF assms] by (simp add: gpu_accounted_def queue_length_def)

definition demo_gpu :: GpuScheduler where
  "demo_gpu = snd (gpu_submit 7 ''m'' Urgent None 5 (snd (gpu_submit 7 ''m'' Batch None 4 gpu_new)))"

lemma demo_gpu_history: "gpu_history 2 0 demo_gpu"
proof -
  have "gpu_history (Suc (Suc 0)) 0 demo_gpu" unfolding demo_gpu_def
    by (intro gpu_history.intros) (simp_all add: gpu_new_def gpu_submit_def Let_def length_heap_push)
  then show ?thesis by (simp add: numeral_2_eq_2)
qed

theorem gpu_conservation_witness:
  "2 = unat (total_completed demo_gpu) + unat (total_failed demo_gpu) + queue_length demo_gpu
    + (case gpu_current demo_gpu of None \<Rightarrow> 0 | Some _ \<Rightarrow> 1) + 0"
  by (rule gpu_conservation [OF demo_gpu_history])

theorem dequeue_best_witness:
  "\<exists>r g'. gpu_dequeue demo_gpu = (Some r, g') \<and> req_priority r = Urgent"
proof -
  define u where "u = \<lparr>req_id = 2, req_agent = 7, req_model = ''m'', req_priority = Urgent,
    req_deadline = None, submitted_tick = 5\<rparr>"
  have "u \<in># mset (gpu_queue demo_gpu)"
    by (simp add: demo_gpu_def gpu_submit_def Let_def gpu_new_def mset_heap_push u_def)
  then have u: "u \<in> set (gpu_queue demo_gpu)" by simp
  then have "gpu_queue demo_gpu \<noteq> []" by auto
  then obtain r g' where r: "gpu_dequeue demo_gpu = (Some r, g')"
    by (cases "heap_pop request_le (gpu_queue demo_gpu)") (auto simp: gpu_dequeue_def)
  have "serves_before r u" using dequeue_best [OF demo_gpu_history r] u by (rule bspec)
  then have "req_priority r = Urgent" by (cases "req_priority r") (simp_all add: serves_before_def u_def)
  with r show ?thesis by blast
qed

end
