(* ===== verification/Ipc_Types.thy ===== *)
theory Ipc_Types
  imports Btree_Map "HOL-Library.List_Lexorder" "HOL-Library.Char_ord"
begin

text \<open>
  The data of \<^verbatim>\<open>ipc/\<close>: messages and mailboxes, channels, pending requests and shared regions, with the
  operations of the mailbox.  The operations on the kernel's tables are in the kernel theories.
\<close>

datatype MessageType = Data | Request | Reply | CapTransfer | Signal

datatype IpcError = RecipientNotFound | MailboxFull | NoMessage | Timeout | CapabilityDenied | InvalidCapTransfer

record Message =
  msg_id :: u64
  sender :: u64
  recipient :: u64
  msg_type :: MessageType
  payload :: "u8 list"
  cap_transfer :: "u64 option"
  reply_to :: "u64 option"

section \<open>Mailboxes\<close>

type_synonym Mailbox = "Message list"

definition MAILBOX_CAPACITY :: nat where
  "MAILBOX_CAPACITY = 256"

definition mailbox_new :: Mailbox where
  "mailbox_new = []"

definition mailbox_push :: "Message \<Rightarrow> Mailbox \<Rightarrow> (IpcError + unit) \<times> Mailbox" where
  "mailbox_push msg q = (if MAILBOX_CAPACITY \<le> length q then (Inl MailboxFull, q) else (Inr (), q @ [msg]))"

definition mailbox_pop :: "Mailbox \<Rightarrow> Message option \<times> Mailbox" where
  "mailbox_pop q = (case q of [] \<Rightarrow> (None, []) | msg # rest \<Rightarrow> (Some msg, rest))"

lemma mailbox_push_bound: "length q \<le> MAILBOX_CAPACITY \<Longrightarrow> length (snd (mailbox_push msg q)) \<le> MAILBOX_CAPACITY"
  by (auto simp: mailbox_push_def)

section \<open>Channels, requests and regions\<close>

record Channel =
  channel_id :: u64
  channel_name :: string
  subscribers :: "(u64 \<times> u64) list"

record PendingRequest =
  requester :: u64
  request_deadline :: u64

record SharedRegion =
  region_id :: u64
  phys_base :: u64
  region_size :: u64
  region_owner :: u64
  grants :: "u64 list"

end
