(* ===== verification/Agent_Registry.thy ===== *)
theory Agent_Registry
  imports Btree_Map "HOL-Library.List_Lexorder" "HOL-Library.Char_ord"
begin

text \<open>
  \<^verbatim>\<open>agent/mod.rs\<close>, \<^verbatim>\<open>agent/registry.rs\<close> and the parts of \<^verbatim>\<open>agent/lifecycle.rs\<close> and \<^verbatim>\<open>agent/supervisor.rs\<close> that
  only touch the registry: the agents, their tree, killing a subtree, and the supervisor's reaction to
  the death of a child.
\<close>

datatype AgentState = Initializing | Running | Waiting | Suspended | Dead

fun state_index :: "AgentState \<Rightarrow> nat" where
  "state_index Initializing = 0"
| "state_index Running = 1"
| "state_index Waiting = 2"
| "state_index Suspended = 3"
| "state_index Dead = 4"

datatype RestartPolicy = RestartOne | RestartAll | Escalate | Permanent

datatype ModelBinding = Local string | Remote string u64 | Auto "string list"

record ResourceLimits =
  max_memory_bytes :: u64
  max_children :: nat

definition limits_default :: ResourceLimits where
  "limits_default = \<lparr>max_memory_bytes = 16 * 1024 * 1024, max_children = 32\<rparr>"

record AgentConfig =
  agent_name :: string
  system_prompt :: "string option"
  model :: ModelBinding
  tools :: "string list"
  config_caps :: "u64 list"
  restart_policy :: RestartPolicy
  resource_limits :: ResourceLimits

record Agent =
  agent_id :: u64
  config :: AgentConfig
  agent_state :: AgentState
  parent :: "u64 option"
  children :: "u64 list"
  restart_count :: u32
  max_restarts :: u32

record AgentRegistry =
  agents :: "(u64, Agent) btree"
  name_index :: "(string, u64) btree"

section \<open>The registry\<close>

definition reg_new :: AgentRegistry where
  "reg_new = \<lparr>agents = [], name_index = []\<rparr>"

definition register :: "Agent \<Rightarrow> AgentRegistry \<Rightarrow> AgentRegistry" where
  "register a r = \<lparr>agents = bt_insert (agent_id a) a (agents r),
     name_index = bt_insert (agent_name (config a)) (agent_id a) (name_index r)\<rparr>"

definition unregister :: "u64 \<Rightarrow> AgentRegistry \<Rightarrow> Agent option \<times> AgentRegistry" where
  "unregister i r =
     (case bt_get (agents r) i of
        Some a \<Rightarrow> (Some a, \<lparr>agents = bt_remove i (agents r), name_index = bt_remove (agent_name (config a)) (name_index r)\<rparr>)
      | None \<Rightarrow> (None, r))"

definition reg_get :: "AgentRegistry \<Rightarrow> u64 \<Rightarrow> Agent option" where
  "reg_get r i = bt_get (agents r) i"

text \<open>\<open>get_mut\<close> followed by an assignment; nothing happens when the agent is not registered.\<close>

definition reg_modify :: "u64 \<Rightarrow> (Agent \<Rightarrow> Agent) \<Rightarrow> AgentRegistry \<Rightarrow> AgentRegistry" where
  "reg_modify i f r = r\<lparr>agents := bt_modify i f (agents r)\<rparr>"

definition find_by_name :: "AgentRegistry \<Rightarrow> string \<Rightarrow> u64 option" where
  "find_by_name r name = bt_get (name_index r) name"

definition reg_count :: "AgentRegistry \<Rightarrow> nat" where
  "reg_count r = length (agents r)"

definition all_ids :: "AgentRegistry \<Rightarrow> u64 list" where
  "all_ids r = bt_keys (agents r)"

section \<open>Lifecycle and supervision\<close>

definition suspend :: "u64 \<Rightarrow> AgentRegistry \<Rightarrow> (string + unit) \<times> AgentRegistry" where
  "suspend i r = (case reg_get r i of
     None \<Rightarrow> (Inl ''agent not found'', r)
   | Some _ \<Rightarrow> (Inr (), reg_modify i (\<lambda>a. a\<lparr>agent_state := Suspended\<rparr>) r))"

definition resume :: "u64 \<Rightarrow> AgentRegistry \<Rightarrow> (string + unit) \<times> AgentRegistry" where
  "resume i r = (case reg_get r i of
     None \<Rightarrow> (Inl ''agent not found'', r)
   | Some _ \<Rightarrow> (Inr (), reg_modify i (\<lambda>a. a\<lparr>agent_state := Running\<rparr>) r))"

text \<open>\<open>increment_restart_count\<close>; \<open>None\<close> is the panic of an overflowing counter.\<close>

definition increment_restart_count :: "u64 \<Rightarrow> AgentRegistry \<Rightarrow> AgentRegistry option" where
  "increment_restart_count i r = (case reg_get r i of
     None \<Rightarrow> Some r
   | Some a \<Rightarrow> do {
       n \<leftarrow> checked_add (restart_count a) 1;
       Some (reg_modify i (\<lambda>a. a\<lparr>restart_count := n\<rparr>) r)
     })"

text \<open>
  \<open>kill\<close>, the loop over the children inside it, \<open>notify_child_death\<close> and \<open>escalate\<close> call each other without
  a visible bound, on a kernel stack of 16 KiB.  The fuel is the depth of calls: \<open>None\<close> means that it did
  not suffice.
\<close>

fun kill :: "nat \<Rightarrow> u64 \<Rightarrow> AgentRegistry \<Rightarrow> ((string + unit) \<times> AgentRegistry) option"
  and kill_all :: "nat \<Rightarrow> u64 list \<Rightarrow> AgentRegistry \<Rightarrow> AgentRegistry option"
  and notify_child_death :: "nat \<Rightarrow> u64 \<Rightarrow> u64 \<Rightarrow> AgentRegistry \<Rightarrow> AgentRegistry option"
  and escalate :: "nat \<Rightarrow> u64 \<Rightarrow> AgentRegistry \<Rightarrow> AgentRegistry option" where
  "kill 0 i r = None"
| "kill (Suc n) i r = (case reg_get r i of
     None \<Rightarrow> Some (Inl ''agent not found'', r)
   | Some a \<Rightarrow> do {
       let r = reg_modify i (\<lambda>a. a\<lparr>agent_state := Dead\<rparr>) r;
       r \<leftarrow> kill_all n (children a) r;
       let r = (case parent a of
          Some p \<Rightarrow> reg_modify p (\<lambda>b. b\<lparr>children := filter (\<lambda>j. j \<noteq> i) (children b)\<rparr>) r
        | None \<Rightarrow> r);
       let r = snd (unregister i r);
       r \<leftarrow> (case parent a of Some p \<Rightarrow> notify_child_death n p i r | None \<Rightarrow> Some r);
       Some (Inr (), r)
     })"
| "kill_all 0 cs r = None"
| "kill_all (Suc n) [] r = Some r"
| "kill_all (Suc n) (c # cs) r = do { (_, r) \<leftarrow> kill n c r; kill_all n cs r }"
| "notify_child_death 0 p i r = None"
| "notify_child_death (Suc n) p i r = (case reg_get r p of
     None \<Rightarrow> Some r
   | Some a \<Rightarrow>
       if max_restarts a \<le> restart_count a then escalate n p r
       else (case restart_policy (config a) of
               RestartOne \<Rightarrow> increment_restart_count p r
             | RestartAll \<Rightarrow> increment_restart_count p r
             | Escalate \<Rightarrow> escalate n p r
             | Permanent \<Rightarrow> Some r))"
| "escalate 0 i r = None"
| "escalate (Suc n) i r = do {
     let g = (case reg_get r i of Some a \<Rightarrow> parent a | None \<Rightarrow> None);
     (_, r) \<leftarrow> kill n i r;
     case g of Some p \<Rightarrow> notify_child_death n p i r | None \<Rightarrow> Some r
   }"

end
