(* ===== verification/Agent_Tree.thy ===== *)
theory Agent_Tree
  imports Agent_Registry
begin

text \<open>
  What killing an agent does to the tree of agents: the calls end, the whole subtree is gone
  afterwards, survivors keep their place, and other trees are not touched.
\<close>

section \<open>What the death of an agent changes\<close>

lemma reg_get_modify [simp]: "reg_get (reg_modify i f r) j = (if j = i then map_option f (reg_get r i) else reg_get r j)"
  by (simp add: reg_get_def reg_modify_def)

lemma reg_get_unregister [simp]: "reg_get (snd (unregister i r)) j = (if j = i then None else reg_get r j)"
  by (auto simp: reg_get_def unregister_def split: option.splits)

text \<open>The number of registered agents.\<close>

definition population :: "AgentRegistry \<Rightarrow> nat" where
  "population r = card (dom (reg_get r))"

lemma finite_dom_reg: "finite (dom (reg_get r))"
  by (simp add: reg_get_def [abs_def] dom_bt_get)

text \<open>
  The relation between the registry before and after: agents only disappear; a survivor keeps its
  place in the tree and loses only dead children; and an agent that disappeared took all its
  children with it.
\<close>

definition survives :: "AgentRegistry \<Rightarrow> Agent \<Rightarrow> Agent \<Rightarrow> bool" where
  "survives r' x y \<longleftrightarrow> agent_id y = agent_id x \<and> config y = config x \<and> parent y = parent x \<and> max_restarts y = max_restarts x
     \<and> restart_count x \<le> restart_count y \<and> set (children y) \<subseteq> set (children x)
     \<and> (\<forall>c \<in> set (children x) - set (children y). reg_get r' c = None)"

definition shrinks :: "AgentRegistry \<Rightarrow> AgentRegistry \<Rightarrow> bool" where
  "shrinks r r' \<longleftrightarrow> (\<forall>i. case reg_get r' i of
      Some y \<Rightarrow> (\<exists>x. reg_get r i = Some x \<and> survives r' x y)
    | None \<Rightarrow> (\<forall>x. reg_get r i = Some x \<longrightarrow> (\<forall>c \<in> set (children x). reg_get r' c = None)))"

lemma shrinks_SomeD:
  assumes "shrinks r r'" "reg_get r' i = Some y" shows "\<exists>x. reg_get r i = Some x \<and> survives r' x y"
  using assms(1) [unfolded shrinks_def, THEN spec, of i] assms(2) by simp

lemma shrinks_NoneD:
  assumes "shrinks r r'" "reg_get r' i = None" "reg_get r i = Some x" "c \<in> set (children x)"
  shows "reg_get r' c = None"
  using assms(1) [unfolded shrinks_def, THEN spec, of i] assms(2-4) by simp

lemma shrinks_gone: "shrinks r r' \<Longrightarrow> reg_get r i = None \<Longrightarrow> reg_get r' i = None"
  using shrinks_SomeD by (metis not_None_eq)

lemma shrinks_dom: "shrinks r r' \<Longrightarrow> dom (reg_get r') \<subseteq> dom (reg_get r)"
  by (auto dest: shrinks_SomeD)

lemma shrinks_count: "shrinks r r' \<Longrightarrow> population r' \<le> population r"
  unfolding population_def by (rule card_mono [OF finite_dom_reg shrinks_dom])

lemma shrinks_lost:
  assumes "shrinks r r'" "reg_get r i = Some x" "reg_get r' i = None" shows "population r' < population r"
proof -
  have "dom (reg_get r') \<subset> dom (reg_get r)" using shrinks_dom [OF assms(1)] assms(2,3) by auto
  then show ?thesis unfolding population_def by (rule psubset_card_mono [OF finite_dom_reg])
qed

lemma shrinks_trans:
  assumes 1: "shrinks r r1" and 2: "shrinks r1 r2" shows "shrinks r r2"
  unfolding shrinks_def
proof
  fix i
  show "case reg_get r2 i of Some z \<Rightarrow> (\<exists>x. reg_get r i = Some x \<and> survives r2 x z)
    | None \<Rightarrow> (\<forall>x. reg_get r i = Some x \<longrightarrow> (\<forall>c \<in> set (children x). reg_get r2 c = None))"
  proof (cases "reg_get r2 i")
    case (Some z)
    from shrinks_SomeD [OF 2 Some] obtain y where y: "reg_get r1 i = Some y" "survives r2 y z" by blast
    from shrinks_SomeD [OF 1 y(1)] obtain x where x: "reg_get r i = Some x" "survives r1 x y" by blast
    have "reg_get r2 c = None" if "c \<in> set (children x) - set (children z)" for c
      using that x(2) y(2) shrinks_gone [OF 2, of c] by (cases "c \<in> set (children y)") (auto simp: survives_def)
    then have "survives r2 x z"
      using x(2) y(2) unfolding survives_def by (auto intro: order_trans)
    with x(1) Some show ?thesis by simp
  next
    case None
    have "reg_get r2 c = None" if x: "reg_get r i = Some x" "c \<in> set (children x)" for x c
    proof (cases "reg_get r1 i")
      case None
      with shrinks_NoneD [OF 1 _ x] shrinks_gone [OF 2] show ?thesis by blast
    next
      case (Some y)
      with shrinks_SomeD [OF 1 Some] x(1) have "survives r1 x y" by simp
      with x(2) shrinks_gone [OF 2] shrinks_NoneD [OF 2 None Some] show ?thesis
        by (cases "c \<in> set (children y)") (auto simp: survives_def)
    qed
    with None show ?thesis by simp
  qed
qed

lemma shrinks_modify:
  assumes "\<And>x. reg_get r i = Some x \<Longrightarrow> survives r x (f x)"
  shows "shrinks r (reg_modify i f r)"
proof -
  have gone: "reg_get (reg_modify i f r) c = None \<longleftrightarrow> reg_get r c = None" for c by auto
  have "survives (reg_modify i f r) x y" if "survives r x y" for x y
    using that unfolding survives_def gone .
  moreover have "survives r x x" for x by (simp add: survives_def)
  ultimately show ?thesis using assms
    by (auto simp: shrinks_def split: option.splits)
qed

text \<open>Detaching an agent from its parent and unregistering it, once its children are gone.\<close>

definition detach :: "u64 \<Rightarrow> u64 option \<Rightarrow> AgentRegistry \<Rightarrow> AgentRegistry" where
  "detach i p r = snd (unregister i (case p of
      Some p \<Rightarrow> reg_modify p (\<lambda>b. b\<lparr>children := filter (\<lambda>j. j \<noteq> i) (children b)\<rparr>) r
    | None \<Rightarrow> r))"

lemma reg_get_detach:
  "reg_get (detach i p r) j = (if j = i then None
     else if p = Some j then map_option (\<lambda>b. b\<lparr>children := filter (\<lambda>k. k \<noteq> i) (children b)\<rparr>) (reg_get r j)
     else reg_get r j)"
  by (auto simp: detach_def split: option.splits)

lemma shrinks_detach:
  assumes "\<And>x c. reg_get r i = Some x \<Longrightarrow> c \<in> set (children x) \<Longrightarrow> reg_get r c = None"
  shows "shrinks r (detach i p r)"
proof -
  have gone: "reg_get (detach i p r) c = None \<longleftrightarrow> c = i \<or> reg_get r c = None" for c
    by (auto simp: reg_get_detach)
  have "case reg_get (detach i p r) j of
      Some y \<Rightarrow> (\<exists>x. reg_get r j = Some x \<and> survives (detach i p r) x y)
    | None \<Rightarrow> (\<forall>x. reg_get r j = Some x \<longrightarrow> (\<forall>c \<in> set (children x). reg_get (detach i p r) c = None))" for j
  proof (cases "j = i \<or> reg_get r j = None")
    case True
    with assms show ?thesis by (auto simp: gone reg_get_detach)
  next
    case False
    then obtain x where x: "reg_get r j = Some x" "j \<noteq> i" by auto
    have "survives (detach i p r) x x" by (simp add: survives_def)
    moreover have "survives (detach i p r) x (x\<lparr>children := filter (\<lambda>k. k \<noteq> i) (children x)\<rparr>)"
      by (auto simp: survives_def reg_get_detach)
    ultimately show ?thesis using x by (auto simp: reg_get_detach)
  qed
  then show ?thesis by (simp add: shrinks_def)
qed

lemma kill_Suc:
  "kill (Suc n) i r = (case reg_get r i of
     None \<Rightarrow> Some (Inl ''agent not found'', r)
   | Some a \<Rightarrow> do {
       r \<leftarrow> kill_all n (children a) (reg_modify i (\<lambda>a. a\<lparr>agent_state := Dead\<rparr>) r);
       r \<leftarrow> (case parent a of Some p \<Rightarrow> notify_child_death n p i (detach i (parent a) r) | None \<Rightarrow> Some (detach i (parent a) r));
       Some (Inr (), r)
     })"
  unfolding kill.simps Let_def detach_def ..

lemma shrinks_dead: "shrinks r (reg_modify i (\<lambda>a. a\<lparr>agent_state := s\<rparr>) r)"
  by (rule shrinks_modify) (simp add: survives_def)

lemma increment_shrinks:
  assumes "increment_restart_count i r = Some r'" shows "shrinks r r'"
proof (cases "reg_get r i")
  case None
  then show ?thesis using assms shrinks_dead [of r i] by (auto simp: increment_restart_count_def shrinks_def survives_def split: option.splits)
next
  case (Some a)
  with assms obtain n where n: "checked_add (restart_count a) 1 = Some n" "r' = reg_modify i (\<lambda>a. a\<lparr>restart_count := n\<rparr>) r"
    by (auto simp: increment_restart_count_def split: bind_splits)
  then have "restart_count a \<le> n" using checked_add_unat [OF n(1)] by (simp add: word_le_nat_alt)
  with n(2) Some show ?thesis by (auto intro!: shrinks_modify simp: survives_def)
qed

lemma shrinks_self: "shrinks r r"
  by (auto simp: shrinks_def survives_def split: option.splits)

lemma kill_shrinks_all:
  "(\<forall>i r x r'. kill n i r = Some (x, r') \<longrightarrow> shrinks r r' \<and> reg_get r' i = None)
   \<and> (\<forall>cs r r'. kill_all n cs r = Some r' \<longrightarrow> shrinks r r' \<and> (\<forall>c\<in>set cs. reg_get r' c = None))
   \<and> (\<forall>p i r r'. notify_child_death n p i r = Some r' \<longrightarrow> shrinks r r')
   \<and> (\<forall>i r r'. escalate n i r = Some r' \<longrightarrow> shrinks r r')"
proof (induction n)
  case (Suc n)
  then have kill: "\<And>i r x r'. kill n i r = Some (x, r') \<Longrightarrow> shrinks r r' \<and> reg_get r' i = None"
    and kills: "\<And>cs r r'. kill_all n cs r = Some r' \<Longrightarrow> shrinks r r' \<and> (\<forall>c\<in>set cs. reg_get r' c = None)"
    and notify: "\<And>p i r r'. notify_child_death n p i r = Some r' \<Longrightarrow> shrinks r r'"
    and esc: "\<And>i r r'. escalate n i r = Some r' \<Longrightarrow> shrinks r r'" by blast+
  have "shrinks r r' \<and> reg_get r' i = None" if k: "kill (Suc n) i r = Some (x, r')" for i r x r'
  proof (cases "reg_get r i")
    case None
    with k show ?thesis by (simp add: shrinks_self)
  next
    case (Some a)
    let ?r = "reg_modify i (\<lambda>a. a\<lparr>agent_state := Dead\<rparr>) r"
    from k Some obtain r2 where r2: "kill_all n (children a) ?r = Some r2"
      and r': "(case parent a of Some p \<Rightarrow> notify_child_death n p i (detach i (parent a) r2) | None \<Rightarrow> Some (detach i (parent a) r2)) = Some r'"
      by (auto simp: kill_Suc simp del: kill.simps split: bind_splits)
    have 2: "shrinks r r2" by (rule shrinks_trans [OF shrinks_dead]) (use kills [OF r2] in blast)
    have 3: "shrinks r2 (detach i (parent a) r2)"
    proof (rule shrinks_detach)
      fix x c assume x: "reg_get r2 i = Some x" "c \<in> set (children x)"
      with shrinks_SomeD [OF 2 x(1)] Some have "c \<in> set (children a)" by (auto simp: survives_def)
      then show "reg_get r2 c = None" using kills [OF r2] by blast
    qed
    have 4: "shrinks (detach i (parent a) r2) r'"
      using r' notify shrinks_self by (cases "parent a") auto
    have "reg_get r' i = None" by (rule shrinks_gone [OF 4]) (simp add: reg_get_detach)
    with shrinks_trans [OF 2 shrinks_trans [OF 3 4]] show ?thesis by simp
  qed
  moreover have "shrinks r r' \<and> (\<forall>c\<in>set cs. reg_get r' c = None)" if k: "kill_all (Suc n) cs r = Some r'" for cs r r'
  proof (cases cs)
    case Nil
    with k show ?thesis by (simp add: shrinks_self)
  next
    case (Cons c cs')
    with k obtain x r1 where 1: "kill n c r = Some (x, r1)" "kill_all n cs' r1 = Some r'"
      by (auto split: bind_splits)
    from kill [OF 1(1)] kills [OF 1(2)] have "shrinks r r1" "shrinks r1 r'" "reg_get r1 c = None"
      "\<forall>c\<in>set cs'. reg_get r' c = None" by blast+
    with shrinks_trans [of r r1 r'] shrinks_gone [of r1 r' c] Cons show ?thesis by simp
  qed
  moreover have "shrinks r r'" if "notify_child_death (Suc n) p i r = Some r'" for p i r r'
  proof (cases "reg_get r p")
    case (Some a)
    with that esc [of p r r'] increment_shrinks [of p r r'] shrinks_self [of r] show ?thesis
      by (cases "restart_policy (config a)") (simp_all split: if_splits)
  qed (use that shrinks_self in simp)
  moreover have "shrinks r r'" if k: "escalate (Suc n) i r = Some r'" for i r r'
  proof -
    from k obtain x r1 where 1: "kill n i r = Some (x, r1)"
      and "(case (case reg_get r i of Some a \<Rightarrow> parent a | None \<Rightarrow> None) of
             Some p \<Rightarrow> notify_child_death n p i r1 | None \<Rightarrow> Some r1) = Some r'"
      by (auto simp: Let_def split: bind_splits)
    then have "shrinks r1 r'" using notify shrinks_self by (auto split: option.splits)
    with kill [OF 1] show ?thesis using shrinks_trans by blast
  qed
  ultimately show ?case by blast
qed simp

lemma kill_shrinks: "kill n i r = Some (x, r') \<Longrightarrow> shrinks r r' \<and> reg_get r' i = None"
  using kill_shrinks_all by blast

section \<open>The calls end\<close>

lemma fuel_Suc:
  "(\<forall>i r x. kill n i r = Some x \<longrightarrow> kill (Suc n) i r = Some x)
   \<and> (\<forall>cs r x. kill_all n cs r = Some x \<longrightarrow> kill_all (Suc n) cs r = Some x)
   \<and> (\<forall>p i r x. notify_child_death n p i r = Some x \<longrightarrow> notify_child_death (Suc n) p i r = Some x)
   \<and> (\<forall>i r x. escalate n i r = Some x \<longrightarrow> escalate (Suc n) i r = Some x)"
proof (induction n)
  case (Suc n)
  then have kill: "\<And>i r x. kill n i r = Some x \<Longrightarrow> kill (Suc n) i r = Some x"
    and kills: "\<And>cs r x. kill_all n cs r = Some x \<Longrightarrow> kill_all (Suc n) cs r = Some x"
    and notify: "\<And>p i r x. notify_child_death n p i r = Some x \<Longrightarrow> notify_child_death (Suc n) p i r = Some x"
    and esc: "\<And>i r x. escalate n i r = Some x \<Longrightarrow> escalate (Suc n) i r = Some x" by blast+
  have "kill (Suc (Suc n)) i r = Some x" if k: "kill (Suc n) i r = Some x" for i r x
  proof (cases "reg_get r i")
    case (Some a)
    from k Some obtain r2 r' where "kill_all n (children a) (reg_modify i (\<lambda>a. a\<lparr>agent_state := Dead\<rparr>) r) = Some r2"
      "(case parent a of Some p \<Rightarrow> notify_child_death n p i (detach i (parent a) r2) | None \<Rightarrow> Some (detach i (parent a) r2)) = Some r'"
      "x = (Inr (), r')"
      by (auto simp: kill_Suc simp del: kill.simps split: bind_splits)
    with Some kills notify show ?thesis by (cases "parent a") (simp_all add: kill_Suc del: kill.simps)
  qed (use k in simp)
  moreover have "kill_all (Suc (Suc n)) cs r = Some x" if k: "kill_all (Suc n) cs r = Some x" for cs r x
  proof (cases cs)
    case (Cons c cs')
    with k obtain y r1 where "kill n c r = Some (y, r1)" "kill_all n cs' r1 = Some x" by (auto split: bind_splits)
    from kill [OF this(1)] kills [OF this(2)] Cons show ?thesis by (simp del: kill.simps)
  qed (use k in simp)
  moreover have "notify_child_death (Suc (Suc n)) p i r = Some x" if k: "notify_child_death (Suc n) p i r = Some x" for p i r x
  proof (cases "reg_get r p")
    case (Some a)
    with k esc [of p r x] show ?thesis
      by (cases "restart_policy (config a)") (simp_all del: escalate.simps split: if_splits)
  qed (use k in simp)
  moreover have "escalate (Suc (Suc n)) i r = Some x" if k: "escalate (Suc n) i r = Some x" for i r x
  proof -
    let ?g = "case reg_get r i of Some a \<Rightarrow> parent a | None \<Rightarrow> None"
    from k obtain y r1 where 1: "kill n i r = Some (y, r1)"
      "(case ?g of Some p \<Rightarrow> notify_child_death n p i r1 | None \<Rightarrow> Some r1) = Some x"
      by (auto simp: Let_def split: bind_splits)
    from kill [OF 1(1)] 1(2) notify show ?thesis
      by (cases ?g) (simp_all add: Let_def del: kill.simps notify_child_death.simps)
  qed
  ultimately show ?case by blast
qed simp

lemma mono_from_Suc:
  fixes f :: "nat \<Rightarrow> 'a option"
  assumes "\<And>n. f n = Some x \<Longrightarrow> f (Suc n) = Some x" "n \<le> m" "f n = Some x"
  shows "f m = Some x"
  using assms(2) by (induction rule: dec_induct) (use assms in auto)

lemma fuel_mono:
  assumes "n \<le> m"
  shows "kill n i r = Some x \<Longrightarrow> kill m i r = Some x" "kill_all n cs r = Some y \<Longrightarrow> kill_all m cs r = Some y"
    "notify_child_death n p i r = Some y \<Longrightarrow> notify_child_death m p i r = Some y"
    "escalate n i r = Some y \<Longrightarrow> escalate m i r = Some y"
  by (rule mono_from_Suc [of "\<lambda>n. kill n i r", OF _ assms], use fuel_Suc in blast, assumption)
    (rule mono_from_Suc [of "\<lambda>n. kill_all n cs r", OF _ assms], use fuel_Suc in blast, assumption,
     rule mono_from_Suc [of "\<lambda>n. notify_child_death n p i r", OF _ assms], use fuel_Suc in blast, assumption,
     rule mono_from_Suc [of "\<lambda>n. escalate n i r", OF _ assms], use fuel_Suc in blast, assumption)

text \<open>The agents form a forest: a rank that falls from an agent to its children.\<close>

definition ranked :: "(u64 \<Rightarrow> nat) \<Rightarrow> AgentRegistry \<Rightarrow> bool" where
  "ranked rank r \<longleftrightarrow> (\<forall>i x. reg_get r i = Some x \<longrightarrow> (\<forall>c \<in> set (children x). rank c < rank i))"

lemma ranked_shrinks:
  assumes "ranked rank r" "shrinks r r'" shows "ranked rank r'"
  unfolding ranked_def
proof (intro allI impI ballI)
  fix i y c assume y: "reg_get r' i = Some y" "c \<in> set (children y)"
  from shrinks_SomeD [OF assms(2) y(1)] obtain x where "reg_get r i = Some x" "survives r' x y" by blast
  with assms(1) y(2) show "rank c < rank i" by (auto simp: ranked_def survives_def)
qed

lemma increment_total:
  assumes "reg_get r p = Some a" "\<not> max_restarts a \<le> restart_count a"
  shows "\<exists>r'. increment_restart_count p r = Some r'"
proof -
  have "restart_count a \<noteq> - 1" using assms(2) by auto
  then have "checked_add (restart_count a) 1 = Some (restart_count a + 1)" by (simp add: checked_add_1_Some_iff)
  with assms(1) show ?thesis by (simp add: increment_restart_count_def)
qed

text \<open>Every call ends: a call that goes back up the tree does so after one more agent is gone, and a call
  that goes down reaches a smaller rank.\<close>

definition calls_end :: "AgentRegistry \<Rightarrow> bool" where
  "calls_end r \<longleftrightarrow> (\<forall>i. \<exists>n x. kill n i r = Some x) \<and> (\<forall>p i. \<exists>n x. notify_child_death n p i r = Some x)"

lemma kill_all_ends:
  assumes "ranked rank r" "population r \<le> N" "\<forall>c\<in>set cs. rank c < k"
    and kills: "\<And>c r'. ranked rank r' \<Longrightarrow> population r' \<le> N \<Longrightarrow> rank c < k \<Longrightarrow> \<exists>n x. kill n c r' = Some x"
  shows "\<exists>n r'. kill_all n cs r = Some r'"
  using assms(1-3)
proof (induction cs arbitrary: r)
  case Nil
  show ?case by (rule exI [of _ 1]) simp
next
  case (Cons c cs)
  then obtain n x r1 where 1: "kill n c r = Some (x, r1)" using kills [of r c] by auto
  have "ranked rank r1" "population r1 \<le> N"
    using kill_shrinks [OF 1] ranked_shrinks shrinks_count Cons.prems by (blast, force)
  with Cons.IH [of r1] Cons.prems(3) obtain m r' where 2: "kill_all m cs r1 = Some r'" by auto
  have "kill_all (Suc (max n m)) (c # cs) r = Some r'"
    using fuel_mono(1) [OF _ 1, of "max n m"] fuel_mono(2) [OF _ 2, of "max n m"] by simp
  then show ?case by blast
qed

lemma kill_ends:
  assumes ranked: "ranked rank r" and N: "population r \<le> N"
    and less: "\<And>r'. ranked rank r' \<Longrightarrow> population r' < N \<Longrightarrow> calls_end r'"
  shows "\<exists>n x. kill n i r = Some x"
  using ranked N
proof (induction "rank i" arbitrary: i r rule: less_induct)
  case less1: (less i r)
  show ?case
  proof (cases "reg_get r i")
    case None
    show ?thesis by (rule exI [of _ 1]) (simp add: None)
  next
    case (Some a)
    let ?r = "reg_modify i (\<lambda>a. a\<lparr>agent_state := Dead\<rparr>) r"
    have r: "ranked rank ?r" by (rule ranked_shrinks [OF less1.prems(1) shrinks_dead])
    have N: "population ?r \<le> N" using shrinks_count [OF shrinks_dead] less1.prems(2) by (rule order_trans)
    have "\<forall>c\<in>set (children a). rank c < rank i" using less1.prems(1) Some by (auto simp: ranked_def)
    from kill_all_ends [OF r N this less1.hyps] obtain n r2 where 2: "kill_all n (children a) ?r = Some r2" by blast
    let ?d = "detach i (parent a) r2"
    have sh: "shrinks ?r r2" "\<forall>c\<in>set (children a). reg_get r2 c = None" using kill_shrinks_all 2 by blast+
    have "shrinks r2 ?d"
    proof (rule shrinks_detach)
      fix x c assume x: "reg_get r2 i = Some x" "c \<in> set (children x)"
      with shrinks_SomeD [OF sh(1) x(1)] Some have "c \<in> set (children a)" by (auto simp: survives_def)
      then show "reg_get r2 c = None" using sh(2) by blast
    qed
    then have "ranked rank ?d" using ranked_shrinks [OF ranked_shrinks [OF r sh(1)]] by blast
    moreover have "population ?d < population ?r"
      by (rule shrinks_lost [OF shrinks_trans [OF sh(1) \<open>shrinks r2 ?d\<close>], of i]) (simp_all add: Some reg_get_detach)
    then have "population ?d < N" using N by simp
    ultimately have "calls_end ?d" by (rule less)
    then have "\<exists>m r'. (case parent a of Some p \<Rightarrow> notify_child_death m p i ?d | None \<Rightarrow> Some ?d) = Some r'"
      unfolding calls_end_def by (cases "parent a") simp_all
    then obtain m r' where 3: "(case parent a of Some p \<Rightarrow> notify_child_death m p i ?d | None \<Rightarrow> Some ?d) = Some r'"
      by blast
    have "kill (Suc (max n m)) i r = Some (Inr (), r')"
      using Some fuel_mono(2) [OF _ 2, of "max n m"] 3 fuel_mono(3) [of m "max n m"]
      by (cases "parent a") (simp_all add: kill_Suc del: kill.simps)
    then show ?thesis by blast
  qed
qed

lemma all_calls_end:
  assumes "ranked rank r" shows "calls_end r"
  using assms
proof (induction "population r" arbitrary: r rule: less_induct)
  case (less r)
  have kill: "\<exists>n x. kill n i r = Some x" for i
    by (rule kill_ends [OF less.prems order_refl]) (rule less.hyps)
  have esc: "\<exists>n r'. escalate n i r = Some r'" if "reg_get r i \<noteq> None" for i
  proof -
    from kill obtain n x r1 where 1: "kill n i r = Some (x, r1)" by (metis prod.exhaust)
    note sh = kill_shrinks [OF 1]
    let ?g = "case reg_get r i of Some a \<Rightarrow> parent a | None \<Rightarrow> None"
    from that sh have "population r1 < population r" using shrinks_lost by blast
    then have "calls_end r1" using sh less.hyps ranked_shrinks [OF less.prems] by blast
    then have "\<exists>m r'. (case ?g of Some p \<Rightarrow> notify_child_death m p i r1 | None \<Rightarrow> Some r1) = Some r'"
      unfolding calls_end_def by (cases ?g) simp_all
    then obtain m r' where 2: "(case ?g of Some p \<Rightarrow> notify_child_death m p i r1 | None \<Rightarrow> Some r1) = Some r'" by blast
    have "escalate (Suc (max n m)) i r = Some r'"
      using fuel_mono(1) [OF _ 1, of "max n m"] 2 fuel_mono(3) [of m "max n m"] by (cases ?g) (simp_all add: Let_def)
    then show ?thesis by blast
  qed
  have "\<exists>n r'. notify_child_death n p i r = Some r'" for p i
  proof (cases "reg_get r p")
    case None
    show ?thesis by (rule exI [of _ 1]) (simp add: None)
  next
    case (Some a)
    have "reg_get r p \<noteq> None" using Some by simp
    from esc [OF this] obtain n r' where e: "escalate n p r = Some r'" by blast
    show ?thesis
    proof (cases "max_restarts a \<le> restart_count a \<or> restart_policy (config a) = Escalate")
      case True
      then have "notify_child_death (Suc n) p i r = Some r'" using Some e by auto
      then show ?thesis by blast
    next
      case False
      with increment_total [OF Some] obtain r2 where "increment_restart_count p r = Some r2" by blast
      with False Some show ?thesis
        by (intro exI [of _ 1]) (cases "restart_policy (config a)"; simp)
    qed
  qed
  with kill show ?case unfolding calls_end_def by blast
qed

section \<open>Subtrees and other trees\<close>

inductive below :: "AgentRegistry \<Rightarrow> u64 \<Rightarrow> u64 \<Rightarrow> bool" for r where
  self: "below r i i"
| child: "below r i j \<Longrightarrow> reg_get r j = Some x \<Longrightarrow> c \<in> set (children x) \<Longrightarrow> below r i c"

lemma below_gone: "below r i d \<Longrightarrow> shrinks r r' \<Longrightarrow> reg_get r' i = None \<Longrightarrow> reg_get r' d = None"
  by (induction rule: below.induct) (auto dest: shrinks_NoneD)

text \<open>A set of agents that no parent or child link leaves, such as one tree of the forest.\<close>

definition closed_under_links :: "u64 set \<Rightarrow> AgentRegistry \<Rightarrow> bool" where
  "closed_under_links X r \<longleftrightarrow> (\<forall>i x. i \<in> X \<and> reg_get r i = Some x \<longrightarrow> set (children x) \<subseteq> X \<and> set_option (parent x) \<subseteq> X)"

definition same_outside :: "u64 set \<Rightarrow> AgentRegistry \<Rightarrow> AgentRegistry \<Rightarrow> bool" where
  "same_outside X r r' \<longleftrightarrow> (\<forall>i. i \<notin> X \<longrightarrow> reg_get r' i = reg_get r i)"

lemma closed_shrinks: "closed_under_links X r \<Longrightarrow> shrinks r r' \<Longrightarrow> closed_under_links X r'"
  unfolding closed_under_links_def using shrinks_SomeD [of r r'] by (force simp: survives_def)

lemma outside_all:
  "(\<forall>i r x r'. kill n i r = Some (x, r') \<and> closed_under_links X r \<and> i \<in> X \<longrightarrow> same_outside X r r')
   \<and> (\<forall>cs r r'. kill_all n cs r = Some r' \<and> closed_under_links X r \<and> set cs \<subseteq> X \<longrightarrow> same_outside X r r')
   \<and> (\<forall>p i r r'. notify_child_death n p i r = Some r' \<and> closed_under_links X r \<and> p \<in> X \<longrightarrow> same_outside X r r')
   \<and> (\<forall>i r r'. escalate n i r = Some r' \<and> closed_under_links X r \<and> i \<in> X \<longrightarrow> same_outside X r r')"
proof (induction n)
  case (Suc n)
  then have kill: "\<And>i r x r'. kill n i r = Some (x, r') \<Longrightarrow> closed_under_links X r \<Longrightarrow> i \<in> X \<Longrightarrow> same_outside X r r'"
    and kills: "\<And>cs r r'. kill_all n cs r = Some r' \<Longrightarrow> closed_under_links X r \<Longrightarrow> set cs \<subseteq> X \<Longrightarrow> same_outside X r r'"
    and notify: "\<And>p i r r'. notify_child_death n p i r = Some r' \<Longrightarrow> closed_under_links X r \<Longrightarrow> p \<in> X \<Longrightarrow> same_outside X r r'"
    and esc: "\<And>i r r'. escalate n i r = Some r' \<Longrightarrow> closed_under_links X r \<Longrightarrow> i \<in> X \<Longrightarrow> same_outside X r r'" by blast+
  have shk: "\<And>i r x r'. kill n i r = Some (x, r') \<Longrightarrow> shrinks r r'"
    and shks: "\<And>cs r r'. kill_all n cs r = Some r' \<Longrightarrow> shrinks r r' \<and> (\<forall>c\<in>set cs. reg_get r' c = None)"
    using kill_shrinks_all by blast+
  have trans: "same_outside X r r2" if "same_outside X r r1" "same_outside X r1 r2" for r r1 r2
    using that by (simp add: same_outside_def)
  have "same_outside X r r'" if k: "kill (Suc n) i r = Some (x, r')" and X: "closed_under_links X r" "i \<in> X" for i r x r'
  proof (cases "reg_get r i")
    case None
    with k show ?thesis by (simp add: same_outside_def)
  next
    case (Some a)
    let ?r = "reg_modify i (\<lambda>a. a\<lparr>agent_state := Dead\<rparr>) r"
    from k Some obtain r2 where r2: "kill_all n (children a) ?r = Some r2"
      and r': "(case parent a of Some p \<Rightarrow> notify_child_death n p i (detach i (parent a) r2) | None \<Rightarrow> Some (detach i (parent a) r2)) = Some r'"
      by (auto simp: kill_Suc simp del: kill.simps split: bind_splits)
    have a: "set (children a) \<subseteq> X" "set_option (parent a) \<subseteq> X" using X Some by (auto simp: closed_under_links_def)
    have 1: "same_outside X r ?r" using X(2) by (auto simp: same_outside_def)
    have c1: "closed_under_links X ?r" by (rule closed_shrinks [OF X(1) shrinks_dead])
    have 2: "same_outside X ?r r2" by (rule kills [OF r2 c1 a(1)])
    have c2: "closed_under_links X r2" using closed_shrinks [OF c1] shks [OF r2] by blast
    have 3: "same_outside X r2 (detach i (parent a) r2)"
      using X(2) a(2) by (auto simp: same_outside_def reg_get_detach)
    have c3: "closed_under_links X (detach i (parent a) r2)"
      using c2 by (fastforce simp: closed_under_links_def reg_get_detach split: if_splits)
    have "same_outside X (detach i (parent a) r2) r'"
      using r' notify [OF _ c3] a(2) by (cases "parent a") (auto simp: same_outside_def)
    with 1 2 3 trans show ?thesis by blast
  qed
  moreover have "same_outside X r r'" if k: "kill_all (Suc n) cs r = Some r'" and X: "closed_under_links X r" "set cs \<subseteq> X" for cs r r'
  proof (cases cs)
    case Nil
    with k show ?thesis by (simp add: same_outside_def)
  next
    case (Cons c cs')
    with k obtain x r1 where 1: "kill n c r = Some (x, r1)" "kill_all n cs' r1 = Some r'"
      by (auto split: bind_splits)
    have "same_outside X r r1" "closed_under_links X r1" using kill [OF 1(1)] closed_shrinks [OF X(1) shk [OF 1(1)]] X Cons by auto
    with kills [OF 1(2)] X(2) Cons trans show ?thesis by auto
  qed
  moreover have "same_outside X r r'" if k: "notify_child_death (Suc n) p i r = Some r'" and X: "closed_under_links X r" "p \<in> X" for p i r r'
  proof (cases "reg_get r p")
    case None
    with k show ?thesis by (simp add: same_outside_def)
  next
    case (Some a)
    have "same_outside X r r'" if "increment_restart_count p r = Some r'"
      using that X(2) Some by (auto simp: increment_restart_count_def same_outside_def split: bind_splits)
    moreover have "same_outside X r r" by (simp add: same_outside_def)
    ultimately show ?thesis using k Some esc [OF _ X]
      by (cases "restart_policy (config a)") (auto split: if_splits)
  qed
  moreover have "same_outside X r r'" if k: "escalate (Suc n) i r = Some r'" and X: "closed_under_links X r" "i \<in> X" for i r r'
  proof -
    let ?g = "case reg_get r i of Some a \<Rightarrow> parent a | None \<Rightarrow> None"
    from k obtain x r1 where 1: "kill n i r = Some (x, r1)"
      and 2: "(case ?g of Some p \<Rightarrow> notify_child_death n p i r1 | None \<Rightarrow> Some r1) = Some r'"
      by (auto simp: Let_def split: bind_splits)
    have "set_option ?g \<subseteq> X" using X by (auto simp: closed_under_links_def split: option.splits)
    then have "same_outside X r1 r'"
      using 2 notify [OF _ closed_shrinks [OF X(1) shk [OF 1]]] by (cases ?g) (auto simp: same_outside_def)
    with kill [OF 1 X] trans show ?thesis by blast
  qed
  ultimately show ?case by blast
qed simp

section \<open>Properties\<close>

definition demo_agent :: "u64 \<Rightarrow> string \<Rightarrow> RestartPolicy \<Rightarrow> u64 option \<Rightarrow> u64 list \<Rightarrow> Agent" where
  "demo_agent i name pol p cs = \<lparr>agent_id = i, config = \<lparr>agent_name = name, system_prompt = None, model = Auto [], tools = [],
     config_caps = [], restart_policy = pol, resource_limits = limits_default\<rparr>, agent_state = Running, parent = p,
     children = cs, restart_count = 0, max_restarts = 5\<rparr>"

text \<open>A root that restarts its children, below it an agent that escalates, and below that a worker; next to
  them another root.\<close>

definition demo_registry :: AgentRegistry where
  "demo_registry = \<lparr>agents = [(1, demo_agent 1 ''root'' RestartOne None [2]), (2, demo_agent 2 ''mid'' Escalate (Some 1) [3]),
     (3, demo_agent 3 ''worker'' RestartOne (Some 2) []), (9, demo_agent 9 ''other'' Permanent None [])],
   name_index = [(''mid'', 2), (''other'', 9), (''root'', 1), (''worker'', 3)]\<rparr>"

lemmas agent_eval = reg_get_def reg_modify_def bt_get_def bt_modify_def bt_remove_def unregister_def
  increment_restart_count_def checked_add_def demo_registry_def demo_agent_def Let_def word_le_nat_alt

lemma kill_10: "kill 10 = kill (Suc (Suc (Suc (Suc (Suc (Suc (Suc (Suc (Suc (Suc 0))))))))))"
  by (simp add: numeral_eq_Suc)

text \<open>One death below an escalating agent counts twice against the grandparent: \<open>kill\<close> notifies it, and
  then \<open>escalate\<close> notifies it again.\<close>

lemma escalation_counts_twice:
  "map_option (\<lambda>x. map_option restart_count (reg_get (snd x) 1)) (kill 10 3 demo_registry) = Some (Some 2)"
  by (simp add: kill_10 agent_eval)

lemma demo_ranked: "ranked (\<lambda>i. 10 - unat i) demo_registry"
  by (auto simp: ranked_def reg_get_def bt_get_def demo_registry_def demo_agent_def split: if_splits)

text \<open>C35. Killing an agent ends: in every registry whose child lists form a forest there is a depth of calls with
  which \<open>kill\<close> completes, and any greater depth gives the same result.\<close>

theorem kill_terminates:
  assumes "ranked rank r"
  shows "\<exists>n x. \<forall>m\<ge>n. kill m i r = Some x"
proof -
  from all_calls_end [OF assms] obtain n x where "kill n i r = Some x" unfolding calls_end_def by blast
  then show ?thesis using fuel_mono(1) by blast
qed

theorem kill_terminates_witness:
  "\<exists>n x. kill n 3 demo_registry = Some x \<and> kill (n + 100) 3 demo_registry = Some x"
  using kill_terminates [OF demo_ranked, of 3] by (metis le_add1 order_refl)


text \<open>Trees of agents are independent: killing an agent changes nothing about the agents outside the set of
  agents it is linked to, whatever escalations the death causes.\<close>

theorem kill_other_trees:
  assumes "kill n i r = Some (res, r')" "closed_under_links X r" "i \<in> X" "j \<notin> X"
  shows "reg_get r' j = reg_get r j"
  using outside_all [of n X] assms unfolding same_outside_def by blast


theorem kill_other_trees_witness:
  "\<exists>r'. kill 10 2 demo_registry = Some (Inr (), r') \<and> reg_get r' 9 = Some (demo_agent 9 ''other'' Permanent None [])"
proof -
  obtain r' where k: "kill 10 2 demo_registry = Some (Inr (), r')" by (simp add: kill_10 agent_eval)
  have "closed_under_links {1, 2, 3} demo_registry"
    by (auto simp: closed_under_links_def reg_get_def bt_get_def demo_registry_def demo_agent_def split: if_splits)
  from kill_other_trees [OF k this, of 9] k show ?thesis
    by (simp add: reg_get_def bt_get_def demo_registry_def)
qed

end
