(* ===== verification/Context_Store.thy ===== *)
theory Context_Store
  imports Oxide_Fs Rust_Text
begin

text \<open>
  \<^verbatim>\<open>storage/context_store.rs\<close>: the agents' key-value store, a cache in front of the file system.  The
  capability-gated entry points are in the kernel theories.
\<close>

record ContextStore =
  cs_cache :: "(u64, (string, u8 list) btree) btree"

definition cs_new :: ContextStore where
  "cs_new = \<lparr>cs_cache = []\<rparr>"

definition cs_prefix :: "u64 \<Rightarrow> string" where
  "cs_prefix agent = ''/agents/'' @ dec (unat agent) @ ''/''"

definition cs_path :: "u64 \<Rightarrow> string \<Rightarrow> string" where
  "cs_path agent key = ''/agents/'' @ dec (unat agent) @ ''/'' @ key"

definition cs_set :: "u64 \<Rightarrow> u64 \<Rightarrow> string \<Rightarrow> u8 list \<Rightarrow> ContextStore \<times> OxideFs \<Rightarrow> (ContextStore \<times> OxideFs) option" where
  "cs_set tick agent key v = (\<lambda>(cs, fs). do {
     let m = (case bt_get (cs_cache cs) agent of Some m \<Rightarrow> m | None \<Rightarrow> []);
     let cs = cs\<lparr>cs_cache := bt_insert agent (bt_insert key v m) (cs_cache cs)\<rparr>;
     (_, fs) \<leftarrow> write_file tick (cs_path agent key) v fs;
     Some (cs, fs)
   })"

definition cs_get :: "ContextStore \<times> OxideFs \<Rightarrow> u64 \<Rightarrow> string \<Rightarrow> u8 list option" where
  "cs_get = (\<lambda>(cs, fs) agent key.
     case (case bt_get (cs_cache cs) agent of Some m \<Rightarrow> bt_get m key | None \<Rightarrow> None) of
       Some v \<Rightarrow> Some v
     | None \<Rightarrow> read_file fs (cs_path agent key))"

definition cs_delete :: "u64 \<Rightarrow> string \<Rightarrow> ContextStore \<times> OxideFs \<Rightarrow> bool \<times> ContextStore \<times> OxideFs" where
  "cs_delete agent key = (\<lambda>(cs, fs).
     let from_cache = (case bt_get (cs_cache cs) agent of Some m \<Rightarrow> bt_get m key \<noteq> None | None \<Rightarrow> False);
         cs = cs\<lparr>cs_cache := bt_modify agent (bt_remove key) (cs_cache cs)\<rparr>;
         (from_fs, fs) = delete_file (cs_path agent key) fs
     in (from_cache \<or> from_fs, cs, fs))"

text \<open>\<open>strip_prefix\<close> with the whole path as the fallback.\<close>

definition strip_prefix_or :: "string \<Rightarrow> string \<Rightarrow> string" where
  "strip_prefix_or pre p = (if prefix pre p then drop (length pre) p else p)"

definition cs_keys :: "ContextStore \<times> OxideFs \<Rightarrow> u64 \<Rightarrow> string list" where
  "cs_keys = (\<lambda>(cs, fs) agent. map (\<lambda>e. strip_prefix_or (cs_prefix agent) (path e)) (fs_list fs (cs_prefix agent)))"

definition cs_clear_agent :: "u64 \<Rightarrow> ContextStore \<times> OxideFs \<Rightarrow> ContextStore \<times> OxideFs" where
  "cs_clear_agent agent = (\<lambda>(cs, fs).
     let cs = cs\<lparr>cs_cache := bt_remove agent (cs_cache cs)\<rparr>;
         paths = map path (fs_list fs (cs_prefix agent))
     in (cs, fold (\<lambda>p fs. snd (delete_file p fs)) paths fs))"

section \<open>Paths\<close>

lemma cs_path_prefix: "cs_path a k = cs_prefix a @ k"
  by (simp add: cs_path_def cs_prefix_def)

lemma cs_path_inject [simp]: "cs_path a k = cs_path b l \<longleftrightarrow> a = b \<and> k = l"
proof
  assume "cs_path a k = cs_path b l"
  then have "dec (unat a) @ CHR ''/'' # k = dec (unat b) @ CHR ''/'' # l" by (simp add: cs_path_def)
  from dec_slash_inj [OF this] show "a = b \<and> k = l" by simp
qed simp

lemma cs_prefix_path: "prefix (cs_prefix a) (cs_path b k) \<longleftrightarrow> a = b"
proof
  assume "prefix (cs_prefix a) (cs_path b k)"
  then obtain x where "cs_path b k = cs_path a x" by (auto simp: prefix_def cs_path_prefix [of a])
  then show "a = b" by simp
qed (simp add: cs_path_prefix)

section \<open>Invariant and refinement\<close>

text \<open>The cache only holds what the file system holds.\<close>

definition cs_wf :: "ContextStore \<times> OxideFs \<Rightarrow> bool" where
  [wf_defs]: "cs_wf s \<longleftrightarrow> fs_wf (snd s) \<and> (\<forall>a m k v. bt_get (cs_cache (fst s)) a = Some m \<and> bt_get m k = Some v \<longrightarrow>
     read_file (snd s) (cs_path a k) = Some v)"

lemma cs_wf_new: "cs_wf (cs_new, fs_new)"
  by (simp add: cs_wf_def cs_new_def fs_wf_new)

lemma cs_get_read: "cs_wf s \<Longrightarrow> cs_get s a k = read_file (snd s) (cs_path a k)"
  by (cases s) (auto simp: cs_get_def cs_wf_def split: option.splits)

lemma cs_set_wf:
  assumes wf: "cs_wf s" and s': "cs_set tick a k v s = Some s'" and len: "length v < 2 ^ 64"
  shows "cs_wf s'" "\<And>b l. cs_get s' b l = (if b = a \<and> l = k then Some v else cs_get s b l)"
proof -
  obtain cs fs where s: "s = (cs, fs)" by (cases s)
  let ?m = "case bt_get (cs_cache cs) a of Some m \<Rightarrow> m | None \<Rightarrow> []"
  let ?cs = "cs\<lparr>cs_cache := bt_insert a (bt_insert k v ?m) (cs_cache cs)\<rparr>"
  from s' s obtain i fs' where w: "write_file tick (cs_path a k) v fs = Some (i, fs')" "s' = (?cs, fs')"
    by (auto simp: cs_set_def Let_def split: bind_splits)
  have fs: "fs_wf fs" using wf s by (simp add: cs_wf_def)
  have rd: "read_file fs' = (read_file fs)(cs_path a k \<mapsto> v)" by (rule read_after_write [OF fs w(1)])
  have old: "read_file fs (cs_path b l) = Some x" if "bt_get (cs_cache cs) b = Some n" "bt_get n l = Some x" for b l n x
    using wf s that by (auto simp: cs_wf_def)
  show "cs_wf s'"
    using write_file_wf [OF fs w(1) len] old w(2) unfolding cs_wf_def
    by (auto simp: rd split: if_splits option.splits)
  then show "cs_get s' b l = (if b = a \<and> l = k then Some v else cs_get s b l)" for b l
    using wf w(2) s rd by (simp add: cs_get_read)
qed

lemma cs_delete_wf:
  assumes wf: "cs_wf s"
  shows "cs_wf (snd (cs_delete a k s))" "\<And>b l. cs_get (snd (cs_delete a k s)) b l = (if b = a \<and> l = k then None else cs_get s b l)"
proof -
  obtain cs fs where s: "s = (cs, fs)" by (cases s)
  let ?cs = "cs\<lparr>cs_cache := bt_modify a (bt_remove k) (cs_cache cs)\<rparr>" and ?fs = "snd (delete_file (cs_path a k) fs)"
  have d: "snd (cs_delete a k s) = (?cs, ?fs)" by (simp add: s cs_delete_def Let_def case_prod_unfold)
  have old: "read_file fs (cs_path b l) = Some x" if "bt_get (cs_cache cs) b = Some n" "bt_get n l = Some x" for b l n x
    using wf s that by (auto simp: cs_wf_def)
  show c: "cs_wf (snd (cs_delete a k s))"
    using wf s old unfolding d cs_wf_def by (auto simp: delete_file_wf read_after_delete split: if_splits)
  show "cs_get (snd (cs_delete a k s)) b l = (if b = a \<and> l = k then None else cs_get s b l)" for b l
    unfolding cs_get_read [OF c] cs_get_read [OF wf] unfolding d by (simp add: s read_after_delete)
qed

definition cs_put :: "u64 \<Rightarrow> u64 \<times> string \<Rightarrow> u8 list \<Rightarrow> ContextStore \<times> OxideFs \<Rightarrow> (ContextStore \<times> OxideFs) option" where
  "cs_put tick = (\<lambda>(a, k) v s. if length v < 2 ^ 64 then cs_set tick a k v s else None)"

definition cs_lookup :: "ContextStore \<times> OxideFs \<Rightarrow> u64 \<times> string \<Rightarrow> u8 list option" where
  "cs_lookup s = (\<lambda>(a, k). cs_get s a k)"

definition cs_del :: "u64 \<times> string \<Rightarrow> ContextStore \<times> OxideFs \<Rightarrow> ContextStore \<times> OxideFs" where
  "cs_del = (\<lambda>(a, k) s. snd (cs_delete a k s))"

interpretation csk: kv_store cs_lookup "cs_put tick" cs_del cs_wf
  by unfold_locales
    (auto simp: cs_put_def cs_lookup_def cs_del_def fun_eq_iff cs_set_wf cs_delete_wf split: if_splits)

lemma fold_delete:
  "fs_wf fs \<Longrightarrow> fs_wf (fold (\<lambda>p fs. snd (delete_file p fs)) ps fs)
     \<and> read_file (fold (\<lambda>p fs. snd (delete_file p fs)) ps fs) = (\<lambda>p. if p \<in> set ps then None else read_file fs p)"
proof (induction ps arbitrary: fs)
  case (Cons p ps)
  from Cons.IH [OF delete_file_wf [OF Cons.prems, of p]] show ?case by (auto simp: read_after_delete fun_eq_iff)
qed simp

lemma clear_agent_result:
  assumes wf: "cs_wf s"
  shows "cs_wf (cs_clear_agent a s)" "cs_get (cs_clear_agent a s) b k = (if b = a then None else cs_get s b k)"
proof -
  obtain cs fs where s: "s = (cs, fs)" by (cases s)
  let ?cs = "cs\<lparr>cs_cache := bt_remove a (cs_cache cs)\<rparr>" and ?ps = "map path (fs_list fs (cs_prefix a))"
  let ?fs = "fold (\<lambda>p fs. snd (delete_file p fs)) ?ps fs"
  have fs: "fs_wf fs" using wf s by (simp add: cs_wf_def)
  have c: "cs_clear_agent a s = (?cs, ?fs)" by (simp add: s cs_clear_agent_def Let_def)
  have paths: "set ?ps = {p. prefix (cs_prefix a) p \<and> read_file fs p \<noteq> None}"
    using fs_list_read [OF fs, of _ "cs_prefix a"] fs_list_complete [OF fs, of _ _ "cs_prefix a"] by fastforce
  have rd: "read_file ?fs (cs_path b k) = (if b = a then None else read_file fs (cs_path b k))" for b k
  proof -
    have "read_file ?fs (cs_path b k) = (if cs_path b k \<in> set ?ps then None else read_file fs (cs_path b k))"
      using fold_delete [OF fs, of ?ps] by meson
    also have "\<dots> = (if b = a then None else read_file fs (cs_path b k))"
      unfolding paths by (auto simp: cs_prefix_path)
    finally show ?thesis .
  qed
  have "fs_wf ?fs" using fold_delete [OF fs] by blast
  with wf s show c': "cs_wf (cs_clear_agent a s)"
    unfolding c cs_wf_def by (auto simp: rd split: if_splits)
  show "cs_get (cs_clear_agent a s) b k = (if b = a then None else cs_get s b k)"
    unfolding cs_get_read [OF c'] cs_get_read [OF wf] unfolding c using rd s by simp
qed

section \<open>Properties\<close>

text \<open>C36. The context store refines a finite map from agents and keys to values: after any sequence of stores and
  deletions that does not panic, a read returns what the same sequence leaves in the map.  In particular
  no agent's operation changes what another agent reads.\<close>

theorem context_store_refines_map:
  assumes "kv_run (cs_put tick) cs_del ops (cs_new, fs_new) = Some s"
  shows "(\<forall>a k. cs_get s a k = kv_spec ops Map.empty (a, k))
    \<and> (\<forall>a. (\<forall>op \<in> set ops. case op of Put (b, _) _ \<Rightarrow> b \<noteq> a | Del (b, _) \<Rightarrow> b \<noteq> a) \<longrightarrow> (\<forall>k. cs_get s a k = None))"
proof (intro conjI allI impI)
  fix a k
  have none: "cs_lookup (cs_new, fs_new) = Map.empty"
    by (rule ext) (auto simp: cs_lookup_def cs_get_def cs_new_def fs_new_def read_file_def split: prod.splits)
  have lookup: "cs_lookup s = kv_spec ops Map.empty" using csk.run_refines [OF cs_wf_new assms] none by simp
  then show "cs_get s a k = kv_spec ops Map.empty (a, k)" by (metis cs_lookup_def case_prod_conv)
  assume other: "\<forall>op \<in> set ops. case op of Put (b, _) _ \<Rightarrow> b \<noteq> a | Del (b, _) \<Rightarrow> b \<noteq> a"
  have "cs_lookup s (a, k) = cs_lookup (cs_new, fs_new) (a, k)"
    by (rule csk.run_other_keys [OF cs_wf_new assms]) (use other in force)+
  also have "\<dots> = None" using none by simp
  finally show "cs_get s a k = None" by (simp add: cs_lookup_def)
qed

text \<open>Clearing an agent deletes all its keys and nobody else's.\<close>

theorem clear_agent_exact:
  assumes "cs_wf s"
  shows "\<forall>b k. cs_get (cs_clear_agent a s) b k = (if b = a then None else cs_get s b k)"
  using clear_agent_result(2) [OF assms] by blast

text \<open>The keys an agent is shown are exactly the keys it can read.\<close>

theorem keys_exact:
  assumes "cs_wf s"
  shows "set (cs_keys s a) = {k. cs_get s a k \<noteq> None}"
proof -
  obtain cs fs where s: "s = (cs, fs)" by (cases s)
  have fs: "fs_wf fs" using assms s by (simp add: cs_wf_def)
  have "set (cs_keys s a) = drop (length (cs_prefix a)) ` (path ` set (fs_list fs (cs_prefix a)))"
    using fs_list_read [OF fs, of _ "cs_prefix a"] by (force simp: s cs_keys_def strip_prefix_or_def image_iff)
  also have "path ` set (fs_list fs (cs_prefix a)) = {p. prefix (cs_prefix a) p \<and> read_file fs p \<noteq> None}"
    using fs_list_read [OF fs, of _ "cs_prefix a"] fs_list_complete [OF fs, of _ _ "cs_prefix a"] by fastforce
  also have "drop (length (cs_prefix a)) ` \<dots> = {k. read_file fs (cs_path a k) \<noteq> None}"
    by (force simp: cs_path_prefix prefix_def image_iff)
  finally show ?thesis using cs_get_read [OF assms, of a] s by simp
qed

definition demo_ops :: "(u64 \<times> string, u8 list) kv_op list" where
  "demo_ops = [Put (1, ''k'') [7], Put (2, ''k'') [8]]"

lemma demo_store_run: "\<exists>s. kv_run (cs_put 5) cs_del demo_ops (cs_new, fs_new) = Some s"
proof -
  have ok: "\<exists>b fs'. write_file 5 q d fs = Some (b, fs')" if "next_blob_id fs < 10" "total_bytes fs < 10" "length d = 1" for q d fs
    using that by (auto simp: write_file_def Let_def checked_add_def word_less_nat_alt split: option.splits)
  obtain b fs1 where w1: "write_file 5 (cs_path 1 ''k'') [7] fs_new = Some (b, fs1)"
    using ok [of fs_new "[7]" "cs_path 1 ''k''"] by (auto simp: fs_new_def)
  have "next_blob_id fs1 = 2" "total_bytes fs1 = 1" using w1 by (auto simp: fs_eval)
  then obtain c fs2 where w2: "write_file 5 (cs_path 2 ''k'') [8] fs1 = Some (c, fs2)"
    using ok [of fs1 "[8]" "cs_path 2 ''k''"] by auto
  show ?thesis using w1 w2 by (simp add: demo_ops_def cs_put_def cs_set_def Let_def)
qed

theorem context_store_refines_map_witness:
  "\<exists>s. kv_run (cs_put 5) cs_del demo_ops (cs_new, fs_new) = Some s \<and> cs_get s 1 ''k'' = Some [7] \<and> cs_get s 3 ''k'' = None"
proof -
  from demo_store_run obtain s where s: "kv_run (cs_put 5) cs_del demo_ops (cs_new, fs_new) = Some s" ..
  from context_store_refines_map [OF s] have "cs_get s 1 ''k'' = Some [7]" "cs_get s 3 ''k'' = None"
    by (simp_all add: demo_ops_def)
  with s show ?thesis by blast
qed

theorem clear_agent_exact_witness:
  "\<exists>s. cs_get s 1 ''k'' = Some [7] \<and> cs_get (cs_clear_agent 1 s) 1 ''k'' = None \<and> cs_get (cs_clear_agent 1 s) 2 ''k'' = Some [8]"
proof -
  from demo_store_run obtain s where s: "kv_run (cs_put 5) cs_del demo_ops (cs_new, fs_new) = Some s" ..
  from csk.run_refines [OF cs_wf_new s] have wf: "cs_wf s" and l: "cs_lookup s = kv_spec demo_ops (cs_lookup (cs_new, fs_new))"
    by blast+
  have "cs_get s 1 ''k'' = Some [7]" "cs_get s 2 ''k'' = Some [8]"
    using fun_cong [OF l, of "(1, ''k'')"] fun_cong [OF l, of "(2, ''k'')"] by (simp_all add: cs_lookup_def demo_ops_def)
  with clear_agent_exact [OF wf, of 1] show ?thesis by fastforce
qed

theorem keys_exact_witness:
  "\<exists>s. ''k'' \<in> set (cs_keys s 1)"
proof -
  from demo_store_run obtain s where s: "kv_run (cs_put 5) cs_del demo_ops (cs_new, fs_new) = Some s" ..
  from csk.run_refines [OF cs_wf_new s] have wf: "cs_wf s" and l: "cs_lookup s = kv_spec demo_ops (cs_lookup (cs_new, fs_new))"
    by blast+
  have "cs_get s 1 ''k'' = Some [7]" using fun_cong [OF l, of "(1, ''k'')"] by (simp add: cs_lookup_def demo_ops_def)
  then have "''k'' \<in> set (cs_keys s 1)" unfolding keys_exact [OF wf] by simp
  then show ?thesis by blast
qed

end
