(* ===== verification/Kernel_State.thy ===== *)
theory Kernel_State
  imports Cap_Theorems Frame_Allocator Task_Scheduler Deadline_Queue Gpu_Scheduler Ipc_Types Agent_Tree Context_Store
begin

text \<open>
  The kernel's static variables as one record.  Atomic counters wrap on \<open>fetch_add\<close>.  A lock is not
  part of the state unless the code tries it without waiting: \<open>sched_locked\<close>, \<open>pending_locked\<close> and
  \<open>deadlines_locked\<close> say that the interrupted code holds it.
\<close>

record IdAllocator =
  id_next :: u64
  free_list :: "u64 list"

record kernel =
  cap_table :: CapabilityTable
  frame_allocator :: "BitmapFrameAllocator option"
  id_allocator :: IdAllocator
  cpu :: Cpu
  sched_locked :: bool
  mailboxes :: "(u64, Mailbox) btree"
  next_msg_id :: u64
  channels :: "(string, Channel) btree"
  next_channel_id :: u64
  pending :: "(u64, PendingRequest) btree"
  pending_locked :: bool
  replies :: "(u64, Message) btree"
  shared_regions :: "(u64, SharedRegion) btree"
  next_region_id :: u64
  registry :: AgentRegistry
  deadlines :: DeadlineQueue
  deadlines_locked :: bool
  gpu :: GpuScheduler
  contexts_store :: ContextStore
  fs :: OxideFs
  ticks :: u64

definition id_new :: IdAllocator where
  "id_new = \<lparr>id_next = 1, free_list = []\<rparr>"

definition id_alloc :: "IdAllocator \<Rightarrow> (u64 \<times> IdAllocator) option" where
  "id_alloc a =
     (if free_list a \<noteq> [] then Some (last (free_list a), a\<lparr>free_list := butlast (free_list a)\<rparr>)
      else do { n \<leftarrow> checked_add (id_next a) 1; Some (id_next a, a\<lparr>id_next := n\<rparr>) })"

definition id_free :: "u64 \<Rightarrow> IdAllocator \<Rightarrow> IdAllocator" where
  "id_free i a = a\<lparr>free_list := free_list a @ [i]\<rparr>"

text \<open>The state in which the statics start; the processor's registers are whatever the boot code left.\<close>

definition boot_cpu :: "CpuContext \<Rightarrow> Cpu" where
  "boot_cpu r = \<lparr>sched = sched_new, contexts = replicate MAX_TASKS context_empty, idle_context = context_empty,
     need_reschedule = False, regs = r, interrupts_on = False\<rparr>"

definition kernel_boot :: "CpuContext \<Rightarrow> kernel" where
  "kernel_boot r = \<lparr>cap_table = cap_new, frame_allocator = None, id_allocator = id_new, cpu = boot_cpu r, sched_locked = False,
     mailboxes = [], next_msg_id = 1, channels = [], next_channel_id = 1, pending = [], pending_locked = False, replies = [],
     shared_regions = [], next_region_id = 1, registry = reg_new, deadlines = dl_new, deadlines_locked = False, gpu = gpu_new,
     contexts_store = cs_new, fs = fs_new, ticks = 0\<rparr>"

text \<open>\<open>SCHEDULER.try_lock()\<close> followed by \<open>unblock\<close>.\<close>

definition try_unblock :: "u64 \<Rightarrow> kernel \<Rightarrow> kernel" where
  "try_unblock i k = (if sched_locked k then k else k\<lparr>cpu := (cpu k)\<lparr>sched := snd (unblock i (sched (cpu k)))\<rparr>\<rparr>)"

section \<open>Operations behind a capability check\<close>

text \<open>
  The contract of an operation that validates a capability first: when the check fails it returns the
  given error and changes nothing.  Everything the capability table guarantees about \<open>validate\<close> then
  carries over to the operation.
\<close>

locale cap_gate =
  fixes caps :: "'s \<Rightarrow> CapabilityTable"
    and run :: "'s \<Rightarrow> (('e + 'r) \<times> 's) option"
    and i task :: u64
    and required :: PermissionBits
    and denied :: 'e
  assumes gate: "cap_validate (caps s) i task required = Inl e \<Longrightarrow> run s = Some (Inl denied, s)"
begin

lemma revoked_refused: "is_revoked (caps s) i \<Longrightarrow> run s = Some (Inl denied, s)"
  by (rule gate) (rule cap_validate_revoked)

lemma granted_only:
  assumes "run s = Some (Inr r, s')"
  obtains c where "cap_validate (caps s) i task required = Inr c"
  using assms gate by (cases "cap_validate (caps s) i task required") auto

lemma granted_capability:
  assumes "run s = Some (Inr r, s')"
  obtains c where "slot (caps s) i = Some c" "\<not> revoked c" "owner c = task" "contains (permissions c) required"
  using granted_only [OF assms] cap_validate_Inr_iff by metis

end

end
