(* ===== verification/Kernel_Ipc.thy ===== *)
theory Kernel_Ipc
  imports Kernel_State
begin

text \<open>
  The operations of \<^verbatim>\<open>ipc/\<close> on the kernel's tables: messages, channels, requests with replies and time-outs,
  and shared memory.  Each result is an error or a value together with the new kernel state; \<open>None\<close> is
  a panic.
\<close>

section \<open>Messages\<close>

definition register_mailbox :: "u64 \<Rightarrow> kernel \<Rightarrow> kernel" where
  "register_mailbox task k = k\<lparr>mailboxes := bt_insert task mailbox_new (mailboxes k)\<rparr>"

definition unregister_mailbox :: "u64 \<Rightarrow> kernel \<Rightarrow> kernel" where
  "unregister_mailbox task k = k\<lparr>mailboxes := bt_remove task (mailboxes k)\<rparr>"

definition next_message_id :: "kernel \<Rightarrow> u64 \<times> kernel" where
  "next_message_id k = (next_msg_id k, k\<lparr>next_msg_id := next_msg_id k + 1\<rparr>)"

text \<open>The capability transfer inside \<open>send\<close>: the recipient gets a child with the same permissions.\<close>

definition transfer_cap :: "u64 \<Rightarrow> u64 \<Rightarrow> u64 option \<Rightarrow> kernel \<Rightarrow> ((IpcError + unit) \<times> kernel) option" where
  "transfer_cap snd_task rcp ct k =
     (case ct of
        None \<Rightarrow> Some (Inr (), k)
      | Some c \<Rightarrow>
          (case cap_get (cap_table k) c of
             Inl _ \<Rightarrow> Some (Inl InvalidCapTransfer, k)
           | Inr cap \<Rightarrow> do {
               (r, t) \<leftarrow> cap_delegate c snd_task rcp (permissions cap) None (cap_table k);
               let k = k\<lparr>cap_table := t\<rparr>;
               case r of Inl _ \<Rightarrow> Some (Inl InvalidCapTransfer, k) | Inr _ \<Rightarrow> Some (Inr (), k)
             }))"

text \<open>The end of \<open>send\<close>: put the message into the recipient's mailbox and wake the recipient.\<close>

definition deliver :: "Message \<Rightarrow> kernel \<Rightarrow> (IpcError + u64) \<times> kernel" where
  "deliver msg k =
     (case bt_get (mailboxes k) (recipient msg) of
        None \<Rightarrow> (Inl RecipientNotFound, k)
      | Some q \<Rightarrow>
          (case mailbox_push msg q of
             (Inl e, _) \<Rightarrow> (Inl e, k)
           | (Inr _, q) \<Rightarrow>
               (Inr (msg_id msg), try_unblock (recipient msg) (k\<lparr>mailboxes := bt_insert (recipient msg) q (mailboxes k)\<rparr>))))"

definition send ::
  "u64 \<Rightarrow> u64 \<Rightarrow> MessageType \<Rightarrow> u8 list \<Rightarrow> u64 option \<Rightarrow> u64 option \<Rightarrow> u64 \<Rightarrow> kernel \<Rightarrow> ((IpcError + u64) \<times> kernel) option" where
  "send snd_task rcp ty pl ct rt sender_cap k =
     (case cap_validate (cap_table k) sender_cap snd_task WRITE of
        Inl _ \<Rightarrow> Some (Inl CapabilityDenied, k)
      | Inr _ \<Rightarrow> do {
          (r, k) \<leftarrow> transfer_cap snd_task rcp ct k;
          case r of
            Inl e \<Rightarrow> Some (Inl e, k)
          | Inr _ \<Rightarrow>
              let (i, k) = next_message_id k;
                  msg = \<lparr>msg_id = i, sender = snd_task, recipient = rcp, msg_type = ty, payload = pl, cap_transfer = ct, reply_to = rt\<rparr>
              in Some (deliver msg k)
        })"

definition receive :: "u64 \<Rightarrow> kernel \<Rightarrow> Message option \<times> kernel" where
  "receive task k =
     (case bt_get (mailboxes k) task of
        None \<Rightarrow> (None, k)
      | Some q \<Rightarrow> (case mailbox_pop q of (m, q) \<Rightarrow> (m, k\<lparr>mailboxes := bt_insert task q (mailboxes k)\<rparr>)))"

definition mailbox_len :: "u64 \<Rightarrow> kernel \<Rightarrow> nat" where
  "mailbox_len task k = (case bt_get (mailboxes k) task of None \<Rightarrow> 0 | Some q \<Rightarrow> length q)"

section \<open>Channels\<close>

definition channel_create :: "string \<Rightarrow> kernel \<Rightarrow> u64 \<times> kernel" where
  "channel_create name k =
     (let i = next_channel_id k;
          ch = \<lparr>channel_id = i, channel_name = name, subscribers = []\<rparr>
      in (i, k\<lparr>next_channel_id := i + 1, channels := bt_insert name ch (channels k)\<rparr>))"

definition subscribe :: "string \<Rightarrow> u64 \<Rightarrow> u64 \<Rightarrow> kernel \<Rightarrow> ((IpcError + unit) \<times> kernel) option" where
  "subscribe name task cap k =
     (case cap_validate (cap_table k) cap task SUBSCRIBE of
        Inl _ \<Rightarrow> Some (Inl CapabilityDenied, k)
      | Inr _ \<Rightarrow>
          (case bt_get (channels k) name of
             None \<Rightarrow> Some (Inl RecipientNotFound, k)
           | Some ch \<Rightarrow>
               Some (Inr (),
                 if task \<notin> fst ` set (subscribers ch)
                 then k\<lparr>channels := bt_insert name (ch\<lparr>subscribers := subscribers ch @ [(task, cap)]\<rparr>) (channels k)\<rparr>
                 else k)))"

definition unsubscribe :: "string \<Rightarrow> u64 \<Rightarrow> kernel \<Rightarrow> (IpcError + unit) \<times> kernel" where
  "unsubscribe name task k =
     (case bt_get (channels k) name of
        None \<Rightarrow> (Inl RecipientNotFound, k)
      | Some ch \<Rightarrow> (Inr (), k\<lparr>channels :=
          bt_insert name (ch\<lparr>subscribers := filter (\<lambda>(t, _). t \<noteq> task) (subscribers ch)\<rparr>) (channels k)\<rparr>))"

text \<open>Best-effort delivery to one subscriber: a missing or full mailbox is ignored.\<close>

definition publish_to :: "u64 \<Rightarrow> u8 list \<Rightarrow> u64 \<Rightarrow> kernel \<Rightarrow> kernel" where
  "publish_to snd_task pl sub k =
     (case bt_get (mailboxes k) sub of
        None \<Rightarrow> k
      | Some q \<Rightarrow>
          let msg = \<lparr>msg_id = 0, sender = snd_task, recipient = sub, msg_type = Data, payload = pl, cap_transfer = None, reply_to = None\<rparr>
          in k\<lparr>mailboxes := bt_insert sub (snd (mailbox_push msg q)) (mailboxes k)\<rparr>)"

definition publish :: "string \<Rightarrow> u64 \<Rightarrow> u8 list \<Rightarrow> u64 \<Rightarrow> kernel \<Rightarrow> ((IpcError + nat) \<times> kernel) option" where
  "publish name snd_task pl cap k =
     (case cap_validate (cap_table k) cap snd_task PUBLISH of
        Inl _ \<Rightarrow> Some (Inl CapabilityDenied, k)
      | Inr _ \<Rightarrow>
          (case bt_get (channels k) name of
             None \<Rightarrow> Some (Inl RecipientNotFound, k)
           | Some ch \<Rightarrow>
               let subs = filter (\<lambda>t. t \<noteq> snd_task) (map fst (subscribers ch))
               in Some (Inr (length subs), fold (publish_to snd_task pl) subs k)))"

section \<open>Requests and replies\<close>

definition request :: "u64 \<Rightarrow> u64 \<Rightarrow> u8 list \<Rightarrow> u64 \<Rightarrow> u64 \<Rightarrow> kernel \<Rightarrow> ((IpcError + u64) \<times> kernel) option" where
  "request snd_task rcp pl cap timeout_ticks k =
     (case cap_validate (cap_table k) cap snd_task WRITE of
        Inl _ \<Rightarrow> Some (Inl CapabilityDenied, k)
      | Inr _ \<Rightarrow> do {
          (r, k) \<leftarrow> send snd_task rcp Request pl None None cap k;
          case r of
            Inl e \<Rightarrow> Some (Inl e, k)
          | Inr i \<Rightarrow> do {
              deadline \<leftarrow> checked_add (ticks k) timeout_ticks;
              Some (Inr i, k\<lparr>pending := bt_insert i \<lparr>requester = snd_task, request_deadline = deadline\<rparr> (pending k)\<rparr>)
            }
        })"

definition reply :: "u64 \<Rightarrow> u64 \<Rightarrow> u8 list \<Rightarrow> u64 \<Rightarrow> kernel \<Rightarrow> (IpcError + unit) \<times> kernel" where
  "reply snd_task original pl sender_cap k =
     (case bt_get (pending k) original of
        None \<Rightarrow> (Inl RecipientNotFound, k)
      | Some p \<Rightarrow>
          let msg = \<lparr>msg_id = 0, sender = snd_task, recipient = requester p, msg_type = Reply, payload = pl,
                     cap_transfer = None, reply_to = Some original\<rparr>;
              k = k\<lparr>pending := bt_remove original (pending k), replies := bt_insert original msg (replies k)\<rparr>
          in (Inr (), try_unblock (requester p) k))"

definition collect_reply :: "u64 \<Rightarrow> kernel \<Rightarrow> Message option \<times> kernel" where
  "collect_reply i k = (bt_get (replies k) i, k\<lparr>replies := bt_remove i (replies k)\<rparr>)"

definition expired_requests :: "kernel \<Rightarrow> (u64 \<times> PendingRequest) list" where
  "expired_requests k = filter (\<lambda>(_, p). request_deadline p \<le> ticks k) (pending k)"

definition expire_request :: "u64 \<Rightarrow> kernel \<Rightarrow> kernel" where
  "expire_request i k =
     (case bt_get (pending k) i of
        None \<Rightarrow> k
      | Some p \<Rightarrow> try_unblock (requester p) (k\<lparr>pending := bt_remove i (pending k)\<rparr>))"

definition check_timeouts :: "kernel \<Rightarrow> kernel" where
  "check_timeouts k = (if pending_locked k then k else fold expire_request (map fst (expired_requests k)) k)"

section \<open>Shared memory\<close>

text \<open>\<open>for _ in 1..page_count\<close> runs \<open>page_count - 1\<close> times, and not at all for a size of 0.\<close>

definition create_region :: "u64 \<Rightarrow> u64 \<Rightarrow> kernel \<Rightarrow> ((IpcError + u64) \<times> kernel) option" where
  "create_region own sz k = do {
     s1 \<leftarrow> checked_add sz PAGE_SIZE;
     s2 \<leftarrow> checked_sub s1 1;
     let page_count = s2 div PAGE_SIZE;
     case frame_allocator k of
       None \<Rightarrow> Some (Inl RecipientNotFound, k)
     | Some fa \<Rightarrow> do {
         (r, fa) \<leftarrow> alloc_pages allocate_frame (unat page_count) fa;
         let k = k\<lparr>frame_allocator := Some fa\<rparr>;
         case r of
           None \<Rightarrow> Some (Inl RecipientNotFound, k)
         | Some first \<Rightarrow> do {
             let base = start_address first;
             let i = next_region_id k;
             len \<leftarrow> checked_mul page_count PAGE_SIZE;
             let region = \<lparr>region_id = i, phys_base = base, region_size = len, region_owner = own, grants = []\<rparr>;
             (_, t) \<leftarrow> cap_create_root own (Memory base len) (perm_union (perm_union READ WRITE) DELEGATE) (cap_table k);
             Some (Inr i, k\<lparr>next_region_id := i + 1, cap_table := t, shared_regions := bt_insert i region (shared_regions k)\<rparr>)
           }
       }
   }"

definition grant_access :: "u64 \<Rightarrow> u64 \<Rightarrow> u64 \<Rightarrow> u64 \<Rightarrow> kernel \<Rightarrow> ((IpcError + u64) \<times> kernel) option" where
  "grant_access region granter grantee granter_cap k =
     (case cap_validate (cap_table k) granter_cap granter DELEGATE of
        Inl _ \<Rightarrow> Some (Inl CapabilityDenied, k)
      | Inr _ \<Rightarrow>
          (case bt_get (shared_regions k) region of
             None \<Rightarrow> Some (Inl RecipientNotFound, k)
           | Some r \<Rightarrow> do {
               let k = k\<lparr>shared_regions := bt_insert region (r\<lparr>grants := grants r @ [grantee]\<rparr>) (shared_regions k)\<rparr>;
               (c, t) \<leftarrow> cap_create_root grantee (Memory (phys_base r) (region_size r)) READ (cap_table k);
               Some (Inr c, k\<lparr>cap_table := t\<rparr>)
             }))"

section \<open>The gates\<close>

interpretation send_gate: cap_gate cap_table "send snd_task rcp ty pl ct rt cap" cap snd_task WRITE CapabilityDenied
  by unfold_locales (simp add: send_def)

interpretation subscribe_gate: cap_gate cap_table "subscribe name task cap" cap task SUBSCRIBE CapabilityDenied
  by unfold_locales (simp add: subscribe_def)

interpretation publish_gate: cap_gate cap_table "publish name snd_task pl cap" cap snd_task PUBLISH CapabilityDenied
  by unfold_locales (simp add: publish_def)

interpretation request_gate: cap_gate cap_table "request snd_task rcp pl cap t" cap snd_task WRITE CapabilityDenied
  by unfold_locales (simp add: request_def)

interpretation grant_gate: cap_gate cap_table "grant_access region granter grantee cap" cap granter DELEGATE CapabilityDenied
  by unfold_locales (simp add: grant_access_def)

end
