(* ===== verification/Kernel_Tasks.thy ===== *)
theory Kernel_Tasks
  imports Kernel_Ipc
begin

text \<open>
  Creation and destruction of tasks (\<^verbatim>\<open>task/mod.rs\<close>) on the whole kernel: stacks are made of frames mapped at an
  address computed from the task's id, and a dead task's frames, mailbox and id are given back.

  The page tables belong to the \<^verbatim>\<open>x86_64\<close> crate: \<open>map_to\<close> is a parameter that maps a page, may take frames for
  intermediate tables, and says whether it succeeded.  \<open>mapper_ok\<close> states what its documentation says.
\<close>

section \<open>The end of a task\<close>

definition cleanup_dead_task :: "Task \<Rightarrow> kernel \<Rightarrow> kernel option" where
  "cleanup_dead_task t k = do {
     fa \<leftarrow> (case frame_allocator k of
              None \<Rightarrow> Some None
            | Some fa \<Rightarrow> do {
                fa \<leftarrow> for_each (\<lambda>phys_addr. free_frame (containing_address phys_addr)) (stack_frames t) fa;
                Some (Some fa)
              });
     let k = unregister_mailbox (task_id t) (k\<lparr>frame_allocator := fa\<rparr>);
     Some (k\<lparr>id_allocator := id_free (task_id t) (id_allocator k)\<rparr>)
   }"

text \<open>The scheduler's entry points on the kernel's own processor and tables.\<close>

definition k_yield_now :: "u64 \<Rightarrow> kernel \<Rightarrow> (bool \<times> kernel) option" where
  "k_yield_now ret k = do {
     (sw, p, k) \<leftarrow> yield_now ret cleanup_dead_task (cpu k, k);
     Some (sw, k\<lparr>cpu := p\<rparr>)
   }"

definition k_block_and_yield :: "u64 \<Rightarrow> kernel \<Rightarrow> (bool \<times> kernel) option" where
  "k_block_and_yield ret k = do {
     (sw, p, k) \<leftarrow> block_and_yield ret cleanup_dead_task (cpu k, k);
     Some (sw, k\<lparr>cpu := p\<rparr>)
   }"

definition k_exit_current :: "u64 \<Rightarrow> kernel \<Rightarrow> kernel option" where
  "k_exit_current ret k = do {
     (p, k) \<leftarrow> exit_current ret cleanup_dead_task (cpu k, k);
     Some (k\<lparr>cpu := p\<rparr>)
   }"

section \<open>The beginning of a task\<close>

type_synonym 'pt map_fn = "u64 \<Rightarrow> PhysFrame \<Rightarrow> u64 \<Rightarrow> 'pt \<times> BitmapFrameAllocator \<Rightarrow> bool \<times> 'pt \<times> BitmapFrameAllocator"

definition alloc_and_map :: "'pt map_fn \<Rightarrow> u64 \<Rightarrow> u64 \<Rightarrow> 'pt \<times> kernel \<Rightarrow> (PhysFrame \<times> 'pt \<times> kernel) option" where
  "alloc_and_map map_to page flags = (\<lambda>(pt, k). do {
     fa \<leftarrow> frame_allocator k;
     (r, fa) \<leftarrow> allocate_frame fa;
     frame \<leftarrow> r;
     let (ok, pt, fa) = map_to page frame flags (pt, fa);
     if ok then Some (frame, pt, k\<lparr>frame_allocator := Some fa\<rparr>) else None
   })"

definition STACK_PAGES :: u64 where "STACK_PAGES = 4"
definition STACK_SIZE :: u64 where "STACK_SIZE = STACK_PAGES * PAGE_SIZE"
definition STACK_REGION_BASE :: u64 where "STACK_REGION_BASE = 0xFFFFB00000000000"
definition STACK_SLOT_SIZE :: u64 where "STACK_SLOT_SIZE = (STACK_PAGES + 1) * PAGE_SIZE"

definition stack_bottom :: "u64 \<Rightarrow> u64 option" where
  "stack_bottom i = do {
     off \<leftarrow> checked_mul i STACK_SLOT_SIZE;
     slot_base \<leftarrow> checked_add STACK_REGION_BASE off;
     checked_add slot_base PAGE_SIZE
   }"

text \<open>\<open>PRESENT | WRITABLE | NO_EXECUTE\<close>.\<close>

definition stack_flags :: u64 where
  "stack_flags = push_bit 0 1 OR push_bit 1 1 OR push_bit 63 1"

definition map_stack_page :: "'pt map_fn \<Rightarrow> u64 \<Rightarrow> nat \<Rightarrow> u64 list \<times> 'pt \<times> kernel \<Rightarrow> (u64 list \<times> 'pt \<times> kernel) option" where
  "map_stack_page map_to bottom i = (\<lambda>(frames, pt, k). do {
     off \<leftarrow> checked_mul (of_nat i) PAGE_SIZE;
     page_addr \<leftarrow> checked_add bottom off;
     (frame, pt, k) \<leftarrow> alloc_and_map map_to page_addr stack_flags (pt, k);
     Some (frames @ [start_address frame], pt, k)
   })"

definition task_new ::
  "'pt map_fn \<Rightarrow> u64 \<Rightarrow> string \<Rightarrow> Priority \<Rightarrow> u64 \<Rightarrow> 'pt \<times> kernel \<Rightarrow> (Task \<times> 'pt \<times> kernel) option" where
  "task_new map_to task_entry_trampoline name pri entry = (\<lambda>(pt, k). do {
     (i, ids) \<leftarrow> id_alloc (id_allocator k);
     bottom \<leftarrow> stack_bottom i;
     top \<leftarrow> checked_add bottom STACK_SIZE;
     (frames, pt, k) \<leftarrow> for_each (map_stack_page map_to bottom) [0..<unat STACK_PAGES] ([], pt, k\<lparr>id_allocator := ids\<rparr>);
     let context = \<lparr>rsp = top, rbp = 0, rbx = 0, r12 = entry, r13 = 0, r14 = 0, r15 = 0, rip = task_entry_trampoline\<rparr>;
     Some (\<lparr>task_id = i, task_name = name, state = Ready, priority = pri, task_context = context, stack_top = top,
            stack_frames = frames, task_caps = []\<rparr>, pt, k)
   })"

definition k_spawn :: "Task \<Rightarrow> kernel \<Rightarrow> kernel option" where
  "k_spawn t k = do {
     (ctxs, s) \<leftarrow> sched_spawn t (contexts (cpu k), sched (cpu k));
     Some (k\<lparr>cpu := (cpu k)\<lparr>contexts := ctxs, sched := s\<rparr>\<rparr>)
   }"

definition gc_capabilities :: "CapabilityTable \<Rightarrow> Task \<Rightarrow> Task" where
  "gc_capabilities table t = t\<lparr>task_caps := filter (\<lambda>i. case cap_get table i of Inl _ \<Rightarrow> False | Inr _ \<Rightarrow> True) (task_caps t)\<rparr>"

section \<open>What tasks own\<close>

definition frame_number :: "u64 \<Rightarrow> nat" where
  "frame_number a = unat a div 4096"

definition stack_indices :: "(u64 \<times> u64 list) multiset \<Rightarrow> nat multiset" where
  "stack_indices M = (\<Sum>x \<in># M. mset (map frame_number (snd x)))"

text \<open>The stacks of all tasks use different frames, all of them in range and none of them free; ids in use and
  recycled ids are different and were all handed out.\<close>

definition resources_ok :: "(u64 \<times> u64 list) multiset \<Rightarrow> kernel \<Rightarrow> bool" where
  [wf_defs]: "resources_ok M k \<longleftrightarrow>
     (\<exists>fa. frame_allocator k = Some fa \<and> fa_wf fa \<and> stack_indices M \<subseteq># mset_set ({..<total_frames fa} - free_frames fa))
     \<and> 0 < id_next (id_allocator k)
     \<and> image_mset fst M + mset (free_list (id_allocator k)) \<subseteq># mset_set {i. 0 < i \<and> i < id_next (id_allocator k)}"

lemma stack_indices_simps [simp]:
  "stack_indices {#} = {#}" "stack_indices (add_mset x M) = mset (map frame_number (snd x)) + stack_indices M"
  by (simp_all add: stack_indices_def)

lemma frame_index_containing [simp]: "frame_index (containing_address a) = frame_number a"
  by (simp add: frame_index_def frame_number_def)

lemma free_stack:
  assumes "fa_wf fa" "\<forall>a \<in> set as. frame_number a < total_frames fa"
  shows "\<exists>fa'. for_each (\<lambda>a. free_frame (containing_address a)) as fa = Some fa' \<and> fa_wf fa' \<and> total_frames fa' = total_frames fa
    \<and> free_frames fa' = free_frames fa \<union> frame_number ` set as"
  using assms
proof (induction as arbitrary: fa)
  case (Cons a as)
  from fs.free_frame [OF Cons.prems(1), of "containing_address a"] Cons.prems(2) obtain fa1 where fa1:
    "free_frame (containing_address a) fa = Some fa1" "fa_wf fa1" "total_frames fa1 = total_frames fa"
    "free_frames fa1 = insert (frame_number a) (free_frames fa)" by auto
  from Cons.IH [OF fa1(2)] Cons.prems(2) fa1(3) obtain fa' where
    "for_each (\<lambda>a. free_frame (containing_address a)) as fa1 = Some fa'" "fa_wf fa'" "total_frames fa' = total_frames fa1"
    "free_frames fa' = free_frames fa1 \<union> frame_number ` set as" by auto
  with fa1 show ?case by auto
qed simp

lemma distinct_subset_mset_set:
  assumes "mset xs \<subseteq># mset_set A" "finite A" shows "distinct xs"
proof -
  obtain ys where "distinct ys" "mset_set A = mset ys"
    using finite_distinct_list [OF assms(2)] mset_set_set by metis
  then show ?thesis using distinct_mset_subset assms(1) by metis
qed

lemma mset_subset_minus:
  assumes "N + mset xs \<subseteq># mset_set A" "finite A"
  shows "N \<subseteq># mset_set (A - set xs)" "set xs \<subseteq> A"
proof -
  have "mset xs \<subseteq># mset_set A" by (rule subset_mset.order_trans [OF mset_subset_eq_add_right assms(1)])
  then have d: "distinct xs" using assms(2) by (rule distinct_subset_mset_set)
  show sub: "set xs \<subseteq> A"
    using assms set_mset_mono [OF assms(1)] by auto
  have "mset xs = mset_set (set xs)" using d by (simp add: mset_set_set)
  then have "mset_set A = mset_set (A - set xs) + mset xs"
    using mset_set_Union [of "A - set xs" "set xs"] sub assms(2) by (simp add: Un_absorb2 finite_subset Diff_disjoint Int_commute)
  with assms(1) show "N \<subseteq># mset_set (A - set xs)" by simp
qed

lemma cleanup_resources:
  assumes "resources_ok (add_mset (footprint t) M) k"
  shows "\<exists>k'. cleanup_dead_task t k = Some k' \<and> resources_ok M k'"
proof -
  from assms obtain fa where fa: "frame_allocator k = Some fa" "fa_wf fa"
    "stack_indices M + mset (map frame_number (stack_frames t)) \<subseteq># mset_set ({..<total_frames fa} - free_frames fa)"
    and ids: "0 < id_next (id_allocator k)" "add_mset (task_id t) (image_mset fst M) + mset (free_list (id_allocator k)) \<subseteq># mset_set {i. 0 < i \<and> i < id_next (id_allocator k)}"
    by (auto simp: resources_ok_def footprint_def ac_simps)
  note part = mset_subset_minus [OF fa(3)]
  have "\<forall>a \<in> set (stack_frames t). frame_number a < total_frames fa" using part(2) by auto
  from free_stack [OF fa(2) this] obtain fa' where fa':
    "for_each (\<lambda>a. free_frame (containing_address a)) (stack_frames t) fa = Some fa'" "fa_wf fa'" "total_frames fa' = total_frames fa"
    "free_frames fa' = free_frames fa \<union> frame_number ` set (stack_frames t)" by blast
  have "{..<total_frames fa'} - free_frames fa' = {..<total_frames fa} - free_frames fa - set (map frame_number (stack_frames t))"
    using fa'(3,4) by auto
  then show ?thesis
    using fa(1) fa' part(1) ids
    by (simp add: cleanup_dead_task_def resources_ok_def unregister_mailbox_def id_free_def)
qed

interpretation kse: sched_env cleanup_dead_task resources_ok
  by unfold_locales (rule cleanup_resources)

end
