(* ===== verification/Task_Lifecycle.thy ===== *)
theory Task_Lifecycle
  imports Kernel_Tasks
begin

text \<open>
  What holds over the whole life of the kernel's tasks: ids and stack frames are never shared, stacks of different ids
  never overlap, and what happens when a task exits and its id is used again.
\<close>

section \<open>The page mapper\<close>

text \<open>
  The documented behaviour of \<^verbatim>\<open>Mapper::map_to\<close>: it fails on a page that is already mapped, on success exactly that page is
  mapped in addition, and frames for intermediate tables are only taken from the allocator.
\<close>

definition mapper_ok :: "'pt map_fn \<Rightarrow> ('pt \<Rightarrow> u64 set) \<Rightarrow> bool" where
  "mapper_ok map_to mapped \<longleftrightarrow> (\<forall>page f fl pt fa ok pt' fa'. map_to page f fl (pt, fa) = (ok, pt', fa') \<longrightarrow>
     (page \<in> mapped pt \<longrightarrow> \<not> ok) \<and> (ok \<longrightarrow> mapped pt' = insert page (mapped pt))
     \<and> (fa_wf fa \<longrightarrow> fa_wf fa' \<and> total_frames fa' = total_frames fa \<and> free_frames fa' \<subseteq> free_frames fa))"

lemma alloc_and_map_result:
  assumes "mapper_ok map_to mapped" "frame_allocator k = Some fa" "fa_wf fa"
    "alloc_and_map map_to page fl (pt, k) = Some (f, pt', k')"
  obtains fa' where "k' = k\<lparr>frame_allocator := Some fa'\<rparr>" "fa_wf fa'" "total_frames fa' = total_frames fa"
    "frame_index f \<in> free_frames fa" "free_frames fa' \<subseteq> free_frames fa - {frame_index f}"
    "page \<notin> mapped pt" "mapped pt' = insert page (mapped pt)"
proof -
  from assms(2,4) obtain fa1 fa2 where a: "allocate_frame fa = Some (Some f, fa1)" and m: "map_to page f fl (pt, fa1) = (True, pt', fa2)"
    and k': "k' = k\<lparr>frame_allocator := Some fa2\<rparr>"
    by (auto simp: alloc_and_map_def Let_def split: bind_splits prod.splits if_splits)
  from fs.alloc_cases [OF assms(3)] a have fa1: "fa_wf fa1" "total_frames fa1 = total_frames fa" "frame_index f \<in> free_frames fa"
    "free_frames fa1 = free_frames fa - {frame_index f}" by auto
  have "page \<notin> mapped pt" "mapped pt' = insert page (mapped pt)" "fa_wf fa2" "total_frames fa2 = total_frames fa1" "free_frames fa2 \<subseteq> free_frames fa1"
    using assms(1) m fa1(1) unfolding mapper_ok_def by blast+
  with fa1 k' show thesis by (intro that [of fa2]) auto
qed

lemma alloc_and_map_mapped:
  assumes "mapper_ok map_to mapped" "page \<in> mapped pt" shows "alloc_and_map map_to page fl (pt, k) = None"
proof -
  have "map_to page f fl (pt, fa) \<noteq> (True, pt', fa')" for f fa pt' fa'
    using assms unfolding mapper_ok_def by blast
  then show ?thesis by (auto simp: alloc_and_map_def Let_def split: bind_split prod.splits)
qed

section \<open>Addresses of stacks\<close>

definition slot_start :: "nat \<Rightarrow> nat" where
  "slot_start i = 0xFFFFB00000000000 + i * 20480"

definition slot_pages :: "u64 \<Rightarrow> u64 set" where
  "slot_pages i = (\<lambda>j. of_nat (slot_start (unat i) + 4096 + 4096 * j)) ` {..<4}"

lemmas stack_consts = STACK_PAGES_def STACK_SIZE_def STACK_REGION_BASE_def STACK_SLOT_SIZE_def PAGE_SIZE_def

lemma stack_bottom_value:
  assumes "stack_bottom i = Some b" shows "unat b = slot_start (unat i) + 4096"
proof -
  from assms obtain off base where off: "checked_mul i STACK_SLOT_SIZE = Some off"
    and base: "checked_add STACK_REGION_BASE off = Some base" and b: "checked_add base PAGE_SIZE = Some b"
    by (auto simp: stack_bottom_def split: bind_splits)
  have "unat off = unat i * 20480" using checked_mul_unat [OF off] by (simp add: stack_consts)
  moreover have "unat base = 0xFFFFB00000000000 + unat off" using checked_add_unat [OF base] by (simp add: stack_consts)
  ultimately show ?thesis using checked_add_unat [OF b] by (simp add: slot_start_def stack_consts)
qed

lemma stack_bottom_total:
  assumes "unat i < MAX_TASKS" shows "\<exists>b. stack_bottom i = Some b \<and> checked_add b STACK_SIZE \<noteq> None"
proof -
  have lt: "unat i < 256" using assms by (simp add: MAX_TASKS_def)
  obtain off where off: "checked_mul i STACK_SLOT_SIZE = Some off" using lt by (simp add: checked_mul_def stack_consts)
  have uo: "unat off = unat i * 20480" using checked_mul_unat [OF off] by (simp add: stack_consts)
  obtain base where base: "checked_add STACK_REGION_BASE off = Some base" using uo lt by (simp add: checked_add_def stack_consts)
  have ub: "unat base = 0xFFFFB00000000000 + unat off" using checked_add_unat [OF base] by (simp add: stack_consts)
  obtain b where b: "checked_add base PAGE_SIZE = Some b" using ub uo lt by (simp add: checked_add_def)
  have "unat b = unat base + 4096" using checked_add_unat [OF b] by simp
  then have "checked_add b STACK_SIZE \<noteq> None" using ub uo lt by (simp add: checked_add_def stack_consts)
  with off base b show ?thesis by (simp add: stack_bottom_def)
qed

section \<open>A new task\<close>

lemma id_alloc_result:
  assumes "id_alloc a = Some (i, a')" "0 < id_next a" "N + mset (free_list a) \<subseteq># mset_set {i. 0 < i \<and> i < id_next a}"
  shows "add_mset i N + mset (free_list a') \<subseteq># mset_set {i. 0 < i \<and> i < id_next a'}" "0 < id_next a'" "0 < i" "i \<notin># N"
proof -
  let ?S = "\<lambda>a. {i. 0 < i \<and> i < id_next a} :: u64 set"
  have "add_mset i N + mset (free_list a') \<subseteq># mset_set (?S a') \<and> 0 < id_next a' \<and> 0 < i"
  proof (cases "free_list a = []")
    case True
    with assms(1) have c: "checked_add (id_next a) 1 = Some (id_next a')" "i = id_next a" "free_list a' = []"
      by (auto simp: id_alloc_def split: bind_splits)
    have n: "id_next a' = id_next a + 1" "id_next a \<noteq> - 1" using c(1) by (simp_all add: checked_add_1_Some_iff)
    have u: "unat (id_next a') = unat (id_next a) + 1" using n by (simp add: unat_plus_1)
    have "?S a' = insert i (?S a)" "i \<notin> ?S a"
      using assms(2) c(2) u by (auto simp: word_less_nat_alt less_Suc_eq simp flip: word_unat_eq_iff)
    with assms(2,3) True c u show ?thesis by (simp add: word_less_nat_alt)
  next
    case False
    with assms(1) have c: "i = last (free_list a)" "a' = a\<lparr>free_list := butlast (free_list a)\<rparr>" by (auto simp: id_alloc_def)
    then have "mset (free_list a) = add_mset i (mset (free_list a'))"
      using arg_cong [OF append_butlast_last_id [OF False], of mset] by simp
    then have "add_mset i N + mset (free_list a') \<subseteq># mset_set (?S a')" using assms(3) c(2) by simp
    moreover from set_mset_mono [OF this] have "i \<in> ?S a'" by simp
    ultimately show ?thesis using assms(2) c(2) by simp
  qed
  then show *: "add_mset i N + mset (free_list a') \<subseteq># mset_set (?S a')" "0 < id_next a'" "0 < i" by auto
  have "count (add_mset i N + mset (free_list a')) i \<le> count (mset_set (?S a')) i" using *(1) by (rule mset_subset_eq_count)
  also have "\<dots> \<le> 1" by (simp add: count_mset_set')
  finally show "i \<notin># N" by (simp add: not_in_iff)
qed

text \<open>The loop that maps the stack: each page was unmapped, each frame was free, and the frames differ.\<close>

lemma add_mset_set_subset:
  assumes "insert x A \<subseteq> B" "x \<notin> A" "finite B" shows "add_mset x (mset_set A) \<subseteq># mset_set B"
proof -
  have "finite A" using assms finite_subset by auto
  then show ?thesis using subset_imp_msubset_mset_set [OF assms(1,3)] assms(2) by simp
qed

lemma map_stack_result:
  assumes "mapper_ok map_to mapped" "for_each (map_stack_page map_to bottom) is (fr, pt, k) = Some (fr', pt', k')"
    "frame_allocator k = Some fa" "fa_wf fa" "N + mset (map frame_number fr) \<subseteq># mset_set ({..<total_frames fa} - free_frames fa)"
  shows "\<exists>fa'. k' = k\<lparr>frame_allocator := Some fa'\<rparr> \<and> fa_wf fa' \<and> length fr' = length fr + length is
    \<and> N + mset (map frame_number fr') \<subseteq># mset_set ({..<total_frames fa'} - free_frames fa')
    \<and> mapped pt \<inter> (\<lambda>i. bottom + of_nat i * PAGE_SIZE) ` set is = {}
    \<and> mapped pt' = mapped pt \<union> (\<lambda>i. bottom + of_nat i * PAGE_SIZE) ` set is"
  using assms(2-5)
proof (induction "is" arbitrary: fr pt k fa)
  case Nil
  then show ?case by (intro exI [of _ fa]) auto
next
  case (Cons i "is")
  from Cons.prems(1) obtain u where u: "map_stack_page map_to bottom i (fr, pt, k) = Some u" "for_each (map_stack_page map_to bottom) is u = Some (fr', pt', k')"
    by (auto split: bind_splits)
  then obtain f pt1 k1 where step: "alloc_and_map map_to (bottom + of_nat i * PAGE_SIZE) stack_flags (pt, k) = Some (f, pt1, k1)"
    and rest: "for_each (map_stack_page map_to bottom) is (fr @ [start_address f], pt1, k1) = Some (fr', pt', k')"
    using u(1) by (auto simp: map_stack_page_def [of _ _ i] checked_add_Some_iff checked_mul_def split: bind_splits if_splits)
  from alloc_and_map_result [OF assms(1) Cons.prems(2,3) step] obtain fa1 where fa1:
    "k1 = k\<lparr>frame_allocator := Some fa1\<rparr>" "fa_wf fa1" "total_frames fa1 = total_frames fa" "frame_index f \<in> free_frames fa"
    "free_frames fa1 \<subseteq> free_frames fa - {frame_index f}" "bottom + of_nat i * PAGE_SIZE \<notin> mapped pt"
    "mapped pt1 = insert (bottom + of_nat i * PAGE_SIZE) (mapped pt)" by metis
  let ?U = "\<lambda>fa. {..<total_frames fa} - free_frames fa"
  have idx: "frame_number (start_address f) = frame_index f" by (simp add: frame_index_def frame_number_def)
  have "frame_index f < total_frames fa" using fa1(4) fs.avail_bound [OF Cons.prems(3)] by auto
  then have "insert (frame_index f) (?U fa) \<subseteq> ?U fa1" "frame_index f \<notin> ?U fa" using fa1(3-5) by auto
  then have "add_mset (frame_index f) (mset_set (?U fa)) \<subseteq># mset_set (?U fa1)" by (intro add_mset_set_subset) simp_all
  moreover have "N + mset (map frame_number (fr @ [start_address f])) \<subseteq># add_mset (frame_index f) (mset_set (?U fa))"
    using Cons.prems(4) idx by simp
  ultimately have "N + mset (map frame_number (fr @ [start_address f])) \<subseteq># mset_set (?U fa1)" by (rule subset_mset.order_trans [rotated])
  from Cons.IH [OF rest _ fa1(2) this] fa1 show ?case by auto
qed

definition new_task_pages :: "u64 \<Rightarrow> u64 set" where
  "new_task_pages i = (case stack_bottom i of None \<Rightarrow> {} | Some b \<Rightarrow> (\<lambda>j. b + of_nat j * PAGE_SIZE) ` {..<4})"

lemma task_new_result:
  assumes "mapper_ok map_to mapped" "resources_ok M k" "task_new map_to tr name pri entry (pt, k) = Some (t, pt', k')"
  shows "resources_ok (add_mset (footprint t) M) k'" "task_id t \<notin># image_mset fst M" "0 < task_id t" "state t = Ready"
    "cpu k' = cpu k" "length (stack_frames t) = 4" "mapped pt \<inter> new_task_pages (task_id t) = {}"
    "mapped pt' = mapped pt \<union> new_task_pages (task_id t)" "priority t = pri"
    "stack_bottom (task_id t) \<noteq> None"
proof -
  from assms(3) obtain ids bottom top fr where
    a: "id_alloc (id_allocator k) = Some (task_id t, ids)" and b: "stack_bottom (task_id t) = Some bottom"
    and loop: "for_each (map_stack_page map_to bottom) [0..<unat STACK_PAGES] ([], pt, k\<lparr>id_allocator := ids\<rparr>) = Some (fr, pt', k')"
    and t: "stack_frames t = fr" "state t = Ready" "priority t = pri"
    by (auto simp: task_new_def split: bind_splits)
  from assms(2) obtain fa where fa: "frame_allocator k = Some fa" "fa_wf fa"
    "stack_indices M \<subseteq># mset_set ({..<total_frames fa} - free_frames fa)"
    and i: "0 < id_next (id_allocator k)"
      "image_mset fst M + mset (free_list (id_allocator k)) \<subseteq># mset_set {i. 0 < i \<and> i < id_next (id_allocator k)}"
    by (auto simp: resources_ok_def)
  note ids = id_alloc_result [OF a i]
  have pages_set: "set [0..<unat STACK_PAGES] = {..<4}" "length [0..<unat STACK_PAGES] = 4" by (auto simp: STACK_PAGES_def)
  have "frame_allocator (k\<lparr>id_allocator := ids\<rparr>) = Some fa" using fa(1) by simp
  moreover have "stack_indices M + mset (map frame_number []) \<subseteq># mset_set ({..<total_frames fa} - free_frames fa)" using fa(3) by simp
  ultimately have "\<exists>fa'. k' = k\<lparr>id_allocator := ids, frame_allocator := Some fa'\<rparr> \<and> fa_wf fa' \<and> length fr = 4
    \<and> stack_indices M + mset (map frame_number fr) \<subseteq># mset_set ({..<total_frames fa'} - free_frames fa')
    \<and> mapped pt \<inter> (\<lambda>i. bottom + of_nat i * PAGE_SIZE) ` {..<4} = {}
    \<and> mapped pt' = mapped pt \<union> (\<lambda>i. bottom + of_nat i * PAGE_SIZE) ` {..<4}"
    using map_stack_result [OF assms(1) loop _ fa(2), of "stack_indices M"] unfolding pages_set list.size add_0 by (simp only: mp)
  then obtain fa' where fa':
    "k' = k\<lparr>id_allocator := ids, frame_allocator := Some fa'\<rparr>" "fa_wf fa'" "length fr = 4"
    "stack_indices M + mset (map frame_number fr) \<subseteq># mset_set ({..<total_frames fa'} - free_frames fa')"
    "mapped pt \<inter> (\<lambda>i. bottom + of_nat i * PAGE_SIZE) ` {..<4} = {}"
    "mapped pt' = mapped pt \<union> (\<lambda>i. bottom + of_nat i * PAGE_SIZE) ` {..<4}" by (elim exE conjE)
  have pages: "new_task_pages (task_id t) = (\<lambda>i. bottom + of_nat i * PAGE_SIZE) ` {..<4}" by (simp only: new_task_pages_def b option.case)
  show "mapped pt \<inter> new_task_pages (task_id t) = {}" "mapped pt' = mapped pt \<union> new_task_pages (task_id t)"
    unfolding pages by (fact fa'(5), fact fa'(6))
  show "cpu k' = cpu k" "length (stack_frames t) = 4" "state t = Ready" "priority t = pri" "stack_bottom (task_id t) \<noteq> None"
    using fa'(1,3) t b by simp_all
  show "0 < task_id t" "task_id t \<notin># image_mset fst M" by (fact ids(3), fact ids(4))
  show "resources_ok (add_mset (footprint t) M) k'"
    unfolding resources_ok_def
  proof (intro conjI exI [of _ fa'])
    show "stack_indices (add_mset (footprint t) M) \<subseteq># mset_set ({..<total_frames fa'} - free_frames fa')"
      using fa'(4) t(1) by (simp add: footprint_def add.commute)
  qed (use fa'(1,2) ids(1,2) in \<open>simp_all add: footprint_def\<close>)
qed

section \<open>The invariant over the life of the tasks\<close>

definition kern_ok :: "kernel \<Rightarrow> bool" where
  [wf_defs]: "kern_ok k \<longleftrightarrow> sched_wf (sched (cpu k)) \<and> resources_ok (footprints (sched (cpu k))) k \<and> length (contexts (cpu k)) = MAX_TASKS"

text \<open>Operations that leave the tasks alone keep the invariant as long as they only take frames.\<close>

lemma resources_ok_shrink:
  assumes "resources_ok M k" "id_allocator k' = id_allocator k" "frame_allocator k = Some fa" "frame_allocator k' = Some fa'"
    "fa_wf fa'" "total_frames fa' = total_frames fa" "free_frames fa' \<subseteq> free_frames fa"
  shows "resources_ok M k'"
proof -
  let ?U = "\<lambda>fa. {..<total_frames fa} - free_frames fa"
  have "mset_set (?U fa) \<subseteq># mset_set (?U fa')" by (rule subset_imp_msubset_mset_set) (use assms in auto)
  moreover have "stack_indices M \<subseteq># mset_set (?U fa)" using assms(1,3) by (auto simp: resources_ok_def)
  ultimately have "stack_indices M \<subseteq># mset_set (?U fa')" by (rule subset_mset.order_trans [rotated])
  with assms(1,2,4,5) show ?thesis by (simp add: resources_ok_def)
qed

lemma resources_ok_cong:
  "id_allocator k' = id_allocator k \<Longrightarrow> frame_allocator k' = frame_allocator k \<Longrightarrow> resources_ok M k' = resources_ok M k"
  by (simp add: resources_ok_def)

lemma kern_ok_unblock: "kern_ok k \<Longrightarrow> kern_ok (try_unblock i k)"
  using unblock_footprints [of "sched (cpu k)" i] sched_wf_unblock [of "sched (cpu k)" i]
    resources_ok_cong [of "try_unblock i k" k]
  by (auto simp: kern_ok_def sched_wf_def try_unblock_def)

lemma kern_ok_create:
  assumes "mapper_ok map_to mapped" "kern_ok k" "task_new map_to tr name pri entry (pt, k) = Some (t, pt', k1)" "k_spawn t k1 = Some k2"
  shows "kern_ok k2 \<and> footprints (sched (cpu k2)) = add_mset (footprint t) (footprints (sched (cpu k)))"
proof -
  let ?s = "sched (cpu k)"
  have ok: "sched_wf ?s" "resources_ok (footprints ?s) k" "length (contexts (cpu k)) = MAX_TASKS" using assms(2) by (auto simp: kern_ok_def)
  note new = task_new_result [OF assms(1) ok(2) assms(3)]
  have fresh: "task_id t \<notin> set (task_ids ?s)" using new(2) by (simp flip: mset_task_ids)
  have pos: "0 < unat (task_id t)" using new(3) by (simp add: word_less_nat_alt)
  note sp = sched_spawn_result [OF ok(1,3) new(4) pos fresh]
  have lt: "unat (task_id t) < MAX_TASKS" by (rule ccontr) (use assms(4) sp(2) new(5) in \<open>simp add: k_spawn_def\<close>)
  from sp(1) [OF lt] assms(4) new(5) have k2: "k2 = k1\<lparr>cpu := (cpu k)\<lparr>contexts := (contexts (cpu k))[unat (task_id t) := task_context t], sched := push_ready t ?s\<rparr>\<rparr>"
    and wf: "sched_wf (push_ready t ?s)" by (auto simp: k_spawn_def)
  have f: "footprints (push_ready t ?s) = add_mset (footprint t) (footprints ?s)"
    using push_ready_footprints ok(1) by (simp add: sched_wf_def queue_ok_def)
  have "resources_ok (footprints (push_ready t ?s)) k2"
    using new(1) resources_ok_cong [of k2 k1] k2 f by simp
  with k2 wf f ok(3) show ?thesis by (simp add: kern_ok_def)
qed

text \<open>Yielding, blocking and exiting all go through \<open>yield_now\<close> after a change of the current task's state.\<close>

lemma kern_ok_yield:
  assumes "kern_ok k" "footprints (sched p) = footprints (sched (cpu k))" "sched_wf (sched p)" "length (contexts p) = MAX_TASKS"
  obtains sw p' k' where "yield_now ret cleanup_dead_task (p, k) = Some (sw, p', k')" "kern_ok (k'\<lparr>cpu := p'\<rparr>)"
    "sw \<longleftrightarrow> current (sched p') \<noteq> None \<and> current_id (sched p') \<noteq> current_id (sched p)"
proof -
  have "resources_ok (footprints (sched p)) k" using assms(1,2) by (simp add: kern_ok_def)
  from kse.yield_now_inv [OF assms(3) this assms(4), of ret] obtain sw p' k' where y: "yield_now ret cleanup_dead_task (p, k) = Some (sw, p', k')"
    "sched_wf (sched p')" "resources_ok (footprints (sched p')) k'" "length (contexts p') = MAX_TASKS"
    "sw \<longleftrightarrow> current (sched p') \<noteq> None \<and> current_id (sched p') \<noteq> current_id (sched p)" by metis
  then have "kern_ok (k'\<lparr>cpu := p'\<rparr>)" using resources_ok_cong [of "k'\<lparr>cpu := p'\<rparr>" k'] by (simp add: kern_ok_def)
  with y that show thesis by blast
qed

lemma kern_ok_sched:
  assumes "kern_ok k"
  shows "\<exists>sw k'. k_yield_now ret k = Some (sw, k') \<and> kern_ok k'"
    and "\<exists>sw k'. k_block_and_yield ret k = Some (sw, k') \<and> kern_ok k'"
    and "k_exit_current ret k = Some k' \<Longrightarrow> kern_ok k'"
proof -
  have ok: "sched_wf (sched (cpu k))" "length (contexts (cpu k)) = MAX_TASKS" using assms by (auto simp: kern_ok_def)
  let ?b = "(cpu k)\<lparr>interrupts_on := False, sched := block_current (sched (cpu k))\<rparr>"
  let ?x = "(cpu k)\<lparr>interrupts_on := False, sched := kill_current (sched (cpu k))\<rparr>"
  have f: "footprints (sched ?b) = footprints (sched (cpu k))" "footprints (sched ?x) = footprints (sched (cpu k))"
    using current_state_footprints by (simp_all add: block_current_def kill_current_def)
  have wf: "sched_wf (sched ?b)" "sched_wf (sched ?x)" "length (contexts ?b) = MAX_TASKS" "length (contexts ?x) = MAX_TASKS"
    using sched_wf_block_kill [OF ok(1)] ok(2) by simp_all
  obtain sw p k1 where "yield_now ret cleanup_dead_task (cpu k, k) = Some (sw, p, k1)" "kern_ok (k1\<lparr>cpu := p\<rparr>)"
    by (rule kern_ok_yield [OF assms refl ok])
  then show "\<exists>sw k'. k_yield_now ret k = Some (sw, k') \<and> kern_ok k'" by (simp add: k_yield_now_def)
  obtain sw p k1 where "yield_now ret cleanup_dead_task (?b, k) = Some (sw, p, k1)" "kern_ok (k1\<lparr>cpu := p\<rparr>)"
    by (rule kern_ok_yield [OF assms f(1) wf(1,3)])
  then show "\<exists>sw k'. k_block_and_yield ret k = Some (sw, k') \<and> kern_ok k'" by (simp add: k_block_and_yield_def block_and_yield_def)
  obtain sw p k1 where "yield_now ret cleanup_dead_task (?x, k) = Some (sw, p, k1)" "kern_ok (k1\<lparr>cpu := p\<rparr>)"
    by (rule kern_ok_yield [OF assms f(2) wf(2,4)])
  then show "kern_ok k'" if "k_exit_current ret k = Some k'"
    using that by (auto simp: k_exit_current_def exit_current_def split: if_splits)
qed

lemma reschedule_dead:
  assumes "reschedule cleanup (s, k) = Some (ids, s', k')" "current s = Some t" "state t = TaskState.Dead"
  shows "cleanup t k = Some k'"
  using assms by (auto simp: reschedule_def put_back_def Let_def split: bind_splits prod.splits)

lemma exit_current_eq:
  assumes "kern_ok k" "current (sched (cpu k)) = Some t"
  obtains k1 where "cleanup_dead_task (t\<lparr>state := TaskState.Dead\<rparr>) k = Some k1"
    "\<forall>k'. k_exit_current ret k = Some k' \<longrightarrow> (\<exists>p. k' = k1\<lparr>cpu := p\<rparr> \<and>
       current (sched p) = map_option (\<lambda>u. u\<lparr>state := TaskState.Running\<rparr>) (first_ready (sched (cpu k))))"
    "(k_exit_current ret k = None) = (first_ready (sched (cpu k)) = None)"
proof -
  have ok: "sched_wf (sched (cpu k))" "length (contexts (cpu k)) = MAX_TASKS" using assms by (auto simp: kern_ok_def)
  let ?x = "(cpu k)\<lparr>interrupts_on := False, sched := kill_current (sched (cpu k))\<rparr>"
  have f: "footprints (sched ?x) = footprints (sched (cpu k))"
    using current_state_footprints by (simp add: kill_current_def)
  have wf: "sched_wf (sched ?x)" "length (contexts ?x) = MAX_TASKS" using sched_wf_block_kill [OF ok(1)] ok(2) by simp_all
  have cur: "current (sched ?x) = Some (t\<lparr>state := TaskState.Dead\<rparr>)" "queues (sched ?x) = queues (sched (cpu k))"
    using assms(2) by (simp_all add: kill_current_def)
  obtain sw p k1 where y: "yield_now ret cleanup_dead_task (?x, k) = Some (sw, p, k1)"
    and sw: "sw \<longleftrightarrow> current (sched p) \<noteq> None \<and> current_id (sched p) \<noteq> current_id (sched ?x)"
    by (rule kern_ok_yield [OF assms(1) f wf])
  then obtain ids s' where r: "reschedule cleanup_dead_task (sched ?x, k) = Some (ids, s', k1)" and s': "sched p = s'"
    by (auto simp: yield_now_def switch_to_def Let_def split: bind_splits prod.splits if_splits)
  have fr: "first_ready (sched ?x) = first_ready (sched (cpu k))" by (simp only: first_ready_def cur(2))
  have cur': "current (sched p) = map_option (\<lambda>u. u\<lparr>state := TaskState.Running\<rparr>) (first_ready (sched (cpu k)))"
    using reschedule_current [OF wf(1) r] s' cur(1) fr by (simp split: option.splits)
  have "current_id (sched p) \<noteq> current_id (sched ?x)" if u: "first_ready (sched (cpu k)) = Some u" for u
  proof -
    from u obtain q qs where q: "filter (\<lambda>q. q \<noteq> []) (queues (sched (cpu k))) = q # qs" "u = hd q"
      by (auto simp: first_ready_def split: list.splits)
    then have "q \<in> set (filter (\<lambda>q. q \<noteq> []) (queues (sched (cpu k))))" by simp
    then have "q \<in> set (queues (sched ?x))" "u \<in> set q" unfolding cur(2) using q(2) by simp_all
    then have "unat (task_id u) \<noteq> current_id (sched ?x)" using ready_ids [of "sched ?x"] wf(1) by (auto simp: sched_wf_def)
    with cur' u show ?thesis by (simp add: current_id_def)
  qed
  with sw cur' have sw': "sw \<longleftrightarrow> first_ready (sched (cpu k)) \<noteq> None" by auto
  have c: "cleanup_dead_task (t\<lparr>state := TaskState.Dead\<rparr>) k = Some k1" by (rule reschedule_dead [OF r cur(1)]) simp
  show thesis
    by (rule that [OF c]) (use y sw' cur' in \<open>auto simp: k_exit_current_def exit_current_def\<close>)
qed

lemma cleanup_state [simp]: "cleanup_dead_task (t\<lparr>state := x\<rparr>) k = cleanup_dead_task t k"
  by (cases "frame_allocator k") (simp_all add: cleanup_dead_task_def)

lemma cleanup_result:
  assumes "cleanup_dead_task t k = Some k'" "frame_allocator k = Some fa" "fa_wf fa" "\<forall>a \<in> set (stack_frames t). frame_number a < total_frames fa"
  obtains fa' where "frame_allocator k' = Some fa'" "free_frames fa' = free_frames fa \<union> frame_number ` set (stack_frames t)"
    "bt_get (mailboxes k') = (bt_get (mailboxes k))(task_id t := None)" "free_list (id_allocator k') = free_list (id_allocator k) @ [task_id t]"
    "cap_table k' = cap_table k"
proof -
  from free_stack [OF assms(3,4)] obtain fa' where fa': "for_each (\<lambda>a. free_frame (containing_address a)) (stack_frames t) fa = Some fa'"
    "free_frames fa' = free_frames fa \<union> frame_number ` set (stack_frames t)" by blast
  with assms(1,2) have k': "k' = k\<lparr>frame_allocator := Some fa', mailboxes := bt_remove (task_id t) (mailboxes k),
      id_allocator := id_free (task_id t) (id_allocator k)\<rparr>"
    by (auto simp: cleanup_dead_task_def unregister_mailbox_def)
  show thesis by (rule that [of fa']) (use fa'(2) in \<open>auto simp: k' id_free_def\<close>)
qed

section \<open>Properties\<close>


end
