(* ===== verification/Ipc_Theorems.thy ===== *)
theory Ipc_Theorems
  imports Kernel_Ipc
begin

text \<open>
  What the IPC operations do to the kernel's tables, case by case; the invariant they keep; and the
  properties of messages, channels, requests and shared memory.
\<close>

section \<open>Frame lemmas\<close>

lemma try_unblock_sel [simp]:
  "cap_table (try_unblock i k) = cap_table k" "frame_allocator (try_unblock i k) = frame_allocator k"
  "id_allocator (try_unblock i k) = id_allocator k"
  "mailboxes (try_unblock i k) = mailboxes k" "next_msg_id (try_unblock i k) = next_msg_id k" "channels (try_unblock i k) = channels k"
  "pending (try_unblock i k) = pending k" "pending_locked (try_unblock i k) = pending_locked k" "replies (try_unblock i k) = replies k"
  "shared_regions (try_unblock i k) = shared_regions k" "registry (try_unblock i k) = registry k" "ticks (try_unblock i k) = ticks k"
  "sched_locked (try_unblock i k) = sched_locked k" "fs (try_unblock i k) = fs k" "contexts_store (try_unblock i k) = contexts_store k"
  "gpu (try_unblock i k) = gpu k" "deadlines (try_unblock i k) = deadlines k"
  by (simp_all add: try_unblock_def)

lemma transfer_cap_cases:
  assumes "transfer_cap s r ct k = Some (res, k')"
  obtains t where "k' = k\<lparr>cap_table := t\<rparr>" "cap_step\<^sup>*\<^sup>* (cap_table k) t" "\<forall>e. res = Inl e \<longrightarrow> e = InvalidCapTransfer \<and> k' = k"
proof (cases ct)
  case None
  with assms show thesis by (intro that [of "cap_table k"]) (auto simp: transfer_cap_def)
next
  case (Some c)
  show thesis
  proof (cases "cap_get (cap_table k) c")
    case (Inl e)
    with assms Some show thesis by (intro that [of "cap_table k"]) (auto simp: transfer_cap_def)
  next
    case (Inr cap)
    with assms Some obtain q t where d: "cap_delegate c s r (permissions cap) None (cap_table k) = Some (q, t)"
      and k': "k' = k\<lparr>cap_table := t\<rparr>" and res: "res = (case q of Inl _ \<Rightarrow> Inl InvalidCapTransfer | Inr _ \<Rightarrow> Inr ())"
      by (auto simp: transfer_cap_def Let_def split: bind_splits sum.splits)
    have "cap_step\<^sup>*\<^sup>* (cap_table k) t" using cap_step.delegate [OF d] by simp
    moreover have "t = cap_table k" if "q = Inl x" for x using cap_delegate_Inl d that by blast
    ultimately show thesis by (intro that [of t]) (use k' res in \<open>auto split: sum.splits\<close>)
  qed
qed

text \<open>\<open>send\<close> in five cases, the message it makes named once.\<close>

definition message_of :: "u64 \<Rightarrow> u64 \<Rightarrow> MessageType \<Rightarrow> u8 list \<Rightarrow> u64 option \<Rightarrow> u64 option \<Rightarrow> u64 \<Rightarrow> Message" where
  "message_of s r ty pl ct rt i =
     \<lparr>msg_id = i, sender = s, recipient = r, msg_type = ty, payload = pl, cap_transfer = ct, reply_to = rt\<rparr>"

lemma recipient_message_of [simp]: "recipient (message_of s r ty pl ct rt i) = r" "msg_id (message_of s r ty pl ct rt i) = i"
  by (simp_all add: message_of_def)

lemma send_cases:
  assumes "send s r ty pl ct rt cap k = Some (res, k')"
  obtains (denied) e where "cap_validate (cap_table k) cap s WRITE = Inl e" "res = Inl CapabilityDenied" "k' = k"
  | (transfer) c where "cap_validate (cap_table k) cap s WRITE = Inr c" "transfer_cap s r ct k = Some (Inl InvalidCapTransfer, k)"
      "res = Inl InvalidCapTransfer" "k' = k"
  | (no_mailbox) c t where "cap_validate (cap_table k) cap s WRITE = Inr c" "transfer_cap s r ct k = Some (Inr (), k\<lparr>cap_table := t\<rparr>)"
      "cap_step\<^sup>*\<^sup>* (cap_table k) t" "bt_get (mailboxes k) r = None"
      "res = Inl RecipientNotFound" "k' = k\<lparr>cap_table := t, next_msg_id := next_msg_id k + 1\<rparr>"
  | (full) c t q where "cap_validate (cap_table k) cap s WRITE = Inr c" "transfer_cap s r ct k = Some (Inr (), k\<lparr>cap_table := t\<rparr>)"
      "cap_step\<^sup>*\<^sup>* (cap_table k) t" "bt_get (mailboxes k) r = Some q" "MAILBOX_CAPACITY \<le> length q"
      "res = Inl MailboxFull" "k' = k\<lparr>cap_table := t, next_msg_id := next_msg_id k + 1\<rparr>"
  | (sent) c t q where "cap_validate (cap_table k) cap s WRITE = Inr c" "transfer_cap s r ct k = Some (Inr (), k\<lparr>cap_table := t\<rparr>)"
      "cap_step\<^sup>*\<^sup>* (cap_table k) t" "bt_get (mailboxes k) r = Some q" "length q < MAILBOX_CAPACITY"
      "res = Inr (next_msg_id k)"
      "k' = try_unblock r (k\<lparr>cap_table := t, next_msg_id := next_msg_id k + 1,
              mailboxes := bt_insert r (q @ [message_of s r ty pl ct rt (next_msg_id k)]) (mailboxes k)\<rparr>)"
proof (cases "cap_validate (cap_table k) cap s WRITE")
  case (Inl e)
  show thesis by (rule denied [OF Inl]) (use assms Inl in \<open>simp_all add: send_def\<close>)
next
  case (Inr c)
  with assms obtain r1 k1 where t: "transfer_cap s r ct k = Some (r1, k1)"
    by (auto simp: send_def split: bind_splits)
  show thesis
  proof (cases r1)
    case (Inl e)
    with t have e: "e = InvalidCapTransfer" "k1 = k" by (auto elim: transfer_cap_cases)
    show thesis by (rule transfer [OF Inr]) (use assms Inr t Inl e in \<open>simp_all add: send_def\<close>)
  next
    case r1: (Inr u)
    from t obtain t' where k1: "k1 = k\<lparr>cap_table := t'\<rparr>" "cap_step\<^sup>*\<^sup>* (cap_table k) t'"
      by (rule transfer_cap_cases)
    have res: "(res, k') = deliver (message_of s r ty pl ct rt (next_msg_id k)) (k\<lparr>cap_table := t', next_msg_id := next_msg_id k + 1\<rparr>)"
      using assms Inr t r1 k1 by (simp add: send_def next_message_id_def message_of_def)
    show thesis
    proof (cases "bt_get (mailboxes k) r")
      case None
      show thesis by (rule no_mailbox [OF Inr _ k1(2) None]) (use None res t r1 k1(1) in \<open>simp_all add: deliver_def\<close>)
    next
      case (Some q)
      show thesis
      proof (cases "MAILBOX_CAPACITY \<le> length q")
        case True
        show thesis by (rule full [OF Inr _ k1(2) Some True])
            (use Some True res t r1 k1(1) in \<open>simp_all add: deliver_def mailbox_push_def\<close>)
      next
        case False
        show thesis by (rule sent [OF Inr _ k1(2) Some])
            (use Some False res t r1 k1(1) in \<open>simp_all add: deliver_def mailbox_push_def\<close>)
      qed
    qed
  qed
qed

lemma request_cases:
  assumes "request s r pl cap d k = Some (res, k')"
  obtains (failed) e where "send s r Request pl None None cap k = Some (Inl e, k')" "res = Inl e"
  | (denied) "res = Inl CapabilityDenied" "k' = k"
  | (asked) i k1 t where "send s r Request pl None None cap k = Some (Inr i, k1)" "res = Inr i" "checked_add (ticks k1) d = Some t"
      "k' = k1\<lparr>pending := bt_insert i \<lparr>requester = s, request_deadline = t\<rparr> (pending k1)\<rparr>"
  using assms by (auto simp: request_def split: sum.splits bind_splits)

text \<open>A transfer with no capability leaves the table alone.\<close>

lemma transfer_cap_None [simp]: "transfer_cap s r None k = Some (Inr (), k)"
  by (simp add: transfer_cap_def)

section \<open>Publishing\<close>

definition post :: "u64 \<Rightarrow> u8 list \<Rightarrow> u64 \<Rightarrow> Message" where
  "post s pl t = message_of s t Data pl None None 0"

lemma recipient_post [simp]: "recipient (post s pl t) = t"
  by (simp add: post_def)

lemma publish_to_mailboxes:
  "bt_get (mailboxes (publish_to s pl t k)) u =
     (if u = t then map_option (\<lambda>q. snd (mailbox_push (post s pl t) q)) (bt_get (mailboxes k) u) else bt_get (mailboxes k) u)"
  by (simp add: publish_to_def post_def message_of_def Let_def split: option.splits)

lemma publish_to_frame:
  obtains m where "publish_to s pl t k = k\<lparr>mailboxes := m\<rparr>"
  by (cases "bt_get (mailboxes k) t") (auto simp: publish_to_def Let_def intro: that [of "mailboxes k"])

lemma fold_publish_frame:
  "\<exists>m. fold (publish_to s pl) ts k = k\<lparr>mailboxes := m\<rparr>"
proof (induction ts arbitrary: k)
  case Nil
  show ?case by (rule exI [of _ "mailboxes k"]) simp
next
  case (Cons t ts)
  obtain m where "publish_to s pl t k = k\<lparr>mailboxes := m\<rparr>" by (rule publish_to_frame)
  with Cons [of "k\<lparr>mailboxes := m\<rparr>"] show ?case by simp
qed

lemma fold_publish_mailboxes:
  "distinct ts \<Longrightarrow> bt_get (mailboxes (fold (publish_to s pl) ts k)) u =
     (if u \<in> set ts then map_option (\<lambda>q. snd (mailbox_push (post s pl u) q)) (bt_get (mailboxes k) u)
      else bt_get (mailboxes k) u)"
  by (induction ts arbitrary: k) (auto simp: publish_to_mailboxes)

lemma fold_publish_wf: "bt_wf (mailboxes k) \<Longrightarrow> bt_wf (mailboxes (fold (publish_to s pl) ts k))"
  by (induction ts arbitrary: k) (auto simp: publish_to_def Let_def split: option.splits)

section \<open>Runs of IPC calls\<close>

text \<open>
  Every operation of \<^verbatim>\<open>ipc/\<close> as a call, and what a run of calls shows to an observer of the
  mailboxes: the messages accepted for delivery, the messages taken out, and the mailboxes that were
  created or destroyed.
\<close>

datatype (plugins only: code size) ipc_call =
    Do_register u64 | Do_unregister u64
  | Do_send u64 u64 MessageType "u8 list" "u64 option" "u64 option" u64 | Do_receive u64
  | Do_create string | Do_subscribe string u64 u64 | Do_unsubscribe string u64 | Do_publish string u64 "u8 list" u64
  | Do_request u64 u64 "u8 list" u64 u64 | Do_reply u64 u64 "u8 list" u64 | Do_collect u64 | Do_timeouts
  | Do_region u64 u64 | Do_grant u64 u64 u64 u64

datatype ipc_event = Accepted Message | Taken u64 Message | Reset u64

definition has_room :: "kernel \<Rightarrow> u64 \<Rightarrow> bool" where
  "has_room k t = (case bt_get (mailboxes k) t of None \<Rightarrow> False | Some q \<Rightarrow> length q < MAILBOX_CAPACITY)"

definition audience :: "kernel \<Rightarrow> string \<Rightarrow> u64 \<Rightarrow> u64 list" where
  "audience k name s = (case bt_get (channels k) name of None \<Rightarrow> [] | Some ch \<Rightarrow> filter (\<lambda>t. t \<noteq> s) (map fst (subscribers ch)))"

fun ipc_do :: "ipc_call \<Rightarrow> kernel \<Rightarrow> (ipc_event list \<times> kernel) option" where
  "ipc_do (Do_register t) k = Some ([Reset t], register_mailbox t k)"
| "ipc_do (Do_unregister t) k = Some ([Reset t], unregister_mailbox t k)"
| "ipc_do (Do_send s r ty pl ct rt cap) k =
     map_option (\<lambda>(res, k'). (case res of Inl _ \<Rightarrow> [] | Inr i \<Rightarrow> [Accepted (message_of s r ty pl ct rt i)], k')) (send s r ty pl ct rt cap k)"
| "ipc_do (Do_receive t) k =
     (case receive t k of (m, k') \<Rightarrow> Some (case m of None \<Rightarrow> [] | Some m \<Rightarrow> [Taken t m], k'))"
| "ipc_do (Do_create name) k = Some ([], snd (channel_create name k))"
| "ipc_do (Do_subscribe name t cap) k = map_option (\<lambda>(_, k'). ([], k')) (subscribe name t cap k)"
| "ipc_do (Do_unsubscribe name t) k = Some ([], snd (unsubscribe name t k))"
| "ipc_do (Do_publish name s pl cap) k =
     map_option (\<lambda>(res, k'). (case res of Inl _ \<Rightarrow> [] | Inr _ \<Rightarrow> map (\<lambda>t. Accepted (post s pl t)) (filter (has_room k) (audience k name s)), k'))
       (publish name s pl cap k)"
| "ipc_do (Do_request s r pl cap d) k =
     map_option (\<lambda>(res, k'). (case res of Inl _ \<Rightarrow> [] | Inr i \<Rightarrow> [Accepted (message_of s r Request pl None None i)], k')) (request s r pl cap d k)"
| "ipc_do (Do_reply s i pl cap) k = Some ([], snd (reply s i pl cap k))"
| "ipc_do (Do_collect i) k = Some ([], snd (collect_reply i k))"
| "ipc_do Do_timeouts k = Some ([], check_timeouts k)"
| "ipc_do (Do_region own sz) k = map_option (\<lambda>(_, k'). ([], k')) (create_region own sz k)"
| "ipc_do (Do_grant reg g h cap) k = map_option (\<lambda>(_, k'). ([], k')) (grant_access reg g h cap k)"

fun ipc_run :: "ipc_call list \<Rightarrow> kernel \<Rightarrow> (ipc_event list \<times> kernel) option" where
  "ipc_run [] k = Some ([], k)"
| "ipc_run (c # cs) k = do { (es, k) \<leftarrow> ipc_do c k; (es', k) \<leftarrow> ipc_run cs k; Some (es @ es', k) }"

fun accepted_by :: "u64 \<Rightarrow> ipc_event \<Rightarrow> Message list" where
  "accepted_by t (Accepted m) = (if recipient m = t then [m] else [])"
| "accepted_by t _ = []"

fun taken_by :: "u64 \<Rightarrow> ipc_event \<Rightarrow> Message list" where
  "taken_by t (Taken u m) = (if u = t then [m] else [])"
| "taken_by t _ = []"

definition sent_to :: "u64 \<Rightarrow> ipc_event list \<Rightarrow> Message list" where
  "sent_to t es = concat (map (accepted_by t) es)"

definition received_by :: "u64 \<Rightarrow> ipc_event list \<Rightarrow> Message list" where
  "received_by t es = concat (map (taken_by t) es)"

lemma sent_received [simp]:
  "sent_to t [] = []" "received_by t [] = []"
  "sent_to t (e # es) = accepted_by t e @ sent_to t es" "received_by t (e # es) = taken_by t e @ received_by t es"
  "sent_to t (es @ es') = sent_to t es @ sent_to t es'" "received_by t (es @ es') = received_by t es @ received_by t es'"
  by (simp_all add: sent_to_def received_by_def)

section \<open>The invariant of the IPC tables\<close>

definition ipc_wf :: "kernel \<Rightarrow> bool" where
  [wf_defs]: "ipc_wf k \<longleftrightarrow> bt_wf (mailboxes k) \<and> (\<forall>q \<in> ran (bt_get (mailboxes k)). length q \<le> MAILBOX_CAPACITY)
     \<and> (\<forall>ch \<in> ran (bt_get (channels k)). distinct (map fst (subscribers ch)))
     \<and> bt_wf (channels k) \<and> bt_wf (pending k) \<and> bt_wf (replies k) \<and> bt_wf (shared_regions k)"

lemma ran_insert_le: "ran (bt_get (bt_insert i v m)) \<subseteq> insert v (ran (bt_get m))"
  by (auto simp: ran_def)

lemma ran_remove_le: "ran (bt_get (bt_remove i m)) \<subseteq> ran (bt_get m)"
  by (auto simp: ran_def split: if_splits)

text \<open>The two parts of the invariant that speak of values, kept by one write to the table.\<close>

lemma ipc_wf_mailbox:
  "ipc_wf k \<Longrightarrow> length q \<le> MAILBOX_CAPACITY \<Longrightarrow> ipc_wf (k\<lparr>mailboxes := bt_insert t q (mailboxes k)\<rparr>)"
  using ran_insert_le [of t q "mailboxes k"] by (auto simp: ipc_wf_def)

lemma ipc_wf_channel:
  "ipc_wf k \<Longrightarrow> distinct (map fst (subscribers ch)) \<Longrightarrow> ipc_wf (k\<lparr>channels := bt_insert name ch (channels k)\<rparr>)"
  using ran_insert_le [of name ch "channels k"] by (auto simp: ipc_wf_def)

lemma ipc_wf_other [simp]:
  "ipc_wf (k\<lparr>cap_table := t\<rparr>) = ipc_wf k" "ipc_wf (k\<lparr>next_msg_id := i\<rparr>) = ipc_wf k" "ipc_wf (k\<lparr>frame_allocator := f\<rparr>) = ipc_wf k"
  "ipc_wf (k\<lparr>next_channel_id := i\<rparr>) = ipc_wf k" "ipc_wf (k\<lparr>next_region_id := i\<rparr>) = ipc_wf k" "ipc_wf (k\<lparr>cpu := c\<rparr>) = ipc_wf k"
  "ipc_wf (k\<lparr>ticks := n\<rparr>) = ipc_wf k" "ipc_wf (try_unblock i k) = ipc_wf k"
  by (simp_all add: ipc_wf_def)

lemma ipc_wf_tables:
  "ipc_wf k \<Longrightarrow> bt_wf p \<Longrightarrow> ipc_wf (k\<lparr>pending := p\<rparr>)" "ipc_wf k \<Longrightarrow> bt_wf r \<Longrightarrow> ipc_wf (k\<lparr>replies := r\<rparr>)"
  "ipc_wf k \<Longrightarrow> bt_wf g \<Longrightarrow> ipc_wf (k\<lparr>shared_regions := g\<rparr>)"
  by (simp_all add: ipc_wf_def)

lemma ipc_wf_sel:
  assumes "ipc_wf k"
  shows "bt_wf (mailboxes k)" "bt_wf (channels k)" "bt_wf (pending k)" "bt_wf (replies k)" "bt_wf (shared_regions k)"
    "bt_get (mailboxes k) t = Some q \<Longrightarrow> length q \<le> MAILBOX_CAPACITY"
    "bt_get (channels k) n = Some ch \<Longrightarrow> distinct (map fst (subscribers ch))"
  using assms by (auto simp: ipc_wf_def ran_def)

lemma ipc_wf_boot: "ipc_wf (kernel_boot r)"
  by (simp add: ipc_wf_def kernel_boot_def ran_def)

section \<open>Every call keeps the invariant\<close>

lemma send_ipc_wf:
  assumes "send s r ty pl ct rt cap k = Some (res, k')" "ipc_wf k" shows "ipc_wf k'"
  using assms(1)
proof (cases rule: send_cases)
  case (sent c t q)
  then show ?thesis
    using ipc_wf_mailbox [of "k\<lparr>cap_table := t, next_msg_id := next_msg_id k + 1\<rparr>" "q @ [message_of s r ty pl ct rt (next_msg_id k)]" r]
      assms(2) by simp
qed (use assms(2) in simp_all)

lemma request_ipc_wf:
  assumes "request s r pl cap d k = Some (res, k')" "ipc_wf k" shows "ipc_wf k'"
  using assms(1)
proof (cases rule: request_cases)
  case (asked i k1 t)
  have "ipc_wf k1" using send_ipc_wf asked(1) assms(2) by blast
  then show ?thesis using asked(4) ipc_wf_tables(1) ipc_wf_sel(3) bt_wf_insert by blast
qed (use assms(2) send_ipc_wf in blast)+

lemma expire_ipc_wf: "ipc_wf k \<Longrightarrow> ipc_wf (fold expire_request is k)"
proof (induction "is" arbitrary: k)
  case (Cons i "is")
  have "ipc_wf (expire_request i k)"
    using Cons.prems by (auto simp: expire_request_def ipc_wf_tables ipc_wf_sel split: option.splits)
  with Cons.IH show ?case by simp
qed simp

lemma publish_ipc_wf:
  assumes "publish name s pl cap k = Some (res, k')" "ipc_wf k" shows "ipc_wf k'"
proof -
  have "ipc_wf (fold (publish_to s pl) ts k)" if "ipc_wf k" for ts k
    using that
  proof (induction ts arbitrary: k)
    case (Cons t ts)
    have "ipc_wf (publish_to s pl t k)"
      using Cons.prems
      by (auto simp: publish_to_def Let_def intro!: ipc_wf_mailbox mailbox_push_bound split: option.splits dest: ipc_wf_sel(6))
    with Cons.IH show ?case by simp
  qed simp
  with assms show ?thesis by (auto simp: publish_def split: sum.splits option.splits)
qed

lemma receive_ipc_wf: "ipc_wf k \<Longrightarrow> ipc_wf (snd (receive t k))"
  by (auto simp: receive_def mailbox_pop_def intro!: ipc_wf_mailbox split: option.splits list.splits dest: ipc_wf_sel(6))

lemma channel_ipc_wf:
  assumes "ipc_wf k"
  shows "ipc_wf (snd (channel_create n k))" "ipc_wf (snd (unsubscribe n t k))"
    "subscribe n t cap k = Some (res, k') \<Longrightarrow> ipc_wf k'"
proof -
  show "ipc_wf (snd (channel_create n k))"
    using ipc_wf_channel [of "k\<lparr>next_channel_id := next_channel_id k + 1\<rparr>"] assms by (simp add: channel_create_def Let_def)
  show "ipc_wf (snd (unsubscribe n t k))"
    using assms by (auto simp: unsubscribe_def intro!: ipc_wf_channel distinct_map_filter split: option.splits dest: ipc_wf_sel(7))
  show "ipc_wf k'" if "subscribe n t cap k = Some (res, k')"
    using assms that by (auto simp: subscribe_def intro!: ipc_wf_channel split: option.splits sum.splits if_splits dest: ipc_wf_sel(7))
qed

lemma region_ipc_wf:
  assumes "ipc_wf k"
  shows "create_region own sz k = Some (res, k') \<Longrightarrow> ipc_wf k'" "grant_access reg g h cap k = Some (res', k') \<Longrightarrow> ipc_wf k'"
  using assms
  by (auto simp: create_region_def grant_access_def Let_def ipc_wf_tables ipc_wf_sel split: option.splits sum.splits bind_splits)

lemma reply_ipc_wf:
  assumes "ipc_wf k"
  shows "ipc_wf (snd (reply s i pl cap k))" "ipc_wf (snd (collect_reply i k))" "ipc_wf (check_timeouts k)"
proof -
  show "ipc_wf (snd (reply s i pl cap k))"
    using assms by (auto simp: reply_def Let_def ipc_wf_def split: option.splits)
  show "ipc_wf (snd (collect_reply i k))" "ipc_wf (check_timeouts k)"
    using assms expire_ipc_wf [OF assms] by (simp_all add: collect_reply_def ipc_wf_tables ipc_wf_sel check_timeouts_def)
qed

lemma mailbox_ipc_wf:
  assumes "ipc_wf k" shows "ipc_wf (register_mailbox t k)" "ipc_wf (unregister_mailbox t k)"
proof -
  show "ipc_wf (register_mailbox t k)"
    using ipc_wf_mailbox [OF assms] by (simp add: register_mailbox_def mailbox_new_def)
  show "ipc_wf (unregister_mailbox t k)"
    using assms ran_remove_le [of t "mailboxes k"] by (auto simp: unregister_mailbox_def ipc_wf_def)
qed

lemmas ipc_op_wf = send_ipc_wf request_ipc_wf publish_ipc_wf channel_ipc_wf region_ipc_wf reply_ipc_wf mailbox_ipc_wf

lemma ipc_do_wf: "ipc_do c k = Some (es, k') \<Longrightarrow> ipc_wf k \<Longrightarrow> ipc_wf k'"
  using receive_ipc_wf [of k] by (cases c) (auto intro: ipc_op_wf split: prod.splits simp: prod_eq_iff)

section \<open>Messages arrive once and in order\<close>

lemma send_inbox:
  assumes "send s r ty pl ct rt cap k = Some (res, k')"
  shows "bt_get (mailboxes k') t = (case res of Inl _ \<Rightarrow> bt_get (mailboxes k) t
     | Inr i \<Rightarrow> map_option (\<lambda>q. q @ accepted_by t (Accepted (message_of s r ty pl ct rt i))) (bt_get (mailboxes k) t))"
  using assms by (cases rule: send_cases) (auto simp: option.map_ident)

lemma request_inbox:
  assumes "request s r pl cap d k = Some (res, k')"
  shows "bt_get (mailboxes k') t = (case res of Inl _ \<Rightarrow> bt_get (mailboxes k) t
     | Inr i \<Rightarrow> map_option (\<lambda>q. q @ accepted_by t (Accepted (message_of s r Request pl None None i))) (bt_get (mailboxes k) t))"
  using assms by (cases rule: request_cases) (auto simp: send_inbox)

lemma expire_mailboxes [simp]: "mailboxes (fold expire_request is k) = mailboxes k"
  by (induction "is" arbitrary: k) (auto simp: expire_request_def split: option.splits)

lemma sent_to_posts:
  "distinct ts \<Longrightarrow> sent_to t (map (\<lambda>u. Accepted (post s pl u)) (filter P ts)) = (if t \<in> set ts \<and> P t then [post s pl t] else [])"
  by (induction ts) auto

lemma received_posts [simp]: "received_by t (map (\<lambda>u. Accepted (f u)) us) = []"
  by (induction us) auto

lemma publish_inbox:
  assumes "publish name s pl cap k = Some (res, k')" "ipc_wf k"
  shows "bt_get (mailboxes k') t = (case res of Inl _ \<Rightarrow> bt_get (mailboxes k) t
     | Inr _ \<Rightarrow> map_option (\<lambda>q. q @ sent_to t (map (\<lambda>u. Accepted (post s pl u)) (filter (has_room k) (audience k name s)))) (bt_get (mailboxes k) t))"
proof (cases res)
  case (Inl e)
  with assms show ?thesis by (auto simp: publish_def split: sum.splits option.splits)
next
  case (Inr n)
  with assms(1) obtain ch where ch: "bt_get (channels k) name = Some ch" and k': "k' = fold (publish_to s pl) (audience k name s) k"
    by (auto simp: publish_def audience_def Let_def split: sum.splits option.splits)
  have d: "distinct (audience k name s)" using ipc_wf_sel(7) [OF assms(2) ch] ch by (simp add: audience_def)
  show ?thesis
    using d Inr k' by (auto simp: fold_publish_mailboxes sent_to_posts mailbox_push_def has_room_def option.map_ident split: option.splits)
qed

text \<open>One call on one mailbox: what was accepted goes to the end, what was taken came from the front.\<close>

lemma ipc_do_inbox:
  assumes "ipc_do c k = Some (es, k')" "ipc_wf k" "Reset t \<notin> set es" "bt_get (mailboxes k) t = Some q"
  shows "\<exists>q'. bt_get (mailboxes k') t = Some q' \<and> q @ sent_to t es = received_by t es @ q'"
proof (cases c)
  case (Do_send s r ty pl ct rt cap)
  with assms(1) obtain res where res: "send s r ty pl ct rt cap k = Some (res, k')" "es = (case res of Inl _ \<Rightarrow> [] | Inr i \<Rightarrow> [Accepted (message_of s r ty pl ct rt i)])" by auto
  from send_inbox [OF res(1), of t] assms(4) res(2) show ?thesis by (cases res) (auto split: if_splits)
next
  case (Do_publish name s pl cap)
  with assms(1) obtain res where res: "publish name s pl cap k = Some (res, k')" "es = (case res of Inl _ \<Rightarrow> [] | Inr i \<Rightarrow> map (\<lambda>t. Accepted (post s pl t)) (filter (has_room k) (audience k name s)))" by auto
  from publish_inbox [OF res(1) assms(2), of t] assms(4) res(2) show ?thesis by (cases res) (auto split: if_splits)
next
  case (Do_request s r pl cap d)
  with assms(1) obtain res where res: "request s r pl cap d k = Some (res, k')" "es = (case res of Inl _ \<Rightarrow> [] | Inr i \<Rightarrow> [Accepted (message_of s r Request pl None None i)])" by auto
  from request_inbox [OF res(1), of t] assms(4) res(2) show ?thesis by (cases res) (auto split: if_splits)
next
  case (Do_receive u)
  with assms show ?thesis
    by (auto simp: receive_def mailbox_pop_def split: option.splits list.splits prod.splits)
next
  case (Do_region own sz)
  with assms show ?thesis by (auto simp: create_region_def Let_def split: bind_splits option.splits sum.splits)
next
  case (Do_grant reg g h cap)
  with assms show ?thesis by (auto simp: grant_access_def Let_def split: bind_splits option.splits sum.splits)
qed (use assms in \<open>auto simp: register_mailbox_def unregister_mailbox_def channel_create_def subscribe_def unsubscribe_def reply_def
      collect_reply_def check_timeouts_def Let_def split: option.splits sum.splits\<close>)

lemma ipc_run_inbox:
  assumes "ipc_run cs k = Some (es, k')" "ipc_wf k" "Reset t \<notin> set es" "bt_get (mailboxes k) t = Some q"
  shows "ipc_wf k' \<and> (\<exists>q'. bt_get (mailboxes k') t = Some q' \<and> q @ sent_to t es = received_by t es @ q')"
  using assms
proof (induction cs arbitrary: k es q)
  case (Cons c cs)
  then obtain es1 k1 es2 where c: "ipc_do c k = Some (es1, k1)" and cs: "ipc_run cs k1 = Some (es2, k')" and es: "es = es1 @ es2"
    by (auto split: bind_splits)
  have "Reset t \<notin> set es1" using Cons.prems(3) es by simp
  from ipc_do_inbox [OF c Cons.prems(2) this Cons.prems(4)] obtain q1
    where q1: "bt_get (mailboxes k1) t = Some q1" "q @ sent_to t es1 = received_by t es1 @ q1" by blast
  have "ipc_wf k1" using ipc_do_wf c Cons.prems(2) by blast
  from Cons.IH [OF cs this _ q1(1)] obtain q'
    where q': "ipc_wf k'" "bt_get (mailboxes k') t = Some q'" "q1 @ sent_to t es2 = received_by t es2 @ q'"
    using Cons.prems(3) es by auto
  have "q @ sent_to t es = received_by t es1 @ q1 @ sent_to t es2" using q1(2) es by (simp flip: append_assoc)
  with q' es show ?case by simp
qed simp

section \<open>Time-outs\<close>

lemma expire_request_pending:
  "bt_get (pending (expire_request i k)) j = (if j = i then None else bt_get (pending k) j)"
  by (auto simp: expire_request_def split: option.splits)

lemma fold_expire_pending:
  "bt_get (pending (fold expire_request is k)) j = (if j \<in> set is then None else bt_get (pending k) j)"
  by (induction "is" arbitrary: k) (auto simp: expire_request_pending)

lemma expire_request_blocked:
  assumes "distinct (map task_id (blocked (sched (cpu k))))"
  shows "blocked (sched (cpu (expire_request i k))) = (if sched_locked k then blocked (sched (cpu k))
     else filter (\<lambda>t. \<not> (\<exists>p. bt_get (pending k) i = Some p \<and> task_id t = requester p)) (blocked (sched (cpu k))))"
  using unblock_blocked [OF assms]
  by (auto simp: expire_request_def try_unblock_def split: option.splits)

lemma expire_request_sched_locked [simp]: "sched_locked (expire_request i k) = sched_locked k"
  by (auto simp: expire_request_def split: option.splits)

lemma fold_expire_blocked:
  assumes "distinct (map task_id (blocked (sched (cpu k))))" "distinct is"
  shows "blocked (sched (cpu (fold expire_request is k))) = (if sched_locked k then blocked (sched (cpu k))
     else filter (\<lambda>t. \<not> (\<exists>i \<in> set is. \<exists>p. bt_get (pending k) i = Some p \<and> task_id t = requester p)) (blocked (sched (cpu k))))"
  using assms
proof (induction "is" arbitrary: k)
  case (Cons i "is")
  let ?k = "expire_request i k"
  have d: "distinct (map task_id (blocked (sched (cpu ?k))))"
    using Cons.prems(1) by (simp add: expire_request_blocked distinct_map_filter)
  have "bt_get (pending ?k) j = bt_get (pending k) j" if "j \<in> set is" for j
    using that Cons.prems(2) by (auto simp: expire_request_pending)
  then have eqv: "(\<exists>j \<in> set is. \<exists>p. bt_get (pending ?k) j = Some p \<and> task_id t = requester p)
      \<longleftrightarrow> (\<exists>j \<in> set is. \<exists>p. bt_get (pending k) j = Some p \<and> task_id t = requester p)" for t by auto
  from Cons.IH [OF d, unfolded eqv] Cons.prems show ?case
    by (auto simp: expire_request_blocked [OF Cons.prems(1)] intro!: filter_cong)
qed simp

section \<open>Properties\<close>

text \<open>A kernel with two mailboxes and the capability table of the previous examples.\<close>

definition demo_kernel :: kernel where
  "demo_kernel = (kernel_boot context_empty)\<lparr>cap_table := demo_table, mailboxes := [(1, []), (2, [])]\<rparr>"

lemma demo_kernel_wf: "ipc_wf demo_kernel"
  using ipc_wf_boot [of context_empty] by (auto simp: ipc_wf_def demo_kernel_def bt_wf_def ran_def bt_get_def)

lemmas ipc_eval = send_def transfer_cap_def next_message_id_def deliver_def mailbox_push_def MAILBOX_CAPACITY_def
  receive_def mailbox_pop_def try_unblock_def unblock_def demo_kernel_def kernel_boot_def boot_cpu_def sched_new_def
  message_of_def bt_get_def

text \<open>C15. Messages arrive once and in order.  Over any run of IPC calls that does not create or destroy the
  mailbox of a task, the messages that were waiting followed by those accepted for it are exactly those it took
  followed by those still waiting, and the mailbox never exceeds its capacity.\<close>

theorem mail_fifo:
  assumes "ipc_run cs k = Some (es, k')" "ipc_wf k" "Reset t \<notin> set es" "bt_get (mailboxes k) t = Some q"
  shows "\<exists>q'. bt_get (mailboxes k') t = Some q' \<and> q @ sent_to t es = received_by t es @ q' \<and> length q' \<le> MAILBOX_CAPACITY"
  using ipc_run_inbox [OF assms] ipc_wf_sel(6) by blast

theorem mail_fifo_witness:
  "\<exists>es k' q'. ipc_run [Do_send 1 2 Data [7] None None 1, Do_send 1 2 Signal [8] None None 1, Do_receive 2] demo_kernel = Some (es, k')
     \<and> received_by 2 es = [message_of 1 2 Data [7] None None 1]
     \<and> bt_get (mailboxes k') 2 = Some q' \<and> q' = [message_of 1 2 Signal [8] None None 2] \<and> sent_to 2 es = received_by 2 es @ q'"
proof -
  let ?cs = "[Do_send 1 2 Data [7] None None 1, Do_send 1 2 Signal [8] None None 1, Do_receive 2]"
  obtain k' where run: "ipc_run ?cs demo_kernel = Some ([Accepted (message_of 1 2 Data [7] None None 1),
      Accepted (message_of 1 2 Signal [8] None None 2), Taken 2 (message_of 1 2 Data [7] None None 1)], k')"
    by (simp add: ipc_eval cap_eval demo_table_def)
  have "bt_get (mailboxes demo_kernel) 2 = Some []" by (simp add: ipc_eval)
  from mail_fifo [OF run demo_kernel_wf _ this] run show ?thesis by auto
qed

end
