(* ===== verification/Kernel_Agents.thy ===== *)
theory Kernel_Agents
  imports Task_Lifecycle Ipc_Theorems
begin

text \<open>
  Agents on the whole kernel: \<open>spawn\<close> (\<^verbatim>\<open>agent/lifecycle.rs\<close>), and the services that check a capability before they work
  for an agent: the inference queue (\<^verbatim>\<open>gpu/scheduler.rs\<close>) and the context store (\<^verbatim>\<open>storage/context_store.rs\<close>).
\<close>

section \<open>Spawning\<close>

definition children_full :: "AgentRegistry \<Rightarrow> u64 option \<Rightarrow> bool" where
  "children_full r parent_id =
     (case parent_id of
        None \<Rightarrow> False
      | Some p \<Rightarrow> (case reg_get r p of None \<Rightarrow> False | Some a \<Rightarrow> max_children (resource_limits (config a)) \<le> length (children a)))"

definition new_agent :: "u64 \<Rightarrow> AgentConfig \<Rightarrow> u64 option \<Rightarrow> Agent" where
  "new_agent i cfg parent_id = \<lparr>agent_id = i, config = cfg, agent_state = AgentState.Running, parent = parent_id, children = [],
     restart_count = 0, max_restarts = 5\<rparr>"

definition add_child :: "u64 option \<Rightarrow> u64 \<Rightarrow> AgentRegistry \<Rightarrow> AgentRegistry" where
  "add_child parent_id i r =
     (case parent_id of None \<Rightarrow> r | Some p \<Rightarrow> reg_modify p (\<lambda>a. a\<lparr>children := children a @ [i]\<rparr>) r)"

definition agent_spawn ::
  "'pt map_fn \<Rightarrow> u64 \<Rightarrow> u64 option \<Rightarrow> AgentConfig \<Rightarrow> u64 \<Rightarrow> 'pt \<times> kernel \<Rightarrow> ((string + u64) \<times> 'pt \<times> kernel) option" where
  "agent_spawn map_to trampoline parent_id cfg entry = (\<lambda>(pt, k).
     if children_full (registry k) parent_id then Some (Inl ''parent has reached max children'', pt, k)
     else do {
       (task, pt, k) \<leftarrow> task_new map_to trampoline (agent_name cfg) Priority.Normal entry (pt, k);
       let i = task_id task;
       let k = register_mailbox i k;
       let r = register (new_agent i cfg parent_id) (registry k);
       let r = add_child parent_id i r;
       k \<leftarrow> k_spawn task (k\<lparr>registry := r\<rparr>);
       Some (Inr i, pt, k)
     })"

section \<open>Services behind a capability\<close>

definition submit_request ::
  "u64 \<Rightarrow> string \<Rightarrow> InferencePriority \<Rightarrow> u64 option \<Rightarrow> u64 \<Rightarrow> kernel \<Rightarrow> ((string + u64) \<times> kernel) option" where
  "submit_request agent mdl pri deadline cap k =
     (case cap_validate (cap_table k) cap agent EXECUTE of
        Inl _ \<Rightarrow> Some (Inl ''insufficient inference capability'', k)
      | Inr _ \<Rightarrow> (case gpu_submit agent mdl pri deadline (ticks k) (gpu k) of (i, g) \<Rightarrow> Some (Inr i, k\<lparr>gpu := g\<rparr>)))"

text \<open>\<open>STORE.lock().set\<close> and \<open>get\<close>, then the functions that check a capability first.\<close>

definition store_set :: "u64 \<Rightarrow> string \<Rightarrow> u8 list \<Rightarrow> kernel \<Rightarrow> kernel option" where
  "store_set agent key value k = do {
     (cs, f) \<leftarrow> cs_set (ticks k) agent key value (contexts_store k, fs k);
     Some (k\<lparr>contexts_store := cs, fs := f\<rparr>)
   }"

definition store_get :: "u64 \<Rightarrow> string \<Rightarrow> kernel \<Rightarrow> u8 list option" where
  "store_get agent key k = cs_get (contexts_store k, fs k) agent key"

definition storage_set :: "u64 \<Rightarrow> string \<Rightarrow> u8 list \<Rightarrow> u64 \<Rightarrow> kernel \<Rightarrow> ((string + unit) \<times> kernel) option" where
  "storage_set agent key value cap k =
     (case cap_validate (cap_table k) cap agent WRITE of
        Inl _ \<Rightarrow> Some (Inl ''insufficient storage capability'', k)
      | Inr _ \<Rightarrow> do { k \<leftarrow> store_set agent key value k; Some (Inr (), k) })"

definition storage_get :: "u64 \<Rightarrow> string \<Rightarrow> u64 \<Rightarrow> kernel \<Rightarrow> ((string + u8 list option) \<times> kernel) option" where
  "storage_get agent key cap k =
     (case cap_validate (cap_table k) cap agent READ of
        Inl _ \<Rightarrow> Some (Inl ''insufficient storage capability'', k)
      | Inr _ \<Rightarrow> Some (Inr (store_get agent key k), k))"

interpretation gpu_gate: cap_gate cap_table "submit_request agent mdl pri deadline cap" cap agent EXECUTE "''insufficient inference capability''"
  by unfold_locales (simp add: submit_request_def)

interpretation set_gate: cap_gate cap_table "storage_set agent key value cap" cap agent WRITE "''insufficient storage capability''"
  by unfold_locales (simp add: storage_set_def)

interpretation get_gate: cap_gate cap_table "storage_get agent key cap" cap agent READ "''insufficient storage capability''"
  by unfold_locales (simp add: storage_get_def)

end
