(* ===== verification/Syscalls.thy ===== *)
theory Syscalls
  imports Kernel_Agents Rust_Text
begin

text \<open>
  The two ways into the kernel after start-up: the system call entry with its dispatcher (\<^verbatim>\<open>syscall/\<close>) and the timer interrupt
  (\<^verbatim>\<open>interrupts.rs\<close>).
\<close>

section \<open>The entry sequence\<close>

text \<open>The registers the entry code names, its instructions, and their effect on registers and stack.\<close>

datatype reg = Rax | Rbx | Rcx | Rdx | Rsi | Rdi | Rbp | R8 | R9 | R10 | R11 | R12 | R13 | R14 | R15

datatype instr = Push reg | Pop reg | Mov reg reg | Call_dispatch

type_synonym machine = "(reg \<Rightarrow> u64) \<times> u64 list"

fun exec_instr :: "(machine \<Rightarrow> machine) \<Rightarrow> instr \<Rightarrow> machine \<Rightarrow> machine" where
  "exec_instr dispatch (Push r) (f, st) = (f, f r # st)"
| "exec_instr dispatch (Pop r) (f, st) = (f(r := hd st), tl st)"
| "exec_instr dispatch (Mov d s) (f, st) = (f(d := f s), st)"
| "exec_instr dispatch Call_dispatch m = dispatch m"

definition entry_saves :: "instr list" where
  "entry_saves = [Push Rcx, Push R11, Push Rbp, Push Rbx, Push R12, Push R13, Push R14, Push R15]"

definition entry_arguments :: "instr list" where
  "entry_arguments = [Mov R9 R8, Mov R8 R10, Mov Rcx Rdx, Mov Rdx Rsi, Mov Rsi Rdi, Mov Rdi Rax]"

definition entry_restores :: "instr list" where
  "entry_restores = [Pop R15, Pop R14, Pop R13, Pop R12, Pop Rbx, Pop Rbp, Pop R11, Pop Rcx]"

definition syscall_entry :: "(machine \<Rightarrow> machine) \<Rightarrow> machine \<Rightarrow> machine" where
  "syscall_entry dispatch = fold (exec_instr dispatch) (entry_saves @ entry_arguments @ [Call_dispatch] @ entry_restores)"

definition star_value :: u64 where
  "star_value = push_bit 32 0x08 OR push_bit 48 0x13"

section \<open>System call numbers\<close>

definition SYS_EXIT :: u64 where "SYS_EXIT = 0"
definition SYS_PRINT :: u64 where "SYS_PRINT = 1"
definition SYS_YIELD :: u64 where "SYS_YIELD = 2"
definition SYS_AGENT_SPAWN :: u64 where "SYS_AGENT_SPAWN = 10"
definition SYS_AGENT_KILL :: u64 where "SYS_AGENT_KILL = 11"
definition SYS_AGENT_LIST :: u64 where "SYS_AGENT_LIST = 12"
definition SYS_AGENT_STATUS :: u64 where "SYS_AGENT_STATUS = 13"
definition SYS_IPC_SEND :: u64 where "SYS_IPC_SEND = 20"
definition SYS_IPC_RECEIVE :: u64 where "SYS_IPC_RECEIVE = 21"
definition SYS_IPC_REQUEST :: u64 where "SYS_IPC_REQUEST = 22"
definition SYS_IPC_REPLY :: u64 where "SYS_IPC_REPLY = 23"
definition SYS_NET_HTTP_GET :: u64 where "SYS_NET_HTTP_GET = 30"
definition SYS_NET_HTTP_POST :: u64 where "SYS_NET_HTTP_POST = 31"
definition SYS_STORAGE_GET :: u64 where "SYS_STORAGE_GET = 40"
definition SYS_STORAGE_SET :: u64 where "SYS_STORAGE_SET = 41"
definition SYS_STORAGE_DELETE :: u64 where "SYS_STORAGE_DELETE = 42"
definition SYS_CAP_DELEGATE :: u64 where "SYS_CAP_DELEGATE = 50"
definition SYS_CAP_REVOKE :: u64 where "SYS_CAP_REVOKE = 51"
definition SYS_TIMER_SLEEP :: u64 where "SYS_TIMER_SLEEP = 60"
definition SYS_TIMER_DEADLINE :: u64 where "SYS_TIMER_DEADLINE = 61"

lemmas sys_defs = SYS_EXIT_def SYS_PRINT_def SYS_YIELD_def SYS_AGENT_SPAWN_def SYS_AGENT_KILL_def SYS_AGENT_LIST_def SYS_AGENT_STATUS_def
  SYS_IPC_SEND_def SYS_IPC_RECEIVE_def SYS_IPC_REQUEST_def SYS_IPC_REPLY_def SYS_NET_HTTP_GET_def SYS_NET_HTTP_POST_def
  SYS_STORAGE_GET_def SYS_STORAGE_SET_def SYS_STORAGE_DELETE_def SYS_CAP_DELEGATE_def SYS_CAP_REVOKE_def SYS_TIMER_SLEEP_def
  SYS_TIMER_DEADLINE_def

section \<open>Handlers\<close>

text \<open>
  A handler returns a 64-bit value (\<open>-1\<close> for an error) or, for \<open>exit\<close>, control has left for another task.  \<open>mem\<close> is the
  memory that the raw pointers of the caller are read from; \<open>ret\<close> is the address at which a switched-out task resumes.
\<close>

datatype sysret = Returned u64 | Left

type_synonym memory = "u64 \<Rightarrow> u8"

definition from_raw_parts :: "memory \<Rightarrow> u64 \<Rightarrow> u64 \<Rightarrow> u8 list" where
  "from_raw_parts mem ptr len = map (\<lambda>n. mem (ptr + of_nat n)) [0..<unat len]"

definition sys_exit :: "u64 \<Rightarrow> kernel \<Rightarrow> (sysret \<times> kernel) option" where
  "sys_exit ret k = do { k \<leftarrow> k_exit_current ret k; Some (Left, k) }"

text \<open>\<open>sys_print\<close> with the text it sends to the console.\<close>

definition sys_print :: "memory \<Rightarrow> u64 \<Rightarrow> u64 \<Rightarrow> u64 \<times> u8 list" where
  "sys_print mem ptr len =
     (if ptr = 0 \<or> 4096 < len then (- 1, [])
      else if utf8_valid (from_raw_parts mem ptr len) then (len, from_raw_parts mem ptr len)
      else (- 1, []))"

definition sys_yield :: "u64 \<Rightarrow> kernel \<Rightarrow> (sysret \<times> kernel) option" where
  "sys_yield ret k = do { (_, k) \<leftarrow> k_yield_now ret k; Some (Returned 0, k) }"

definition sys_agent_list :: "kernel \<Rightarrow> u64" where
  "sys_agent_list k = of_nat (reg_count (registry k))"

definition sys_agent_status :: "u64 \<Rightarrow> kernel \<Rightarrow> u64" where
  "sys_agent_status i k = (case reg_get (registry k) i of Some a \<Rightarrow> of_nat (state_index (agent_state a)) | None \<Rightarrow> - 1)"

text \<open>The recursion of \<open>kill\<close> runs on fuel, so this handler does too.\<close>

definition sys_agent_kill :: "nat \<Rightarrow> u64 \<Rightarrow> kernel \<Rightarrow> (sysret \<times> kernel) option" where
  "sys_agent_kill fuel i k = do {
     (r, reg) \<leftarrow> kill fuel i (registry k);
     Some (Returned (case r of Inr _ \<Rightarrow> 0 | Inl _ \<Rightarrow> - 1), k\<lparr>registry := reg\<rparr>)
   }"

definition sys_ipc_send :: "memory \<Rightarrow> u64 \<Rightarrow> u64 \<Rightarrow> u64 \<Rightarrow> u64 \<Rightarrow> u64 \<Rightarrow> kernel \<Rightarrow> (sysret \<times> kernel) option" where
  "sys_ipc_send mem snd_task rcp ptr len cap k =
     (if ptr = 0 \<or> 65536 < len then Some (Returned (- 1), k)
      else do {
        (r, k) \<leftarrow> send snd_task rcp Data (from_raw_parts mem ptr len) None None cap k;
        Some (Returned (case r of Inr i \<Rightarrow> i | Inl _ \<Rightarrow> - 1), k)
      })"

definition sys_ipc_receive :: "u64 \<Rightarrow> kernel \<Rightarrow> u64 \<times> kernel" where
  "sys_ipc_receive task k = (case receive task k of (Some _, k) \<Rightarrow> (1, k) | (None, k) \<Rightarrow> (0, k))"

definition sys_storage_set :: "memory \<Rightarrow> u64 \<Rightarrow> u64 \<Rightarrow> u64 \<Rightarrow> u64 \<Rightarrow> u64 \<Rightarrow> kernel \<Rightarrow> (sysret \<times> kernel) option" where
  "sys_storage_set mem agent key_ptr key_len val_ptr val_len k =
     (if key_ptr = 0 \<or> val_ptr = 0 \<or> 256 < key_len \<or> 65536 < val_len then Some (Returned (- 1), k)
      else if \<not> utf8_valid (from_raw_parts mem key_ptr key_len) then Some (Returned (- 1), k)
      else do {
        k \<leftarrow> store_set agent (string_of (from_raw_parts mem key_ptr key_len)) (from_raw_parts mem val_ptr val_len) k;
        Some (Returned 0, k)
      })"

definition sys_storage_get :: "memory \<Rightarrow> u64 \<Rightarrow> u64 \<Rightarrow> u64 \<Rightarrow> kernel \<Rightarrow> u64" where
  "sys_storage_get mem agent key_ptr key_len k =
     (if key_ptr = 0 \<or> 256 < key_len then - 1
      else if \<not> utf8_valid (from_raw_parts mem key_ptr key_len) then - 1
      else case store_get agent (string_of (from_raw_parts mem key_ptr key_len)) k of
             Some d \<Rightarrow> of_nat (length d)
           | None \<Rightarrow> - 1)"

definition sys_sleep :: "u64 \<Rightarrow> u64 \<Rightarrow> kernel \<Rightarrow> (sysret \<times> kernel) option" where
  "sys_sleep ret n k = do {
     deadline \<leftarrow> checked_add (ticks k) n;
     case current (sched (cpu k)) of
       None \<Rightarrow> Some (Returned 0, k)
     | Some t \<Rightarrow> do {
         (_, k) \<leftarrow> k_block_and_yield ret (k\<lparr>deadlines := snd (dl_schedule (task_id t) deadline (deadlines k))\<rparr>);
         Some (Returned 0, k)
       }
   }"

definition sys_dispatch ::
  "memory \<Rightarrow> u64 \<Rightarrow> nat \<Rightarrow> u64 \<Rightarrow> u64 \<Rightarrow> u64 \<Rightarrow> u64 \<Rightarrow> u64 \<Rightarrow> u64 \<Rightarrow> kernel \<Rightarrow> (sysret \<times> kernel) option" where
  "sys_dispatch mem ret fuel number arg1 arg2 arg3 arg4 arg5 k =
     (if number = SYS_EXIT then sys_exit ret k
      else if number = SYS_PRINT then Some (Returned (fst (sys_print mem arg1 arg2)), k)
      else if number = SYS_YIELD then sys_yield ret k
      else if number = SYS_AGENT_LIST then Some (Returned (sys_agent_list k), k)
      else if number = SYS_AGENT_STATUS then Some (Returned (sys_agent_status arg1 k), k)
      else if number = SYS_AGENT_KILL then sys_agent_kill fuel arg1 k
      else if number = SYS_IPC_SEND then sys_ipc_send mem arg1 arg2 arg3 arg4 arg5 k
      else if number = SYS_IPC_RECEIVE then (case sys_ipc_receive arg1 k of (r, k) \<Rightarrow> Some (Returned r, k))
      else if number = SYS_STORAGE_SET then sys_storage_set mem arg1 arg2 arg3 arg4 arg5 k
      else if number = SYS_STORAGE_GET then Some (Returned (sys_storage_get mem arg1 arg2 arg3 k), k)
      else if number = SYS_TIMER_SLEEP then sys_sleep ret arg1 k
      else Some (Returned (- 1), k))"

section \<open>The timer interrupt\<close>

text \<open>
  The handler waits for the network stack's lock but only tries the others.  \<open>net_locked\<close> says that the interrupted code holds it:
  then a poll never returns, which is \<open>None\<close>.  The network state belongs to the \<^verbatim>\<open>smoltcp\<close> crate and its poll is a parameter.
\<close>

definition poll_locked :: "bool \<Rightarrow> (u64 \<Rightarrow> 'n \<Rightarrow> 'n) \<Rightarrow> u64 \<Rightarrow> 'n \<Rightarrow> 'n option" where
  "poll_locked net_locked poll now n = (if net_locked then None else Some (poll now n))"

definition k_deadline_tick :: "u64 \<Rightarrow> kernel \<Rightarrow> kernel" where
  "k_deadline_tick tick k =
     (case dl_tick tick (deadlines_locked k) (sched_locked k) (deadlines k, sched (cpu k)) of
        (q, s) \<Rightarrow> k\<lparr>deadlines := q, cpu := (cpu k)\<lparr>sched := s\<rparr>\<rparr>)"

definition timer_handler :: "bool \<Rightarrow> (u64 \<Rightarrow> 'n \<Rightarrow> 'n) \<Rightarrow> 'n \<times> kernel \<Rightarrow> ('n \<times> kernel) option" where
  "timer_handler net_locked poll = (\<lambda>(n, k). do {
     let k = k\<lparr>ticks := ticks k + 1\<rparr>;
     let k = k\<lparr>cpu := timer_tick (cpu k)\<rparr>;
     let tick = ticks k;
     n \<leftarrow> (if tick mod 10 = 0 then poll_locked net_locked poll tick n else Some n);
     let k = (if tick mod 50 = 0 then check_timeouts k else k);
     Some (n, k_deadline_tick tick k)
   })"

end
