(* ===== verification/Ipc_Properties.thy ===== *)
theory Ipc_Properties
  imports Ipc_Theorems
begin

text \<open>Error paths of sending, the request and reply protocol with its time-outs, channels, and shared memory.\<close>

section \<open>Sending\<close>



text \<open>A capability attached to a message is delegated before the mailbox is looked up, so an undeliverable
  message still hands it over.\<close>

lemma failed_send_transfers:
  "\<exists>k' c. send 1 9 CapTransfer [] (Some 1) None 1 demo_kernel = Some (Inl RecipientNotFound, k')
     \<and> slot (cap_table k') 3 = Some c \<and> owner c = 9 \<and> permissions c = from_raw 11 \<and> \<not> revoked c"
  by (simp add: ipc_eval cap_eval demo_table_def)

section \<open>Channels\<close>

text \<open>C23. Publishing reaches exactly the audience: the result is the number of subscribers other than the sender, each of
  them with a mailbox that has room gets the message once at the end of its mailbox, and no other mailbox changes.\<close>

theorem publish_exact:
  assumes "publish name s pl cap k = Some (Inr n, k')" "ipc_wf k"
  shows "n = length (audience k name s) \<and> distinct (audience k name s)
    \<and> bt_get (mailboxes k') t = (if t \<in> set (audience k name s) \<and> has_room k t
         then map_option (\<lambda>q. q @ [post s pl t]) (bt_get (mailboxes k) t) else bt_get (mailboxes k) t)
    \<and> cap_table k' = cap_table k \<and> channels k' = channels k"
proof -
  from assms(1) obtain ch where ch: "bt_get (channels k) name = Some ch" and n: "n = length (audience k name s)"
    and k': "k' = fold (publish_to s pl) (audience k name s) k"
    by (auto simp: publish_def audience_def Let_def split: sum.splits option.splits)
  obtain m where "k' = k\<lparr>mailboxes := m\<rparr>" using fold_publish_frame k' by metis
  moreover have d: "distinct (audience k name s)" using ipc_wf_sel(7) [OF assms(2) ch] ch by (simp add: audience_def)
  moreover have "bt_get (mailboxes k') t = map_option (\<lambda>q. q @ (if t \<in> set (audience k name s) \<and> has_room k t then [post s pl t] else []))
      (bt_get (mailboxes k) t)"
    using publish_inbox [OF assms, of t] sent_to_posts [OF d] by simp
  ultimately show ?thesis using n by (simp add: option.map_ident)
qed

definition demo_channel :: kernel where
  "demo_channel = demo_kernel\<lparr>
     cap_table := \<lparr>capabilities = [None, Some \<lparr>cap_id = 1, resource = Channel ''news'', permissions = from_raw 128, owner = 1,
        parent_cap = None, revoked = False\<rparr>], next_id = 2\<rparr>,
     channels := [(''news'', \<lparr>channel_id = 1, channel_name = ''news'', subscribers = [(1, 1), (2, 5), (3, 6)]\<rparr>)]\<rparr>"

theorem publish_exact_witness:
  "\<exists>k'. publish ''news'' 1 [5] 1 demo_channel = Some (Inr 2, k')
     \<and> bt_get (mailboxes k') 2 = Some [post 1 [5] 2] \<and> bt_get (mailboxes k') 1 = Some []"
proof -
  have v: "cap_validate (cap_table demo_channel) 1 1 PUBLISH = Inr (the (slot (cap_table demo_channel) 1))"
    by (simp add: demo_channel_def cap_eval)
  have a: "audience demo_channel ''news'' 1 = [2, 3]" by (simp add: audience_def demo_channel_def bt_get_def)
  obtain k' where r: "publish ''news'' 1 [5] 1 demo_channel = Some (Inr 2, k')"
    using v a by (auto simp: publish_def audience_def Let_def split: option.splits)
  have "ipc_wf demo_channel"
    using demo_kernel_wf by (auto simp: ipc_wf_def demo_channel_def bt_wf_def ran_def bt_get_def)
  note p = publish_exact [OF r this]
  have m: "mailboxes demo_channel = [(1, []), (2, [])]" by (simp add: demo_channel_def demo_kernel_def)
  show ?thesis using r p [of 1] p [of 2] by (simp add: a m has_room_def MAILBOX_CAPACITY_def bt_get_def)
qed

section \<open>Requests and replies\<close>

text \<open>C24. A request gets its reply once: after a successful request the first reply to it is accepted, removes the pending
  request, wakes the requester if it is blocked and the scheduler is free, and is handed out unchanged by
  \<open>collect_reply\<close>; a second reply and a second collection find nothing.\<close>

theorem request_reply_roundtrip:
  assumes "request s r pl cap d k = Some (Inr i, k1)" "sched_wf (sched (cpu k1))"
  shows "\<exists>k2 k3 msg. reply r i ans cap' k1 = (Inr (), k2) \<and> collect_reply i k2 = (Some msg, k3)
    \<and> sender msg = r \<and> recipient msg = s \<and> msg_type msg = Reply \<and> payload msg = ans \<and> reply_to msg = Some i
    \<and> (\<not> sched_locked k1 \<longrightarrow> s \<notin> task_id ` set (blocked (sched (cpu k2))))
    \<and> reply r i ans cap' k2 = (Inl RecipientNotFound, k2) \<and> fst (collect_reply i k3) = None"
proof -
  from assms(1) obtain p where "bt_get (pending k1) i = Some p" "requester p = s"
    by (cases rule: request_cases) auto
  with unblock_blocked [OF blocked_distinct [OF assms(2)], of s] show ?thesis
    by (auto simp: reply_def collect_reply_def Let_def try_unblock_def)
qed

theorem request_reply_roundtrip_witness:
  "\<exists>i k1 k2. request 1 2 [1] 1 50 demo_kernel = Some (Inr i, k1) \<and> reply 2 i [9] 0 k1 = (Inr (), k2)
     \<and> map_option payload (fst (collect_reply i k2)) = Some [9]"
proof -
  obtain k1 where r: "request 1 2 [1] 1 50 demo_kernel = Some (Inr 1, k1)" and c: "sched (cpu k1) = sched_new"
    by (simp add: request_def ipc_eval cap_eval demo_table_def)
  have "sched_wf sched_new"
    by (simp add: sched_wf_def queue_ok_def ids_valid_def task_ids_def all_tasks_def sched_new_def less_Suc_eq numeral_3_eq_3)
  then have "sched_wf (sched (cpu k1))" by (simp only: c)
  from request_reply_roundtrip [OF r this, of "[9]" 0] r show ?thesis by force
qed


definition demo_waiting :: kernel where
  "demo_waiting = demo_kernel\<lparr>cpu := (boot_cpu context_empty)\<lparr>sched := demo_sleepers\<rparr>, ticks := 10,
     pending := [(4, \<lparr>requester = 2, request_deadline = 9\<rparr>), (5, \<lparr>requester = 1, request_deadline = 90\<rparr>)]\<rparr>"


section \<open>Shared memory\<close>

lemma round_up_pages:
  fixes sz :: u64
  assumes "checked_add sz PAGE_SIZE = Some s1" "checked_sub s1 1 = Some s2"
  shows "unat (s2 div PAGE_SIZE) = (unat sz + 4095) div 4096"
    "checked_mul (s2 div PAGE_SIZE) PAGE_SIZE = Some (s2 div PAGE_SIZE * PAGE_SIZE)"
    "unat (s2 div PAGE_SIZE * PAGE_SIZE) = (unat sz + 4095) div 4096 * 4096"
proof -
  from assms(1) have s1: "unat sz + 4096 < 2 ^ 64" "s1 = sz + PAGE_SIZE" by (auto simp: checked_add_def split: if_splits)
  then have "unat s1 = unat sz + 4096" by (simp add: unat_word_ariths)
  with assms(2) s1(1) have s2: "unat s2 = unat sz + 4095"
    by (auto simp: checked_sub_def unat_sub word_le_nat_alt split: if_splits)
  then show p: "unat (s2 div PAGE_SIZE) = (unat sz + 4095) div 4096" by (simp add: unat_div)
  have "(unat sz + 4095) div 4096 * 4096 < 2 ^ 64" using s1(1) div_times_less_eq_dividend [of "unat sz + 4095" 4096] by linarith
  then have "checked_mul n PAGE_SIZE = Some (n * PAGE_SIZE) \<and> unat (n * PAGE_SIZE) = (unat sz + 4095) div 4096 * 4096"
    if "unat n = (unat sz + 4095) div 4096" for n :: u64
    using that by (simp add: checked_mul_def unat_word_ariths)
  with p show "checked_mul (s2 div PAGE_SIZE) PAGE_SIZE = Some (s2 div PAGE_SIZE * PAGE_SIZE)"
    "unat (s2 div PAGE_SIZE * PAGE_SIZE) = (unat sz + 4095) div 4096 * 4096" by blast+
qed

lemma create_region_cases:
  assumes "create_region own sz k = Some (res, k')" "frame_allocator k = Some fa" "fa_wf fa"
  obtains (created) r fa' F where "res = Inr (next_region_id k)" "bt_get (shared_regions k') (next_region_id k) = Some r"
      "region_owner r = own" "grants r = []" "unat (region_size r) = (unat sz + 4095) div 4096 * 4096"
      "frame_allocator k' = Some fa'" "fa_wf fa'" "F \<subseteq> free_frames fa" "free_frames fa' = free_frames fa - F"
      "card F = max 1 ((unat sz + 4095) div 4096)" "unat (phys_base r) div 4096 \<in> F"
      "cap_create_root own (Memory (phys_base r) (region_size r)) (from_raw 11) (cap_table k) = Some (next_id (cap_table k), cap_table k')"
      "total_frames fa' = total_frames fa" "cpu k' = cpu k" "id_allocator k' = id_allocator k"
  | (exhausted) fa' where "res = Inl RecipientNotFound" "k' = k\<lparr>frame_allocator := Some fa'\<rparr>" "fa_wf fa'" "free_frames fa' = {}"
      "total_frames fa' = total_frames fa"
proof -
  from assms(1) obtain s1 s2 where s: "checked_add sz PAGE_SIZE = Some s1" "checked_sub s1 1 = Some s2"
    by (auto simp: create_region_def Let_def split: bind_splits)
  note up = round_up_pages [OF s]
  have rwd: "perm_union (perm_union READ WRITE) DELEGATE = from_raw 11" by (simp add: perm_union_def permission_defs)
  from assms(3) show thesis
  proof (cases rule: fs.alloc_pages_cases [where n = "unat (s2 div PAGE_SIZE)"])
    case (granted f fa' F)
    let ?r = "\<lparr>region_id = next_region_id k, phys_base = start_address f, region_size = s2 div PAGE_SIZE * PAGE_SIZE,
      region_owner = own, grants = []\<rparr>"
    let ?m = "Memory (start_address f) (s2 div PAGE_SIZE * PAGE_SIZE)"
    from assms(1) s granted(1) obtain t where t: "cap_create_root own ?m (from_raw 11) (cap_table k) = Some (next_id (cap_table k), t)"
      and k': "res = Inr (next_region_id k)" "k' = k\<lparr>frame_allocator := Some fa', next_region_id := next_region_id k + 1, cap_table := t,
        shared_regions := bt_insert (next_region_id k) ?r (shared_regions k)\<rparr>"
      by (auto simp: create_region_def assms(2) up(2) rwd Let_def cap_create_root_def split: bind_splits)
    show thesis
      by (rule created [of ?r fa' F]) (use granted t k' up in \<open>simp_all add: frame_index_def\<close>)
  next
    case (exhausted fa')
    show thesis by (rule that(2) [of fa']) (use assms s exhausted in \<open>auto simp: create_region_def Let_def split: bind_splits\<close>)
  qed
qed

text \<open>C32. Shared regions own their frames: a new region is the requested size rounded up to whole pages; it takes that
  many frames (one for a size of 0), all of them free before and none of them free afterwards, its base address is one of
  them, and its owner gets a fresh root capability for exactly the region with the rights to read, write and delegate.\<close>

theorem region_created:
  assumes "create_region own sz k = Some (Inr i, k')" "frame_allocator k = Some fa" "fa_wf fa" "cap_wf (cap_table k)"
  shows "\<exists>r fa' F c. bt_get (shared_regions k') i = Some r \<and> region_owner r = own
    \<and> unat (region_size r) = (unat sz + 4095) div 4096 * 4096
    \<and> frame_allocator k' = Some fa' \<and> F \<subseteq> free_frames fa \<and> free_frames fa' = free_frames fa - F
    \<and> card F = max 1 ((unat sz + 4095) div 4096) \<and> unat (phys_base r) div 4096 \<in> F
    \<and> slot (cap_table k) (next_id (cap_table k)) = None \<and> slot (cap_table k') (next_id (cap_table k)) = Some c
    \<and> owner c = own \<and> resource c = Memory (phys_base r) (region_size r) \<and> permissions c = perm_union (perm_union READ WRITE) DELEGATE"
proof -
  have rwd: "perm_union (perm_union READ WRITE) DELEGATE = from_raw 11" by (simp add: perm_union_def permission_defs)
  from assms(1-3) show ?thesis
  proof (cases rule: create_region_cases)
    case (created r fa' F)
    then show ?thesis
      using cap_create_root_slot [OF created(12), of "next_id (cap_table k)"] cap_wf_fresh [OF assms(4)] rwd by auto
  qed simp
qed

definition demo_memory :: kernel where
  "demo_memory = (kernel_boot context_empty)\<lparr>frame_allocator := Some demo_fa\<rparr>"

theorem region_created_witness:
  "\<exists>k' fa' F. create_region 1 5000 demo_memory = Some (Inr 1, k') \<and> frame_allocator k' = Some fa'
     \<and> F \<subseteq> free_frames demo_fa \<and> free_frames fa' = free_frames demo_fa - F \<and> card F = 2"
proof -
  obtain k' where r: "create_region 1 5000 demo_memory = Some (Inr 1, k')"
    by (simp add: demo_memory_def demo_fa_def create_region_def alloc_pages_def frame_eval checked_sub_def kernel_boot_def
        cap_create_root_def cap_new_def)
  have "fa_wf demo_fa" "frame_allocator demo_memory = Some demo_fa" "cap_wf (cap_table demo_memory)"
    by (simp_all add: fa_wf_def demo_fa_def demo_memory_def kernel_boot_def)
  from region_created [OF r this(2,1,3)] r show ?thesis by (simp add: max_def) metis
qed

text \<open>The frames of a region need not be adjacent: a region of two pages can span a frame that is in use elsewhere.\<close>

lemma region_gap:
  "\<exists>k' r. create_region 1 0x2000 (kernel_boot context_empty\<lparr>frame_allocator := Some \<lparr>bitmap = [2], total_frames = 8, next_free = 0\<rparr>\<rparr>)
       = Some (Inr 1, k')
     \<and> bt_get (shared_regions k') 1 = Some r \<and> phys_base r = 0 \<and> region_size r = 0x2000
     \<and> 1 \<notin> free_frames \<lparr>bitmap = [2], total_frames = 8, next_free = 0\<rparr>"
  by (simp add: create_region_def alloc_pages_def frame_eval checked_sub_def kernel_boot_def cap_create_root_def cap_new_def
      free_frames_def used_def bt_get_def)

end
