(* ===== verification/Task_Properties.thy ===== *)
theory Task_Properties
  imports Task_Lifecycle
begin

text \<open>The addresses of stacks, the reuse of a task's id, and a small kernel in which tasks are created and exit.\<close>

section \<open>A small kernel\<close>

definition demo_tasks :: kernel where
  "demo_tasks = (kernel_boot context_empty)\<lparr>frame_allocator := Some demo_fa, id_allocator := \<lparr>id_next = 4, free_list = []\<rparr>,
     cpu := (boot_cpu context_empty)\<lparr>sched := demo_sched\<lparr>current := Some ((demo_task 1 TaskState.Running Priority.Normal)\<lparr>stack_frames := [0x1000]\<rparr>)\<rparr>\<rparr>,
     mailboxes := [(1, [])]\<rparr>"

lemma ids_below_4: "{i :: u64. 0 < i \<and> i < 4} = {1, 2, 3}"
proof -
  have "0 < i \<and> i < 4 \<longleftrightarrow> unat i = 1 \<or> unat i = 2 \<or> unat i = 3" for i :: u64 by (auto simp: word_less_nat_alt)
  moreover have "unat i = 1 \<longleftrightarrow> i = 1" "unat i = 2 \<longleftrightarrow> i = 2" "unat i = 3 \<longleftrightarrow> i = 3" for i :: u64
    using word_unat_eq_iff [of i 1] word_unat_eq_iff [of i 2] word_unat_eq_iff [of i 3] by simp_all
  ultimately show ?thesis by auto
qed

lemma demo_tasks_ok: "kern_ok demo_tasks"
proof -
  let ?s = "sched (cpu demo_tasks)"
  have s: "?s = demo_sched\<lparr>current := Some ((demo_task 1 TaskState.Running Priority.Normal)\<lparr>stack_frames := [0x1000]\<rparr>)\<rparr>"
    by (simp add: demo_tasks_def)
  have "queue_ok ?s"
    by (auto simp: s queue_ok_def demo_sched_def demo_task_def less_Suc_eq numeral_3_eq_3 numeral_2_eq_2)
  moreover have "ids_valid ?s"
    by (simp add: s ids_valid_def task_ids_def all_tasks_def demo_sched_def demo_task_def MAX_TASKS_def)
  moreover have f: "footprints ?s = {#(1, [0x1000]), (2, []), (3, [])#}"
    by (simp add: s footprints_def all_tasks_def demo_sched_def demo_task_def footprint_def)
  have "resources_ok (footprints ?s) demo_tasks"
    unfolding resources_ok_def f
  proof (intro conjI exI [of _ demo_fa])
    have "1 \<in> {..<total_frames demo_fa} - free_frames demo_fa" by (simp add: demo_fa_def free_frames_def used_def)
    then show "stack_indices {#(1, [0x1000]), (2, []), (3, [])#} \<subseteq># mset_set ({..<total_frames demo_fa} - free_frames demo_fa)"
      by (simp add: frame_number_def)
  qed (simp_all add: demo_tasks_def fa_wf_def demo_fa_def ids_below_4)
  ultimately show ?thesis by (simp add: kern_ok_def sched_wf_def demo_tasks_def boot_cpu_def)
qed


section \<open>Stacks\<close>

lemma task_new_top:
  assumes "task_new map_to tr name pri entry (pt, k) = Some (t, pt', k')"
  shows "unat (stack_top t) = slot_start (unat (task_id t)) + 20480"
proof -
  from assms obtain bottom where "stack_bottom (task_id t) = Some bottom" "checked_add bottom STACK_SIZE = Some (stack_top t)"
    by (auto simp: task_new_def split: bind_splits)
  then show ?thesis using stack_bottom_value checked_add_unat [of bottom STACK_SIZE] by (simp add: stack_consts)
qed

text \<open>Stacks never overlap: two tasks with different ids, created at any time, have disjoint slots of a guard page and
  four stack pages, and the address arithmetic does not overflow for any id the scheduler accepts.\<close>

theorem stacks_disjoint:
  assumes "task_new map_to tr n p e (pt, k) = Some (t, pt', k')" "task_new map_to tr m q f (pu, l) = Some (u, pu', l')"
    "task_id t \<noteq> task_id u"
  shows "{unat (stack_top t) - 5 * 4096 ..< unat (stack_top t)} \<inter> {unat (stack_top u) - 5 * 4096 ..< unat (stack_top u)} = {}
    \<and> (unat i < MAX_TASKS \<longrightarrow> (\<exists>b top. stack_bottom i = Some b \<and> checked_add b STACK_SIZE = Some top))"
proof -
  have "unat (task_id t) < unat (task_id u) \<or> unat (task_id u) < unat (task_id t)" using assms(3) by (metis linorder_neqE_nat word_unat_eq_iff)
  moreover have "slot_start i + 20480 \<le> slot_start j" if "i < j" for i j using that by (simp add: slot_start_def)
  ultimately show ?thesis
    using task_new_top [OF assms(1)] task_new_top [OF assms(2)] stack_bottom_total [of i] by fastforce
qed

section \<open>Recycled ids\<close>

text \<open>An id cannot be used twice: the stack pages of a task stay mapped when it dies, so creating a task while the id
  recycled last is that of an earlier task makes \<open>map_to\<close> fail and the kernel panic.\<close>

theorem recycled_id_panics:
  assumes "mapper_ok map_to mapped" "resources_ok M k" "task_new map_to tr n p e (pt, k) = Some (t, pt1, k1)"
    "mapped pt1 \<subseteq> mapped pt2" "free_list (id_allocator k2) \<noteq> []" "last (free_list (id_allocator k2)) = task_id t"
  shows "task_new map_to tr m q f (pt2, k2) = None"
proof (cases "stack_bottom (task_id t)")
  case (Some b)
  have "b \<in> new_task_pages (task_id t)" by (auto simp: new_task_pages_def Some intro!: image_eqI [of _ _ 0])
  then have b: "b \<in> mapped pt2" using task_new_result(8) [OF assms(1-3)] assms(4) by auto
  have "[0..<unat STACK_PAGES] = 0 # [1..<unat STACK_PAGES]" by (simp add: STACK_PAGES_def upt_conv_Cons)
  moreover have "map_stack_page map_to b 0 ([], pt2, k) = None" for k
    using alloc_and_map_mapped [OF assms(1) b] by (simp add: map_stack_page_def checked_mul_def checked_add_def)
  ultimately show ?thesis using assms(5,6) Some
    by (auto simp: task_new_def id_alloc_def split: bind_split)
qed (use assms(5,6) in \<open>simp add: task_new_def id_alloc_def\<close>)

text \<open>A mapper that keeps the list of mapped pages and needs no frames of its own.\<close>

definition list_mapper :: "u64 list map_fn" where
  "list_mapper page f fl = (\<lambda>(pt, fa). if page \<in> set pt then (False, pt, fa) else (True, page # pt, fa))"

lemma list_mapper_ok: "mapper_ok list_mapper set"
  by (auto simp: mapper_ok_def list_mapper_def split: if_splits)

definition demo_empty :: kernel where
  "demo_empty = (kernel_boot context_empty)\<lparr>frame_allocator := Some demo_fa\<rparr>"

lemma demo_empty_resources: "resources_ok {#} demo_empty"
  by (simp add: resources_ok_def demo_empty_def demo_fa_def fa_wf_def kernel_boot_def id_new_def)

lemma four_pages: "[0..<unat STACK_PAGES] = [0, 1, 2, 3]"
  by (simp add: STACK_PAGES_def upt_rec)

lemmas task_eval = task_new_def four_pages map_stack_page_def alloc_and_map_def list_mapper_def id_alloc_def stack_bottom_def
  stack_consts frame_eval demo_fa_def demo_empty_def kernel_boot_def id_new_def

lemma demo_new:
  obtains t pt k1 where "task_new list_mapper 7 ''a'' Priority.Normal 9 ([], demo_empty) = Some (t, pt, k1)" "task_id t = 1"
    "id_allocator k1 = \<lparr>id_next = 2, free_list = []\<rparr>"
  by (simp add: task_eval)

lemma demo_second:
  obtains t pt k1 where "task_new list_mapper 7 ''b'' Priority.Normal 9 ([], demo_empty\<lparr>id_allocator := \<lparr>id_next = 2, free_list = []\<rparr>\<rparr>) = Some (t, pt, k1)"
    "task_id t = 2"
  by (simp add: task_eval)

theorem stacks_disjoint_witness:
  "\<exists>(t :: Task) (u :: Task). task_id t = 1 \<and> task_id u = 2 \<and>
     {unat (stack_top t) - 5 * 4096 ..< unat (stack_top t)} \<inter> {unat (stack_top u) - 5 * 4096 ..< unat (stack_top u)} = {}
     \<and> (\<exists>b top. stack_bottom 3 = Some b \<and> checked_add b STACK_SIZE = Some top)"
proof -
  obtain t pt k1 where t: "task_new list_mapper 7 ''a'' Priority.Normal 9 ([], demo_empty) = Some (t, pt, k1)" "task_id t = 1"
    by (rule demo_new)
  obtain u pu l where u: "task_new list_mapper 7 ''b'' Priority.Normal 9 ([], demo_empty\<lparr>id_allocator := \<lparr>id_next = 2, free_list = []\<rparr>\<rparr>) = Some (u, pu, l)"
    "task_id u = 2" by (rule demo_second)
  from stacks_disjoint [OF t(1) u(1), of 3] t(2) u(2) show ?thesis
    by (intro exI [of _ t] exI [of _ u]) (simp add: MAX_TASKS_def)
qed

theorem recycled_id_panics_witness:
  "\<exists>t pt k1. task_new list_mapper 7 ''a'' Priority.Normal 9 ([], demo_empty) = Some (t, pt, k1)
     \<and> task_new list_mapper 7 ''b'' Priority.Normal 9 (pt, k1\<lparr>id_allocator := id_free (task_id t) (id_allocator k1)\<rparr>) = None"
proof -
  obtain t pt k1 where t: "task_new list_mapper 7 ''a'' Priority.Normal 9 ([], demo_empty) = Some (t, pt, k1)" "task_id t = 1"
    by (rule demo_new)
  let ?k = "k1\<lparr>id_allocator := id_free (task_id t) (id_allocator k1)\<rparr>"
  have "task_new list_mapper 7 ''b'' Priority.Normal 9 (pt, ?k) = None"
    by (rule recycled_id_panics [OF list_mapper_ok demo_empty_resources t(1) subset_refl]) (simp_all add: id_free_def)
  with t show ?thesis by blast
qed

end
