(* ===== verification/Kernel_Steps.thy ===== *)
theory Kernel_Steps
  imports Syscalls Ipc_Properties Task_Properties
begin

text \<open>
  The kernel as a state machine: every system call, timer interrupt, IPC call, capability operation, gated service and agent creation
  is a step, in any order.  One invariant covers all tables and every step keeps it.
\<close>

section \<open>The invariant\<close>

definition kernel_inv :: "kernel \<Rightarrow> bool" where
  [wf_defs]: "kernel_inv k \<longleftrightarrow> kern_ok k \<and> ipc_wf k \<and> cap_reachable (cap_table k) \<and> is_heap deadline_le (dl_heap (deadlines k))
     \<and> cs_wf (contexts_store k, fs k)"

lemma kern_ok_cong:
  "cpu k' = cpu k \<Longrightarrow> frame_allocator k' = frame_allocator k \<Longrightarrow> id_allocator k' = id_allocator k \<Longrightarrow> kern_ok k' = kern_ok k"
  using resources_ok_cong [of k' k] by (simp add: kern_ok_def)

lemma kern_ok_updates [simp]:
  "kern_ok (k\<lparr>cap_table := t\<rparr>) = kern_ok k" "kern_ok (k\<lparr>next_msg_id := i\<rparr>) = kern_ok k" "kern_ok (k\<lparr>mailboxes := m\<rparr>) = kern_ok k"
  "kern_ok (k\<lparr>channels := c\<rparr>) = kern_ok k" "kern_ok (k\<lparr>next_channel_id := i\<rparr>) = kern_ok k" "kern_ok (k\<lparr>pending := p\<rparr>) = kern_ok k"
  "kern_ok (k\<lparr>replies := r\<rparr>) = kern_ok k" "kern_ok (k\<lparr>shared_regions := g\<rparr>) = kern_ok k" "kern_ok (k\<lparr>registry := reg\<rparr>) = kern_ok k"
  "kern_ok (k\<lparr>deadlines := d\<rparr>) = kern_ok k" "kern_ok (k\<lparr>gpu := gp\<rparr>) = kern_ok k" "kern_ok (k\<lparr>ticks := n\<rparr>) = kern_ok k"
  "kern_ok (k\<lparr>contexts_store := cs\<rparr>) = kern_ok k" "kern_ok (k\<lparr>fs := f\<rparr>) = kern_ok k"
  "kern_ok (k\<lparr>sched_locked := a\<rparr>) = kern_ok k" "kern_ok (k\<lparr>pending_locked := b\<rparr>) = kern_ok k" "kern_ok (k\<lparr>deadlines_locked := e\<rparr>) = kern_ok k"
  by (rule kern_ok_cong; simp)+

section \<open>IPC calls\<close>

lemma send_kern_ok:
  assumes "send s r ty pl ct rt cap k = Some (res, k')" "kern_ok k" shows "kern_ok k'"
  using assms by (cases rule: send_cases) (simp_all add: kern_ok_unblock)

lemma request_kern_ok:
  assumes "request s r pl cap d k = Some (res, k')" "kern_ok k" shows "kern_ok k'"
  using assms by (cases rule: request_cases) (auto dest: send_kern_ok)

lemma expire_kern_ok: "kern_ok k \<Longrightarrow> kern_ok (fold expire_request is k)"
proof (induction "is" arbitrary: k)
  case (Cons i "is")
  have "kern_ok (expire_request i k)" using Cons.prems by (auto simp: expire_request_def kern_ok_unblock split: option.splits)
  with Cons.IH show ?case by simp
qed simp

lemma region_kern_ok:
  assumes "create_region own sz k = Some (res, k')" "kern_ok k" shows "kern_ok k'"
proof -
  from assms(2) obtain fa where fa: "frame_allocator k = Some fa" "fa_wf fa" and r: "resources_ok (footprints (sched (cpu k))) k"
    by (auto simp: kern_ok_def resources_ok_def)
  from assms(1) fa show ?thesis
  proof (cases rule: create_region_cases)
    case (created reg fa' F)
    have "resources_ok (footprints (sched (cpu k))) k'"
      by (rule resources_ok_shrink [where fa' = fa', OF r _ fa(1)]) (use created in auto)
    then show ?thesis using assms(2) created by (simp add: kern_ok_def)
  next
    case (exhausted fa')
    have "resources_ok (footprints (sched (cpu k))) k'"
      by (rule resources_ok_shrink [where fa' = fa', OF r _ fa(1)]) (use exhausted in auto)
    then show ?thesis using assms(2) exhausted by (simp add: kern_ok_def)
  qed
qed

lemma ipc_do_kern_ok:
  assumes "ipc_do c k = Some (es, k')" "kern_ok k" shows "kern_ok k'"
proof (cases c)
  case (Do_send s r ty pl ct rt cap)
  with assms obtain n where "send s r ty pl ct rt cap k = Some (n, k')" by auto
  then show ?thesis by (rule send_kern_ok [OF _ assms(2)])
next
  case (Do_request s r pl cap d)
  with assms obtain n where "request s r pl cap d k = Some (n, k')" by auto
  then show ?thesis by (rule request_kern_ok [OF _ assms(2)])
next
  case (Do_publish name s pl cap)
  with assms obtain n where p: "publish name s pl cap k = Some (n, k')" by auto
  have "kern_ok (fold (publish_to s pl) ts k)" for ts using fold_publish_frame [of s pl ts k] assms(2) by auto
  with p assms(2) show ?thesis by (auto simp: publish_def Let_def split: sum.splits option.splits)
next
  case (Do_receive t)
  with assms show ?thesis by (auto simp: receive_def split: option.splits prod.splits)
next
  case (Do_reply s i pl cap)
  with assms show ?thesis by (auto simp: reply_def Let_def kern_ok_unblock split: option.splits)
qed (use assms in \<open>auto simp: register_mailbox_def unregister_mailbox_def channel_create_def subscribe_def unsubscribe_def
      collect_reply_def check_timeouts_def grant_access_def Let_def expire_kern_ok split: option.splits sum.splits bind_splits if_splits
      dest: region_kern_ok\<close>)

text \<open>What IPC calls do to the tables they do not own, and to the capability table.\<close>

definition only_ipc :: "kernel \<Rightarrow> kernel \<Rightarrow> bool" where
  "only_ipc k k' \<longleftrightarrow> deadlines k' = deadlines k \<and> contexts_store k' = contexts_store k \<and> fs k' = fs k \<and> registry k' = registry k
     \<and> cap_step\<^sup>*\<^sup>* (cap_table k) (cap_table k')"

lemma only_ipc_refl [simp, intro]: "only_ipc k k"
  by (simp add: only_ipc_def)

lemma send_only_ipc: "send s r ty pl ct rt cap k = Some (res, k') \<Longrightarrow> only_ipc k k'"
  by (cases rule: send_cases, assumption) (simp_all add: only_ipc_def)

lemma expire_only_ipc: "only_ipc k (fold expire_request is k)"
proof (induction "is" arbitrary: k)
  case (Cons i "is")
  have "only_ipc k (expire_request i k)" by (auto simp: expire_request_def only_ipc_def split: option.splits)
  with Cons.IH [of "expire_request i k"] show ?case by (auto simp: only_ipc_def)
qed simp

lemma create_root_steps: "cap_create_root own res p t = Some (i, t') \<Longrightarrow> cap_step\<^sup>*\<^sup>* t t'"
  by (blast intro: cap_step.create_root)

lemma region_only_ipc:
  "create_region own sz k = Some (res, k') \<Longrightarrow> only_ipc k k'"
  by (auto simp: create_region_def only_ipc_def Let_def split: option.splits bind_splits) (erule create_root_steps)

lemma grant_only_ipc:
  "grant_access reg g h cap k = Some (res', k') \<Longrightarrow> only_ipc k k'"
  by (auto simp: grant_access_def only_ipc_def Let_def split: option.splits sum.splits bind_splits intro: create_root_steps)

lemma request_only_ipc:
  assumes "request s r pl cap d k = Some (res, k')" shows "only_ipc k k'"
  using assms by (cases rule: request_cases) (auto simp: only_ipc_def dest!: send_only_ipc)

lemma ipc_do_only_ipc:
  assumes "ipc_do c k = Some (es, k')" shows "only_ipc k k'"
proof (cases c)
  case (Do_send s r ty pl ct rt cap)
  with assms obtain n where "send s r ty pl ct rt cap k = Some (n, k')" by auto
  then show ?thesis by (rule send_only_ipc)
next
  case (Do_request s r pl cap d)
  with assms obtain n where "request s r pl cap d k = Some (n, k')" by auto
  then show ?thesis by (rule request_only_ipc)
next
  case (Do_publish name s pl cap)
  with assms obtain n where p: "publish name s pl cap k = Some (n, k')" by auto
  have "only_ipc k (fold (publish_to s pl) ts k)" for ts using fold_publish_frame [of s pl ts k] by (auto simp: only_ipc_def)
  with p show ?thesis by (auto simp: publish_def Let_def split: sum.splits option.splits)
next
  case (Do_receive t)
  with assms show ?thesis by (auto simp: receive_def only_ipc_def split: option.splits prod.splits)
next
  case (Do_reply s i pl cap)
  with assms show ?thesis by (auto simp: reply_def Let_def only_ipc_def split: option.splits)
next
  case Do_timeouts
  with assms show ?thesis by (auto simp: check_timeouts_def expire_only_ipc)
qed (use assms in \<open>auto simp: register_mailbox_def unregister_mailbox_def channel_create_def subscribe_def unsubscribe_def
      collect_reply_def only_ipc_def Let_def split: option.splits sum.splits if_splits
      dest!: region_only_ipc grant_only_ipc\<close>)

section \<open>Steps\<close>

text \<open>
  The step relation.  \<open>lock_flags\<close> is the interrupted code taking or releasing a lock; \<open>capability\<close> covers the three operations on the
  capability table; \<open>service\<close> the gated services.  The page tables and the network state are carried along.
\<close>

inductive kernel_step :: "'pt map_fn \<Rightarrow> (u64 \<Rightarrow> 'n \<Rightarrow> 'n) \<Rightarrow> 'pt \<times> 'n \<times> kernel \<Rightarrow> 'pt \<times> 'n \<times> kernel \<Rightarrow> bool" for map_to poll where
  syscall: "sys_dispatch mem ret fuel nr a1 a2 a3 a4 a5 k = Some (r, k') \<Longrightarrow> kernel_step map_to poll (pt, n, k) (pt, n, k')"
| timer: "timer_handler nl poll (n, k) = Some (n', k') \<Longrightarrow> kernel_step map_to poll (pt, n, k) (pt, n', k')"
| lock_flags: "kernel_step map_to poll (pt, n, k) (pt, n, k\<lparr>sched_locked := a, pending_locked := b, deadlines_locked := c\<rparr>)"
| ipc: "ipc_do c k = Some (es, k') \<Longrightarrow> kernel_step map_to poll (pt, n, k) (pt, n, k')"
| capability: "cap_step (cap_table k) t \<Longrightarrow> kernel_step map_to poll (pt, n, k) (pt, n, k\<lparr>cap_table := t\<rparr>)"
| inference: "submit_request ag mdl pri dl cap k = Some (r, k') \<Longrightarrow> kernel_step map_to poll (pt, n, k) (pt, n, k')"
| store: "storage_set ag key val cap k = Some (r, k') \<Longrightarrow> length val < 2 ^ 64 \<Longrightarrow> kernel_step map_to poll (pt, n, k) (pt, n, k')"
| spawn: "agent_spawn map_to tr par cfg entry (pt, k) = Some (r, pt', k') \<Longrightarrow> kernel_step map_to poll (pt, n, k) (pt', n, k')"
| suspend: "kernel_step map_to poll (pt, n, k) (pt, n, k\<lparr>registry := snd (suspend i (registry k))\<rparr>)"
| resume: "kernel_step map_to poll (pt, n, k) (pt, n, k\<lparr>registry := snd (resume i (registry k))\<rparr>)"

inductive_cases kernel_stepE: "kernel_step map_to poll s s'"

subsection \<open>Each kind of step keeps the invariant\<close>

lemma cap_reachable_steps: "cap_reachable t \<Longrightarrow> cap_step\<^sup>*\<^sup>* t t' \<Longrightarrow> cap_reachable t'"
  by (auto simp: cap_reachable_def)

lemma kernel_inv_ipc: "ipc_do c k = Some (es, k') \<Longrightarrow> kernel_inv k \<Longrightarrow> kernel_inv k'"
  using ipc_do_kern_ok ipc_do_wf ipc_do_only_ipc cap_reachable_steps by (fastforce simp: kernel_inv_def only_ipc_def)

lemma kernel_inv_send: "send s r ty pl ct rt cap k = Some (res, k') \<Longrightarrow> kernel_inv k \<Longrightarrow> kernel_inv k'"
  by (rule kernel_inv_ipc [of "Do_send s r ty pl ct rt cap"]) auto

lemma kernel_inv_receive: "kernel_inv k \<Longrightarrow> kernel_inv (snd (receive t k))"
proof -
  assume "kernel_inv k"
  moreover obtain m k' where "receive t k = (m, k')" by fastforce
  ultimately show ?thesis
    using kernel_inv_ipc [of "Do_receive t" k "case m of None \<Rightarrow> [] | Some m \<Rightarrow> [Taken t m]" k'] by simp
qed

lemma kernel_inv_store:
  assumes "store_set ag key val k = Some k'" "length val < 2 ^ 64" "kernel_inv k" shows "kernel_inv k'"
proof -
  from assms(1) obtain cs f where c: "cs_set (ticks k) ag key val (contexts_store k, fs k) = Some (cs, f)"
    and k': "k' = k\<lparr>contexts_store := cs, fs := f\<rparr>" by (auto simp: store_set_def split: bind_splits)
  have "cs_wf (cs, f)" using cs_set_wf(1) [OF _ c assms(2)] assms(3) by (simp add: kernel_inv_def)
  with assms(3) k' show ?thesis by (simp add: kernel_inv_def ipc_wf_def)
qed

text \<open>The scheduler's entry points change nothing but the tasks' resources.\<close>

lemma cleanup_frame:
  assumes "cleanup_dead_task t k = Some k'"
  shows "k' = k\<lparr>frame_allocator := frame_allocator k', mailboxes := bt_remove (task_id t) (mailboxes k), id_allocator := id_allocator k'\<rparr>"
  using assms by (auto simp: cleanup_dead_task_def unregister_mailbox_def split: option.splits bind_splits)

definition same_tables :: "kernel \<Rightarrow> kernel \<Rightarrow> bool" where
  "same_tables k k' \<longleftrightarrow> cap_table k' = cap_table k \<and> deadlines k' = deadlines k \<and> contexts_store k' = contexts_store k \<and> fs k' = fs k
     \<and> (ipc_wf k \<longrightarrow> ipc_wf k')"

lemma same_tables_cleanup:
  assumes "cleanup_dead_task t k = Some k'" shows "same_tables k k'"
proof -
  note f = cleanup_frame [OF assms]
  have "cap_table k' = cap_table k" "deadlines k' = deadlines k" "contexts_store k' = contexts_store k" "fs k' = fs k"
    by (subst f, simp)+
  moreover have "ipc_wf k'" if "ipc_wf k"
    using mailbox_ipc_wf(2) [OF that, of "task_id t"] by (subst f) (simp add: unregister_mailbox_def ipc_wf_def)
  ultimately show ?thesis by (simp add: same_tables_def)
qed

lemma reschedule_tables:
  assumes "reschedule cleanup_dead_task (s, k) = Some (ids, s', k')" shows "same_tables k k'"
proof -
  from assms have "k' = k \<or> (\<exists>t. cleanup_dead_task t k = Some k')"
    by (auto simp: reschedule_def put_back_def Let_def split: bind_splits prod.splits option.splits TaskState.splits)
  then show ?thesis using same_tables_cleanup by (auto simp: same_tables_def)
qed

lemma yield_tables:
  assumes "yield_now ret cleanup_dead_task (p, k) = Some (sw, p', k')" shows "same_tables k (k'\<lparr>cpu := p'\<rparr>)"
proof -
  from assms obtain ids s' where "reschedule cleanup_dead_task (sched p, k) = Some (ids, s', k')"
    by (auto simp: yield_now_def Let_def split: bind_splits)
  from reschedule_tables [OF this] show ?thesis by (simp add: same_tables_def)
qed

lemma kernel_inv_tables: "kernel_inv k \<Longrightarrow> same_tables k k' \<Longrightarrow> kern_ok k' \<Longrightarrow> kernel_inv k'"
  by (simp add: kernel_inv_def same_tables_def)

lemma kernel_inv_sched:
  assumes "kernel_inv k"
  shows "k_yield_now ret k = Some (sw, k') \<Longrightarrow> kernel_inv k'"
    and "k_block_and_yield ret k = Some (sw, k') \<Longrightarrow> kernel_inv k'"
    and "k_exit_current ret k = Some k' \<Longrightarrow> kernel_inv k'"
proof -
  have ok: "kern_ok k" using assms by (simp add: kernel_inv_def)
  show "kernel_inv k'" if "k_yield_now ret k = Some (sw, k')"
    by (rule kernel_inv_tables [OF assms]) (use that kern_ok_sched(1) [OF ok, of ret] in \<open>auto simp: k_yield_now_def split: bind_splits intro: yield_tables\<close>)
  show "kernel_inv k'" if "k_block_and_yield ret k = Some (sw, k')"
    by (rule kernel_inv_tables [OF assms])
      (use that kern_ok_sched(2) [OF ok, of ret] in \<open>auto simp: k_block_and_yield_def block_and_yield_def split: bind_splits intro: yield_tables\<close>)
  show "kernel_inv k'" if "k_exit_current ret k = Some k'"
    by (rule kernel_inv_tables [OF assms])
      (use that kern_ok_sched(3) [OF ok that] in \<open>auto simp: k_exit_current_def exit_current_def split: bind_splits if_splits intro: yield_tables\<close>)
qed

lemma kernel_inv_sleep:
  assumes "sys_sleep ret n k = Some (r, k')" "kernel_inv k" shows "kernel_inv k'"
proof -
  have "kernel_inv (k\<lparr>deadlines := snd (dl_schedule t d (deadlines k))\<rparr>)" for t d
    using assms(2) is_heap_schedule [of "deadlines k" t d] by (simp add: kernel_inv_def ipc_wf_def)
  with assms show ?thesis by (auto simp: sys_sleep_def split: bind_splits option.splits dest: kernel_inv_sched(2))
qed

lemma kernel_inv_handlers:
  assumes inv: "kernel_inv k"
  shows "sys_exit ret k = Some (r, k') \<Longrightarrow> kernel_inv k'" "sys_yield ret k = Some (r, k') \<Longrightarrow> kernel_inv k'"
    "sys_agent_kill fuel i k = Some (r, k') \<Longrightarrow> kernel_inv k'" "sys_ipc_send mem s t p l cap k = Some (r, k') \<Longrightarrow> kernel_inv k'"
    "kernel_inv (snd (sys_ipc_receive i k))" "sys_storage_set mem i p l q m k = Some (r, k') \<Longrightarrow> kernel_inv k'"
proof -
  show "sys_exit ret k = Some (r, k') \<Longrightarrow> kernel_inv k'"
    by (auto simp: sys_exit_def split: bind_splits dest: kernel_inv_sched(3) [OF inv])
  show "sys_yield ret k = Some (r, k') \<Longrightarrow> kernel_inv k'"
    by (auto simp: sys_yield_def split: bind_splits dest: kernel_inv_sched(1) [OF inv])
  show "sys_agent_kill fuel i k = Some (r, k') \<Longrightarrow> kernel_inv k'"
    using inv by (auto simp: sys_agent_kill_def kernel_inv_def ipc_wf_def split: bind_splits)
  show "sys_ipc_send mem s t p l cap k = Some (r, k') \<Longrightarrow> kernel_inv k'"
    using inv by (auto simp: sys_ipc_send_def split: if_splits bind_splits dest: kernel_inv_send)
  have "snd (sys_ipc_receive i k) = snd (receive i k)" by (auto simp: sys_ipc_receive_def split: prod.splits option.splits)
  then show "kernel_inv (snd (sys_ipc_receive i k))" using kernel_inv_receive [OF inv] by simp
  have "length (from_raw_parts mem q m) < 2 ^ 64" using unsigned_less [of m] by (simp add: from_raw_parts_def)
  then show "sys_storage_set mem i p l q m k = Some (r, k') \<Longrightarrow> kernel_inv k'"
    using inv by (auto simp: sys_storage_set_def split: if_splits bind_splits dest: kernel_inv_store)
qed

lemma kernel_inv_syscall:
  assumes "sys_dispatch mem ret fuel nr a1 a2 a3 a4 a5 k = Some (r, k')" "kernel_inv k" shows "kernel_inv k'"
  using assms kernel_inv_handlers(5) [OF assms(2), of a1] unfolding sys_dispatch_def
  by (auto split: if_splits prod.splits dest: kernel_inv_handlers kernel_inv_sleep)

lemma kernel_inv_timer:
  assumes "timer_handler nl poll (n, k) = Some (n', k')" "kernel_inv k" shows "kernel_inv k'"
proof -
  let ?k0 = "k\<lparr>ticks := ticks k + 1, cpu := timer_tick (cpu k)\<rparr>"
  have "kern_ok ?k0" using assms(2) by (auto simp: kernel_inv_def kern_ok_def timer_tick_def resources_ok_def)
  then have k0: "kernel_inv ?k0" using assms(2) by (simp add: kernel_inv_def)
  have k1: "kernel_inv (check_timeouts ?k0)" by (rule kernel_inv_ipc [of Do_timeouts, OF _ k0]) simp
  have tick: "kernel_inv (k_deadline_tick t k)" if inv: "kernel_inv k" for t k
  proof -
    obtain q s where d: "dl_tick t (deadlines_locked k) (sched_locked k) (deadlines k, sched (cpu k)) = (q, s)" by fastforce
    have wf: "is_heap deadline_le (dl_heap (deadlines k))" "sched_wf (sched (cpu k))" using inv by (auto simp: kernel_inv_def kern_ok_def)
    have fold: "footprints (fold (\<lambda>e s. snd (unblock (dl_task e) s)) es s) = footprints s \<and> sched_wf (fold (\<lambda>e s. snd (unblock (dl_task e) s)) es s)"
      if "sched_wf s" for es :: "DeadlineEntry list" and s
      using that
    proof (induction es arbitrary: s)
      case (Cons e es)
      then show ?case
        using Cons.IH [OF sched_wf_unblock [OF Cons.prems, of "dl_task e"]] unblock_footprints [of s "dl_task e"] by (simp add: sched_wf_def)
    qed simp
    from check_expired_run [OF wf(1), of t "sched_locked k" "sched (cpu k)" 0] d fold [OF wf(2)] wf
    have "is_heap deadline_le (dl_heap q) \<and> sched_wf s \<and> footprints s = footprints (sched (cpu k))"
      by (auto simp: dl_tick_def split: if_splits)
    then show ?thesis using d inv
      by (simp add: k_deadline_tick_def kernel_inv_def kern_ok_def ipc_wf_def resources_ok_def)
  qed
  show ?thesis using assms(1) tick k0 k1 by (auto simp: timer_handler_def Let_def split: bind_splits if_splits)
qed

lemma task_new_frame:
  assumes "task_new map_to tr name pri entry (pt, k) = Some (t, pt', k')"
  obtains fa ids where "k' = k\<lparr>id_allocator := ids, frame_allocator := fa\<rparr>"
proof -
  from assms obtain ids bottom fr where loop:
    "for_each (map_stack_page map_to bottom) [0..<unat STACK_PAGES] ([], pt, k\<lparr>id_allocator := ids\<rparr>) = Some (fr, pt', k')"
    by (auto simp: task_new_def split: bind_splits)
  have "\<exists>fa. snd (snd (fr, pt', k')) = k\<lparr>id_allocator := ids, frame_allocator := fa\<rparr>"
  proof (rule for_each_inv [OF loop])
    show "\<exists>fa. snd (snd ([], pt, k\<lparr>id_allocator := ids\<rparr>)) = k\<lparr>id_allocator := ids, frame_allocator := fa\<rparr>"
      by (rule exI [of _ "frame_allocator k"]) simp
  qed (auto simp: map_stack_page_def alloc_and_map_def Let_def split: bind_splits prod.splits if_splits)
  then show thesis using that by auto
qed

lemma kernel_inv_spawn:
  assumes "mapper_ok map_to mapped" "agent_spawn map_to tr par cfg entry (pt, k) = Some (r, pt', k')" "kernel_inv k"
  shows "kernel_inv k'"
proof (cases "children_full (registry k) par")
  case True
  with assms show ?thesis by (simp add: agent_spawn_def)
next
  case False
  with assms(2) obtain t k1 reg where t: "task_new map_to tr (agent_name cfg) Priority.Normal entry (pt, k) = Some (t, pt', k1)"
    and sp: "k_spawn t (register_mailbox (task_id t) k1\<lparr>registry := reg\<rparr>) = Some k'"
    by (auto simp: agent_spawn_def Let_def split: bind_splits)
  obtain fa ids where k1: "k1 = k\<lparr>id_allocator := ids, frame_allocator := fa\<rparr>" by (rule task_new_frame [OF t])
  from sp obtain p where p: "k_spawn t k1 = Some (k1\<lparr>cpu := p\<rparr>)" "k' = register_mailbox (task_id t) k1\<lparr>registry := reg, cpu := p\<rparr>"
    by (auto simp: k_spawn_def register_mailbox_def split: bind_splits)
  have "kern_ok (k1\<lparr>cpu := p\<rparr>)" using kern_ok_create [OF assms(1) _ t p(1)] assms(3) by (simp add: kernel_inv_def)
  then have "kern_ok k'" using kern_ok_cong [of k' "k1\<lparr>cpu := p\<rparr>"] p(2) by (simp add: register_mailbox_def)
  moreover have "ipc_wf k'"
    using mailbox_ipc_wf(1) [of k "task_id t"] assms(3) p(2) k1 by (simp add: kernel_inv_def ipc_wf_def register_mailbox_def)
  ultimately show ?thesis using assms(3) p(2) k1 by (simp add: kernel_inv_def register_mailbox_def)
qed

lemma kernel_inv_step:
  assumes "kernel_step map_to poll s s'" "mapper_ok map_to mapped" "kernel_inv (snd (snd s))" shows "kernel_inv (snd (snd s'))"
  using assms
proof (cases rule: kernel_step.cases)
  case (inference ag mdl pri dl cap k r k' pt n)
  with assms(3) show ?thesis
    by (auto simp: submit_request_def kernel_inv_def ipc_wf_def split: sum.splits prod.splits)
next
  case (store ag key val cap k r k' pt n)
  with assms(3) show ?thesis by (auto simp: storage_set_def split: sum.splits bind_splits dest: kernel_inv_store)
next
  case (capability k t pt n)
  with assms(3) show ?thesis by (auto simp: kernel_inv_def intro: cap_reachable_step)
qed (auto dest: kernel_inv_syscall kernel_inv_timer kernel_inv_ipc kernel_inv_spawn simp: kernel_inv_def ipc_wf_def)

lemma kernel_inv_steps:
  assumes "(kernel_step map_to poll)\<^sup>*\<^sup>* s s'" "mapper_ok map_to mapped" "kernel_inv (snd (snd s))" shows "kernel_inv (snd (snd s'))"
  using assms by (induction rule: rtranclp_induct) (auto dest: kernel_inv_step)

section \<open>The initial state\<close>

definition kernel_start :: "CpuContext \<Rightarrow> BitmapFrameAllocator \<Rightarrow> kernel" where
  "kernel_start r fa = (kernel_boot r)\<lparr>frame_allocator := Some fa\<rparr>"

lemma kernel_start_inv:
  assumes "fa_init entries = Some fa" shows "kernel_inv (kernel_start r fa)"
proof -
  have fa: "fa_wf fa" using fa_init_result [OF assms] by metis
  have s: "sched_wf sched_new"
    by (simp add: sched_wf_def queue_ok_def ids_valid_def task_ids_def all_tasks_def sched_new_def less_Suc_eq numeral_3_eq_3)
  have f: "footprints sched_new = {#}" by (simp add: footprints_def all_tasks_def sched_new_def)
  have "kern_ok (kernel_start r fa)"
    using fa s f by (simp add: kern_ok_def kernel_start_def kernel_boot_def boot_cpu_def resources_ok_def id_new_def)
  moreover have "ipc_wf (kernel_start r fa)" using ipc_wf_boot [of r] by (simp add: kernel_start_def)
  ultimately show ?thesis
    using cs_wf_new by (simp add: kernel_inv_def kernel_start_def kernel_boot_def cap_reachable_def dl_new_def is_heap_def)
qed

end
