(* ===== verification/Kernel_Properties.thy ===== *)
theory Kernel_Properties
  imports Kernel_Steps
begin

text \<open>System calls: the entry sequence, when a call can panic, which calls exist, and what they check.\<close>

section \<open>Exit and panics\<close>

lemma exit_none_iff:
  assumes "kern_ok k"
  shows "k_exit_current ret k = None \<longleftrightarrow> (\<forall>q \<in> set (queues (sched (cpu k))). q = [])"
proof -
  have ready: "first_ready (sched (cpu k)) = None \<longleftrightarrow> (\<forall>q \<in> set (queues (sched (cpu k))). q = [])"
  proof -
    have "first_ready (sched (cpu k)) = None \<longleftrightarrow> filter (\<lambda>q. q \<noteq> []) (queues (sched (cpu k))) = []"
      by (simp add: first_ready_def split: list.split)
    then show ?thesis by (simp add: filter_empty_conv)
  qed
  show ?thesis
  proof (cases "current (sched (cpu k))")
    case (Some t)
    obtain k1 where "(k_exit_current ret k = None) = (first_ready (sched (cpu k)) = None)"
      by (rule exit_current_eq [OF assms Some, of ret])
    with ready show ?thesis by simp
  next
    case None
    let ?x = "(cpu k)\<lparr>interrupts_on := False, sched := kill_current (sched (cpu k))\<rparr>"
    have same: "sched ?x = sched (cpu k)" using None by (simp add: kill_current_def)
    have ok: "sched_wf (sched ?x)" "length (contexts ?x) = MAX_TASKS" "footprints (sched ?x) = footprints (sched (cpu k))"
      using assms same by (simp_all add: kern_ok_def)
    obtain sw p k1 where y: "yield_now ret cleanup_dead_task (?x, k) = Some (sw, p, k1)"
      and sw: "sw \<longleftrightarrow> current (sched p) \<noteq> None \<and> current_id (sched p) \<noteq> current_id (sched ?x)"
      and p: "kern_ok (k1\<lparr>cpu := p\<rparr>)"
      by (rule kern_ok_yield [OF assms ok(3,1,2)])
    from y obtain ids where r: "reschedule cleanup_dead_task (sched ?x, k) = Some (ids, sched p, k1)"
      by (auto simp: yield_now_def switch_to_def Let_def split: bind_splits prod.splits if_splits)
    have "current (sched p) = None \<longleftrightarrow> first_ready (sched (cpu k)) = None"
      using reschedule_current [OF ok(1) r] None unfolding same by (simp split: option.splits)
    moreover have "current_id (sched p) \<noteq> current_id (sched ?x)" if "current (sched p) \<noteq> None"
      using that p current_id_pos [of "sched p"] None unfolding same by (auto simp: kern_ok_def sched_wf_def current_id_def)
    ultimately show ?thesis using y sw ready by (auto simp: k_exit_current_def exit_current_def)
  qed
qed

lemma send_total: "\<exists>x. send s r ty pl None rt cap k = Some x"
  by (auto simp: send_def next_message_id_def split: sum.splits)



section \<open>Which calls exist\<close>

text \<open>System calls without a handler are refused: every number outside the eleven that the dispatcher handles, among them
  the numbers declared for spawning agents, requests, replies, networking, deletion, delegation, revocation and deadlines, returns
  \<open>-1\<close> and changes nothing.\<close>

theorem unhandled_syscalls:
  assumes "nr \<notin> {SYS_EXIT, SYS_PRINT, SYS_YIELD, SYS_AGENT_LIST, SYS_AGENT_STATUS, SYS_AGENT_KILL, SYS_IPC_SEND, SYS_IPC_RECEIVE,
      SYS_STORAGE_SET, SYS_STORAGE_GET, SYS_TIMER_SLEEP}"
  shows "sys_dispatch mem ret fuel nr a1 a2 a3 a4 a5 k = Some (Returned (- 1), k)"
  using assms by (simp add: sys_dispatch_def)

theorem unhandled_syscalls_witness:
  "sys_dispatch (\<lambda>_. 0) 0 0 SYS_CAP_REVOKE 1 0 0 0 0 demo_kernel = Some (Returned (- 1), demo_kernel)"
  by (rule unhandled_syscalls) (simp add: sys_defs)

section \<open>The entry sequence\<close>

text \<open>C33. The entry code passes the arguments and restores the caller: whatever the dispatcher does to the registers, it is called with
  the number and the five arguments in the order of its parameters, and afterwards the stack, the return address in \<open>rcx\<close>, the flags
  in \<open>r11\<close> and the callee-saved registers are as before, with the dispatcher's result in \<open>rax\<close>.\<close>

theorem entry_preserves:
  "syscall_entry (\<lambda>(f, st). (g f, st)) (f, st) =
     (let called = f(R9 := f R8, R8 := f R10, Rcx := f Rdx, Rdx := f Rsi, Rsi := f Rdi, Rdi := f Rax)
      in ((g called)(Rcx := f Rcx, R11 := f R11, Rbp := f Rbp, Rbx := f Rbx, R12 := f R12, R13 := f R13, R14 := f R14, R15 := f R15), st))"
  by (simp add: syscall_entry_def entry_saves_def entry_arguments_def entry_restores_def Let_def fun_eq_iff)

section \<open>Capabilities\<close>

text \<open>
  The storage calls never look at the capability table: with any other table they do the same.
\<close>

lemma storage_calls_ignore_capabilities:
  "sys_storage_set mem ag p l q m (k\<lparr>cap_table := t\<rparr>) = map_option (\<lambda>(r, k'). (r, k'\<lparr>cap_table := t\<rparr>)) (sys_storage_set mem ag p l q m k)"
  "sys_storage_get mem ag p l (k\<lparr>cap_table := t\<rparr>) = sys_storage_get mem ag p l k"
proof -
  have s: "store_set ag x v (k\<lparr>cap_table := t\<rparr>) = map_option (\<lambda>k'. k'\<lparr>cap_table := t\<rparr>) (store_set ag x v k)" for x v
    by (cases "cs_set (ticks k) ag x v (contexts_store k, fs k)") (auto simp: store_set_def)
  show "sys_storage_set mem ag p l q m (k\<lparr>cap_table := t\<rparr>) = map_option (\<lambda>(r, k'). (r, k'\<lparr>cap_table := t\<rparr>)) (sys_storage_set mem ag p l q m k)"
    by (cases "store_set ag (string_of (from_raw_parts mem p l)) (from_raw_parts mem q m) k") (simp_all add: sys_storage_set_def s)
  show "sys_storage_get mem ag p l (k\<lparr>cap_table := t\<rparr>) = sys_storage_get mem ag p l k"
    by (simp add: sys_storage_get_def store_get_def)
qed



section \<open>Spawning agents\<close>

lemma reg_get_register [simp]: "reg_get (register a r) j = (if j = agent_id a then Some a else reg_get r j)"
  by (simp add: register_def reg_get_def)

lemma reg_get_add_child:
  "reg_get (add_child par i r) j = (if par = Some j then map_option (\<lambda>a. a\<lparr>children := children a @ [i]\<rparr>) (reg_get r j) else reg_get r j)"
  by (cases par) (auto simp: add_child_def)

text \<open>C27. A spawned agent is the same thing in every table: its id is new among the tasks, a ready task with that id is scheduled, an empty
  mailbox with that id exists, the registry holds the agent with the given configuration and parent, and a parent that was registered
  got exactly this child in addition and does not exceed its limit.\<close>

theorem spawn_consistent:
  assumes "mapper_ok map_to mapped" "kernel_inv k" "agent_spawn map_to tr par cfg entry (pt, k) = Some (Inr i, pt', k')"
  shows "i \<notin> set (task_ids (sched (cpu k)))
    \<and> (\<exists>t \<in> set (all_tasks (sched (cpu k'))). task_id t = i \<and> state t = Ready \<and> priority t = Priority.Normal)
    \<and> bt_get (mailboxes k') i = Some []
    \<and> (\<exists>a. reg_get (registry k') i = Some a \<and> config a = cfg \<and> parent a = par \<and> agent_state a = AgentState.Running)
    \<and> (\<forall>p a. par = Some p \<and> p \<noteq> i \<and> reg_get (registry k) p = Some a \<longrightarrow>
         (\<exists>b. reg_get (registry k') p = Some b \<and> children b = children a @ [i] \<and> config b = config a
           \<and> length (children b) \<le> max_children (resource_limits (config b))))"
proof -
  from assms(3) obtain t k1 where lim: "\<not> children_full (registry k) par"
    and t: "task_new map_to tr (agent_name cfg) Priority.Normal entry (pt, k) = Some (t, pt', k1)" "task_id t = i"
    and sp: "k_spawn t (register_mailbox i k1\<lparr>registry := add_child par i (register (new_agent i cfg par) (registry k1))\<rparr>) = Some k'"
    by (auto simp: agent_spawn_def Let_def register_mailbox_def split: bind_splits if_splits)
  obtain fa ids where k1: "k1 = k\<lparr>id_allocator := ids, frame_allocator := fa\<rparr>" by (rule task_new_frame [OF t(1)])
  have r: "resources_ok (footprints (sched (cpu k))) k" and wf: "sched_wf (sched (cpu k))" using assms(2) by (auto simp: kernel_inv_def kern_ok_def)
  note new = task_new_result [OF assms(1) r t(1)]
  have fresh: "i \<notin> set (task_ids (sched (cpu k)))" using new(2) t(2) by (simp flip: mset_task_ids)
  from sp obtain p where p: "k' = register_mailbox i k1\<lparr>registry := add_child par i (register (new_agent i cfg par) (registry k1)), cpu := p\<rparr>"
    "sched p = push_ready t (sched (cpu k))"
    by (auto simp: k_spawn_def sched_spawn_def register_mailbox_def k1 Let_def split: bind_splits if_splits)
  have mem: "t \<in> set (all_tasks (sched p))"
  proof -
    have "pri_index (priority t) < length (queues (sched (cpu k)))" using wf by (simp add: sched_wf_def queue_ok_def)
    then have "queues (sched (cpu k)) ! pri_index (priority t) @ [t] \<in> set (queues (sched p))"
      by (simp add: p(2) push_ready_def Let_def set_update_memI)
    then have "\<exists>q \<in> set (queues (sched p)). t \<in> set q" by (rule bexI [rotated]) simp
    then show ?thesis by (auto simp: all_tasks_def)
  qed
  have reg: "registry k' = add_child par i (register (new_agent i cfg par) (registry k))" "bt_get (mailboxes k') i = Some []" "sched (cpu k') = sched p"
    using p(1) k1 by (simp_all add: register_mailbox_def mailbox_new_def)
  have "\<exists>a. reg_get (registry k') i = Some a \<and> config a = cfg \<and> parent a = par \<and> agent_state a = AgentState.Running"
    by (simp add: reg reg_get_add_child new_agent_def)
  moreover have "\<exists>b. reg_get (registry k') q = Some b \<and> children b = children a @ [i] \<and> config b = config a
      \<and> length (children b) \<le> max_children (resource_limits (config b))"
    if "par = Some q" "q \<noteq> i" "reg_get (registry k) q = Some a" for q a
    using that lim by (simp add: reg reg_get_add_child new_agent_def children_full_def)
  ultimately show ?thesis using fresh mem reg(2,3) t(2) new(4,9) by auto
qed

definition demo_config :: AgentConfig where
  "demo_config = \<lparr>agent_name = ''a'', system_prompt = None, model = Local ''m'', tools = [], config_caps = [], restart_policy = Permanent,
     resource_limits = limits_default\<rparr>"

lemma demo_spawn:
  obtains pt k where "agent_spawn list_mapper 7 None demo_config 9 ([], kernel_start context_empty demo_fa) = Some (Inr 1, pt, k)"
proof -
  have s: "kernel_start context_empty demo_fa = demo_empty" by (simp add: kernel_start_def demo_empty_def)
  obtain t pt k1 where t: "task_new list_mapper 7 ''a'' Priority.Normal 9 ([], demo_empty) = Some (t, pt, k1)" "task_id t = 1" by (rule demo_new)
  obtain fa ids where k1: "k1 = demo_empty\<lparr>id_allocator := ids, frame_allocator := fa\<rparr>" by (rule task_new_frame [OF t(1)])
  have "length (contexts (cpu demo_empty)) = MAX_TASKS" by (simp add: demo_empty_def kernel_boot_def boot_cpu_def)
  with t show thesis
    by (intro that) (auto simp: s agent_spawn_def children_full_def demo_config_def k_spawn_def sched_spawn_def store_def MAX_TASKS_def
        register_mailbox_def k1)
qed

theorem spawn_consistent_witness:
  "\<exists>pt k' a. agent_spawn list_mapper 7 None demo_config 9 ([], kernel_start context_empty demo_fa) = Some (Inr 1, pt, k')
     \<and> bt_get (mailboxes k') 1 = Some [] \<and> reg_get (registry k') 1 = Some a \<and> config a = demo_config"
proof -
  obtain pt k' where r: "agent_spawn list_mapper 7 None demo_config 9 ([], kernel_start context_empty demo_fa) = Some (Inr 1, pt, k')"
    by (rule demo_spawn)
  from spawn_consistent [OF list_mapper_ok kernel_start_inv [OF demo_init] r] r show ?thesis by blast
qed

end
