(* ===== verification/Machine_Boot.thy ===== *)
theory Machine_Boot
  imports Kernel_Steps Task_Properties Port_Io
begin

text \<open>
  What the kernel sets up before it runs tasks: the kernel heap (\<^verbatim>\<open>allocator.rs\<close>), the local interrupt controller (\<^verbatim>\<open>apic.rs\<close>), the interrupt
  table (\<^verbatim>\<open>interrupts.rs\<close>) and access to the page tables (\<^verbatim>\<open>memory/paging.rs\<close>).  Registers of the processor and memory-mapped registers are
  parameters, as the page mapper is.
\<close>

section \<open>Addresses\<close>

text \<open>\<open>VirtAddr::new\<close> refuses an address whose upper 16 bits do not repeat bit 47, \<open>PhysAddr::new\<close> one beyond 52 bits.\<close>

definition virt_new :: "u64 \<Rightarrow> u64 option" where
  "virt_new a = (if a < 0x0000800000000000 \<or> 0xFFFF800000000000 \<le> a then Some a else None)"

definition phys_new :: "u64 \<Rightarrow> u64 option" where
  "phys_new a = (if a < 0x0010000000000000 then Some a else None)"

text \<open>\<open>Page::containing_address\<close>: the start of the page.\<close>

definition page_of :: "u64 \<Rightarrow> u64" where
  "page_of a = a div 4096 * 4096"

lemma unat_page_of: "unat (page_of a) = unat a div 4096 * 4096"
proof -
  have "unat a < 2 ^ LENGTH(64)" by (rule unsigned_less)
  then have "unat a div 4096 * 4096 < 2 ^ 64" by (simp add: le_less_trans [OF div_times_less_eq_dividend])
  then show ?thesis by (simp add: page_of_def unat_word_ariths unat_div)
qed

text \<open>\<open>active_level_4_table\<close>: the table is reached through the direct map.\<close>

definition level_4_table :: "u64 \<Rightarrow> u64 \<Rightarrow> u64 option" where
  "level_4_table cr3_frame hhdm = do { a \<leftarrow> checked_add cr3_frame hhdm; virt_new a }"

section \<open>The kernel heap\<close>

definition HEAP_START :: u64 where "HEAP_START = 0xFFFFA00000000000"
definition HEAP_SIZE :: u64 where "HEAP_SIZE = 1024 * 1024"

function heap_loop :: "'pt map_fn \<Rightarrow> u64 \<Rightarrow> u64 \<Rightarrow> u64 \<Rightarrow> 'pt \<times> kernel \<Rightarrow> (u64 \<times> 'pt \<times> kernel) option" where
  "heap_loop map_to current_page end_page page_count s =
     (if current_page \<le> end_page then do {
        (frame, s) \<leftarrow> alloc_and_map map_to current_page stack_flags s;
        a \<leftarrow> checked_add current_page 4096;
        next_page \<leftarrow> virt_new a;
        page_count \<leftarrow> checked_add page_count 1;
        heap_loop map_to (page_of next_page) end_page page_count s
      }
      else Some (page_count, s))"
  by pat_completeness auto
termination heap_loop
proof (relation "measure (\<lambda>(_, current_page, end_page, _). Suc (unat end_page) - unat current_page)", goal_cases)
  case (2 map_to current_page end_page page_count s x frame s' a next_page page_count')
  then have "unat next_page = unat current_page + 4096" "unat current_page \<le> unat end_page"
    by (auto simp: virt_new_def word_le_nat_alt dest: checked_add_unat split: if_splits)
  moreover have "n < (n + 4096) div 4096 * 4096" for n :: nat by simp
  ultimately show ?case by (simp add: unat_page_of diff_less_mono2 less_Suc_eq_le)
qed simp

declare heap_loop.simps [simp del]

text \<open>The pages are mapped; what the allocator of the crate does with them is not modelled.\<close>

definition heap_init :: "'pt map_fn \<Rightarrow> 'pt \<times> kernel \<Rightarrow> (u64 \<times> 'pt \<times> kernel) option" where
  "heap_init map_to s = do {
     heap_start \<leftarrow> virt_new HEAP_START;
     a \<leftarrow> checked_add heap_start HEAP_SIZE;
     heap_end \<leftarrow> virt_new a;
     last_byte \<leftarrow> checked_sub heap_end 1;
     heap_loop map_to (page_of heap_start) (page_of last_byte) 0 s
   }"

section \<open>The interrupt controller\<close>

definition APIC_BASE_MSR :: u32 where "APIC_BASE_MSR = 0x1B"
definition APIC_SPURIOUS_VEC :: u32 where "APIC_SPURIOUS_VEC = 0x0F0"
definition APIC_TIMER_LVT :: u32 where "APIC_TIMER_LVT = 0x320"
definition APIC_TIMER_INIT_COUNT :: u32 where "APIC_TIMER_INIT_COUNT = 0x380"
definition APIC_TIMER_DIVIDE :: u32 where "APIC_TIMER_DIVIDE = 0x3E0"
definition APIC_EOI :: u32 where "APIC_EOI = 0x0B0"

text \<open>Reading a model-specific register (low and high half), and a volatile write to memory.\<close>

record 'h cpu_regs =
  rdmsr :: "u32 \<Rightarrow> 'h \<Rightarrow> (u32 \<times> u32) \<times> 'h"
  write_volatile :: "u64 \<Rightarrow> u32 \<Rightarrow> 'h \<Rightarrow> 'h"

definition disable_pic :: "'h ports \<Rightarrow> 'h \<Rightarrow> 'h" where
  "disable_pic io h = out8 io 0xA1 0xFF (out8 io 0x21 0xFF h)"

definition read_apic_base_phys :: "'h cpu_regs \<Rightarrow> 'h \<Rightarrow> u64 \<times> 'h" where
  "read_apic_base_phys cpu_io h =
     (let ((low, high), h) = rdmsr cpu_io APIC_BASE_MSR h
      in ((push_bit 32 (ucast high) OR ucast low) AND 0xFFFFFFFFFFFFF000, h))"

definition write_reg :: "'h cpu_regs \<Rightarrow> u64 \<Rightarrow> u32 \<Rightarrow> u32 \<Rightarrow> 'h \<Rightarrow> 'h option" where
  "write_reg cpu_io base offset value h = do {
     ptr \<leftarrow> checked_add base (ucast offset);
     Some (write_volatile cpu_io ptr value h)
   }"

text \<open>\<open>PRESENT | WRITABLE | NO_EXECUTE | NO_CACHE\<close>.\<close>

definition apic_flags :: u64 where
  "apic_flags = push_bit 0 1 OR push_bit 1 1 OR push_bit 63 1 OR push_bit 4 1"

text \<open>The result is the new value of \<open>APIC_VIRT_BASE\<close>.  A failed mapping is ignored.  The frame allocator exists when the controller is set up;
  without it nothing is mapped here.\<close>

definition apic_init :: "'h cpu_regs \<Rightarrow> 'pt map_fn \<Rightarrow> u64 \<Rightarrow> 'pt \<times> kernel \<times> 'h \<Rightarrow> (u64 \<times> 'pt \<times> kernel \<times> 'h) option" where
  "apic_init cpu_io map_to hhdm = (\<lambda>(pt, k, h). do {
     let (apic_phys, h) = read_apic_base_phys cpu_io h;
     apic_virt \<leftarrow> checked_add hhdm apic_phys;
     v \<leftarrow> virt_new apic_virt;
     p \<leftarrow> phys_new apic_phys;
     let (pt, k) = (case frame_allocator k of
       None \<Rightarrow> (pt, k)
     | Some fa \<Rightarrow> (let (ok, pt, fa) = map_to (page_of v) (containing_address p) apic_flags (pt, fa) in (pt, k\<lparr>frame_allocator := Some fa\<rparr>)));
     h \<leftarrow> write_reg cpu_io apic_virt APIC_SPURIOUS_VEC 0x1FF h;
     Some (apic_virt, pt, k, h)
   })"

definition configure_timer :: "'h cpu_regs \<Rightarrow> u64 \<Rightarrow> u8 \<Rightarrow> u32 \<Rightarrow> 'h \<Rightarrow> 'h option" where
  "configure_timer cpu_io base vector interval h = do {
     h \<leftarrow> write_reg cpu_io base APIC_TIMER_DIVIDE 0x03 h;
     h \<leftarrow> write_reg cpu_io base APIC_TIMER_LVT (push_bit 17 1 OR ucast vector) h;
     write_reg cpu_io base APIC_TIMER_INIT_COUNT interval h
   }"

definition eoi :: "'h cpu_regs \<Rightarrow> u64 \<Rightarrow> 'h \<Rightarrow> 'h option" where
  "eoi cpu_io base h = write_reg cpu_io base APIC_EOI 0 h"

section \<open>The interrupt table\<close>

definition TIMER_VECTOR :: u8 where "TIMER_VECTOR = 32"
definition DOUBLE_FAULT_IST_INDEX :: u16 where "DOUBLE_FAULT_IST_INDEX = 0"

datatype handler = BreakpointHandler | DoubleFaultHandler | PageFaultHandler | GeneralProtectionHandler | InvalidOpcodeHandler | TimerHandler

text \<open>The handler of a vector and the stack it switches to, if any.  The exception vectors are those of the processor.\<close>

definition idt :: "nat \<Rightarrow> (handler \<times> u16 option) option" where
  "idt = [3 \<mapsto> (BreakpointHandler, None), 8 \<mapsto> (DoubleFaultHandler, Some DOUBLE_FAULT_IST_INDEX), 14 \<mapsto> (PageFaultHandler, None),
     13 \<mapsto> (GeneralProtectionHandler, None), 6 \<mapsto> (InvalidOpcodeHandler, None), 32 \<mapsto> (TimerHandler, None)]"

text \<open>Whether a handler returns to the interrupted code; the others print and spin for ever.\<close>

definition returns :: "handler \<Rightarrow> bool" where
  "returns h \<longleftrightarrow> h = BreakpointHandler \<or> h = TimerHandler"

section \<open>The heap is mapped\<close>

definition heap_page :: "nat \<Rightarrow> u64" where
  "heap_page i = HEAP_START + of_nat (4096 * i)"

lemma unat_heap_page: "i \<le> 256 \<Longrightarrow> unat (heap_page i) = 0xFFFFA00000000000 + 4096 * i"
proof -
  assume "i \<le> 256"
  then have "unat (of_nat (4096 * i) :: u64) = 4096 * i" by (intro unat_of_nat_small) simp
  with \<open>i \<le> 256\<close> show ?thesis
    unfolding heap_page_def by (subst unat_add_no_overflow) (simp_all add: HEAP_START_def)
qed

lemma heap_page_next:
  assumes "i < 256"
  shows "checked_add (heap_page i) 4096 = Some (heap_page (Suc i))" "virt_new (heap_page (Suc i)) = Some (heap_page (Suc i))"
    "page_of (heap_page (Suc i)) = heap_page (Suc i)" "heap_page i \<le> heap_page 255"
proof -
  have u: "unat (heap_page i) = 0xFFFFA00000000000 + 4096 * i" "unat (heap_page (Suc i)) = 0xFFFFA00000000000 + 4096 * Suc i"
    using assms by (simp_all add: unat_heap_page)
  show "checked_add (heap_page i) 4096 = Some (heap_page (Suc i))"
    using assms u(1) by (simp add: checked_add_def) (simp add: heap_page_def algebra_simps)
  show "virt_new (heap_page (Suc i)) = Some (heap_page (Suc i))"
    using u(2) by (simp add: virt_new_def word_le_nat_alt)
  have "unat (page_of (heap_page (Suc i))) = unat (heap_page (Suc i))" unfolding unat_page_of u(2) by simp
  then show "page_of (heap_page (Suc i)) = heap_page (Suc i)" by simp
  show "heap_page i \<le> heap_page 255" using assms u(1) by (simp add: word_le_nat_alt unat_heap_page)
qed

lemma count_up:
  assumes "i < 256" shows "checked_add (of_nat i :: u64) 1 = Some (of_nat (Suc i))"
proof -
  have "unat (of_nat i :: u64) + unat (1 :: u64) < 2 ^ LENGTH(64)" by (subst unat_of_nat_small) (use assms in simp_all)
  then show ?thesis by (simp only: checked_add_def if_True of_nat_Suc add.commute [of 1])
qed

lemma heap_init_loop: "heap_init map_to s = heap_loop map_to (heap_page 0) (heap_page 255) 0 s"
  by (simp add: heap_init_def HEAP_START_def HEAP_SIZE_def virt_new_def checked_add_def checked_sub_def page_of_def heap_page_def)

lemma heap_loop_result:
  assumes m: "mapper_ok map_to mapped"
  shows "\<lbrakk>i \<le> 256; heap_loop map_to (heap_page i) (heap_page 255) (of_nat i) (pt, k) = Some (c, pt', k'); frame_allocator k = Some fa; fa_wf fa\<rbrakk>
    \<Longrightarrow> c = 256 \<and> mapped pt' = mapped pt \<union> heap_page ` {i..<256} \<and> mapped pt \<inter> heap_page ` {i..<256} = {}
      \<and> (\<exists>fa'. k' = k\<lparr>frame_allocator := Some fa'\<rparr> \<and> fa_wf fa' \<and> free_frames fa' \<subseteq> free_frames fa
            \<and> card (free_frames fa') + (256 - i) \<le> card (free_frames fa))"
proof (induction "256 - i" arbitrary: i pt k fa)
  case 0
  then have i: "i = 256" by simp
  have "heap_page 255 < heap_page 256" by (simp add: word_less_nat_alt unat_heap_page)
  then have "c = 256 \<and> pt' = pt \<and> k' = k" using 0(3) unfolding i by (subst (asm) heap_loop.simps) (simp add: not_le [symmetric])
  moreover have "k = k\<lparr>frame_allocator := Some fa\<rparr>" using 0(4) by simp
  ultimately show ?case using i 0(5) by (intro conjI exI [of _ fa]) simp_all
next
  case (Suc n)
  then have lt: "i < 256" by simp
  note nx = heap_page_next [OF lt]
  note cnt = count_up [OF lt]
  from Suc.prems(2) obtain f pt1 k1 where a: "alloc_and_map map_to (heap_page i) stack_flags (pt, k) = Some (f, pt1, k1)"
    and rest: "heap_loop map_to (heap_page (Suc i)) (heap_page 255) (of_nat (Suc i)) (pt1, k1) = Some (c, pt', k')"
    by (subst (asm) heap_loop.simps) (auto simp: nx cnt split: bind_splits)
  obtain fa1 where fa1: "k1 = k\<lparr>frame_allocator := Some fa1\<rparr>" "fa_wf fa1" "frame_index f \<in> free_frames fa"
    "free_frames fa1 \<subseteq> free_frames fa - {frame_index f}" "heap_page i \<notin> mapped pt" "mapped pt1 = insert (heap_page i) (mapped pt)"
    by (rule alloc_and_map_result [OF m Suc.prems(3,4) a]) blast
  have fin: "finite (free_frames fa)" by (simp add: free_frames_def)
  have "card (free_frames fa1) < card (free_frames fa)"
    using fa1(3,4) fin by (intro psubset_card_mono) auto
  moreover have n: "n = 256 - Suc i" and al: "frame_allocator k1 = Some fa1" using Suc.hyps(2) fa1(1) by simp_all
  moreover obtain fa' where ih: "c = 256" "mapped pt' = mapped pt1 \<union> heap_page ` {Suc i..<256}" "mapped pt1 \<inter> heap_page ` {Suc i..<256} = {}"
    "k' = k1\<lparr>frame_allocator := Some fa'\<rparr>" "fa_wf fa'" "free_frames fa' \<subseteq> free_frames fa1" "card (free_frames fa') + (256 - Suc i) \<le> card (free_frames fa1)"
    using Suc.hyps(1) [OF n _ rest al fa1(2)] lt by auto
  moreover have "{i..<256} = insert i {Suc i..<256}" using lt by auto
  ultimately show ?case using fa1 by (auto intro!: exI [of _ fa'])
qed

lemma heap_below_stacks: "i < 256 \<Longrightarrow> unat t < MAX_TASKS \<Longrightarrow> heap_page i \<notin> slot_pages t"
proof
  assume i: "i < 256" "unat t < MAX_TASKS" and "heap_page i \<in> slot_pages t"
  then obtain j where j: "j < 4" "heap_page i = of_nat (slot_start (unat t) + 4096 + 4096 * j)" by (auto simp: slot_pages_def)
  have "unat (of_nat (slot_start (unat t) + 4096 + 4096 * j) :: u64) = slot_start (unat t) + 4096 + 4096 * j"
    using i(2) j(1) by (intro unat_of_nat_small) (simp add: slot_start_def MAX_TASKS_def)
  then have "0xFFFFA00000000000 + 4096 * i = slot_start (unat t) + 4096 + 4096 * j" using i(1) j(2) unat_heap_page [of i] by simp
  then show False using i(1) by (simp add: slot_start_def)
qed

text \<open>A mapper that takes at most \<open>c\<close> frames for page tables and maps every unmapped page when so many are free.  With four levels of tables
  \<open>c\<close> is 3.\<close>

definition mapper_total :: "'pt map_fn \<Rightarrow> ('pt \<Rightarrow> u64 set) \<Rightarrow> nat \<Rightarrow> bool" where
  "mapper_total map_to mapped c \<longleftrightarrow> (\<forall>page f fl pt fa ok pt' fa'. map_to page f fl (pt, fa) = (ok, pt', fa') \<longrightarrow>
     page \<notin> mapped pt \<longrightarrow> fa_wf fa \<longrightarrow> c \<le> card (free_frames fa) \<longrightarrow> ok \<and> card (free_frames fa) \<le> card (free_frames fa') + c)"

lemma alloc_and_map_total:
  assumes "mapper_ok map_to mapped" "mapper_total map_to mapped c" "frame_allocator k = Some fa" "fa_wf fa" "Suc c \<le> card (free_frames fa)" "page \<notin> mapped pt"
  shows "\<exists>f pt' fa'. alloc_and_map map_to page fl (pt, k) = Some (f, pt', k\<lparr>frame_allocator := Some fa'\<rparr>) \<and> fa_wf fa'
    \<and> mapped pt' = insert page (mapped pt) \<and> card (free_frames fa) \<le> card (free_frames fa') + Suc c"
proof -
  obtain f fa1 where a: "allocate_frame fa = Some (Some f, fa1)" "fa_wf fa1" "free_frames fa1 = free_frames fa - {frame_index f}" "frame_index f \<in> free_frames fa"
    using fs.alloc_cases [OF assms(4)] assms(5) by fastforce
  have fin: "finite (free_frames fa)" by (simp add: free_frames_def)
  have c1: "Suc (card (free_frames fa1)) = card (free_frames fa)" using card_Suc_Diff1 [OF fin a(4)] a(3) by simp
  obtain ok pt' fa' where m: "map_to page f fl (pt, fa1) = (ok, pt', fa')" by (cases "map_to page f fl (pt, fa1)")
  have "ok" "card (free_frames fa1) \<le> card (free_frames fa') + c"
    using assms(2,5,6) m a(2) c1 unfolding mapper_total_def by (metis Suc_le_mono)+
  moreover from this(1) have "mapped pt' = insert page (mapped pt)" "fa_wf fa'" using assms(1) m a(2) unfolding mapper_ok_def by blast+
  ultimately show ?thesis using assms(3) a(1) m c1 by (auto simp: alloc_and_map_def)
qed

lemma heap_page_inj: "\<lbrakk>i \<le> 256; j \<le> 256; heap_page i = heap_page j\<rbrakk> \<Longrightarrow> i = j"
proof -
  assume "i \<le> 256" "j \<le> 256" "heap_page i = heap_page j"
  then have "0xFFFFA00000000000 + 4096 * i = 0xFFFFA00000000000 + 4096 * j" by (metis unat_heap_page)
  then show ?thesis by simp
qed

lemma heap_loop_total:
  assumes m: "mapper_ok map_to mapped" "mapper_total map_to mapped c"
  shows "\<lbrakk>i \<le> 256; frame_allocator k = Some fa; fa_wf fa; (256 - i) * Suc c \<le> card (free_frames fa); mapped pt \<inter> heap_page ` {i..<256} = {}\<rbrakk>
    \<Longrightarrow> \<exists>n pt' fa'. heap_loop map_to (heap_page i) (heap_page 255) (of_nat i) (pt, k) = Some (n, pt', k\<lparr>frame_allocator := Some fa'\<rparr>)
          \<and> fa_wf fa' \<and> mapped pt' = mapped pt \<union> heap_page ` {i..<256} \<and> card (free_frames fa) \<le> card (free_frames fa') + (256 - i) * Suc c"
proof (induction "256 - i" arbitrary: i pt k fa)
  case 0
  then have "heap_page 255 < heap_page i" by (simp add: word_less_nat_alt unat_heap_page)
  moreover have "k = k\<lparr>frame_allocator := Some fa\<rparr>" using 0 by simp
  ultimately show ?case using 0 by (subst heap_loop.simps) (auto simp: not_le [symmetric] intro!: exI [of _ fa])
next
  case (Suc n)
  then have lt: "i < 256" and n: "n = 256 - Suc i" and e: "256 - i = Suc n" by simp_all
  have split: "{i..<256} = insert i {Suc i..<256}" using lt by auto
  have room: "Suc c + n * Suc c \<le> card (free_frames fa)" using Suc.prems(4) unfolding e by simp
  have new: "heap_page i \<notin> mapped pt" "mapped pt \<inter> heap_page ` {Suc i..<256} = {}" using Suc.prems(5) unfolding split by auto
  have "Suc c \<le> card (free_frames fa)" using room by simp
  from alloc_and_map_total [OF m Suc.prems(2,3) this new(1)] obtain f pt1 fa1 where
    a: "alloc_and_map map_to (heap_page i) stack_flags (pt, k) = Some (f, pt1, k\<lparr>frame_allocator := Some fa1\<rparr>)" "fa_wf fa1"
      "mapped pt1 = insert (heap_page i) (mapped pt)" "card (free_frames fa) \<le> card (free_frames fa1) + Suc c" by blast
  have "heap_page i \<notin> heap_page ` {Suc i..<256}" by (auto dest!: heap_page_inj [rotated 2] simp: lt less_imp_le)
  then have "mapped pt1 \<inter> heap_page ` {Suc i..<256} = {}" using a(3) new(2) by auto
  moreover have "(256 - Suc i) * Suc c \<le> card (free_frames fa1)" using room a(4) unfolding n [symmetric] by linarith
  ultimately obtain r pt' fa' where ih:
    "heap_loop map_to (heap_page (Suc i)) (heap_page 255) (of_nat (Suc i)) (pt1, k\<lparr>frame_allocator := Some fa1\<rparr>) = Some (r, pt', k\<lparr>frame_allocator := Some fa'\<rparr>)"
    "fa_wf fa'" "mapped pt' = mapped pt1 \<union> heap_page ` {Suc i..<256}" "card (free_frames fa1) \<le> card (free_frames fa') + (256 - Suc i) * Suc c"
    using Suc.hyps(1) [OF n, of "k\<lparr>frame_allocator := Some fa1\<rparr>" fa1 pt1] a(2) lt by auto
  have "heap_loop map_to (heap_page i) (heap_page 255) (of_nat i) (pt, k) = Some (r, pt', k\<lparr>frame_allocator := Some fa'\<rparr>)"
    using a(1) ih(1) heap_page_next [OF lt] count_up [OF lt] by (subst heap_loop.simps) auto
  moreover have "card (free_frames fa) \<le> card (free_frames fa') + (256 - i) * Suc c" using a(4) ih(4) unfolding e n [symmetric] by simp
  ultimately show ?case using ih(2,3) a(3) unfolding split by (intro exI [of _ r] exI [of _ pt'] exI [of _ fa']) auto
qed

lemma heap_init_total:
  assumes "mapper_ok map_to mapped" "mapper_total map_to mapped c" "frame_allocator k = Some fa" "fa_wf fa"
    "256 * Suc c \<le> card (free_frames fa)" "mapped pt \<inter> heap_page ` {..<256} = {}"
  obtains n pt' fa' where "heap_init map_to (pt, k) = Some (n, pt', k\<lparr>frame_allocator := Some fa'\<rparr>)" "fa_wf fa'"
    "mapped pt' = mapped pt \<union> heap_page ` {..<256}" "card (free_frames fa) \<le> card (free_frames fa') + 256 * Suc c"
  using heap_loop_total [OF assms(1,2), of 0 k fa pt] assms(3-6) by (auto simp: heap_init_loop atLeast0LessThan)


lemma list_mapper_total: "mapper_total list_mapper set 0"
  by (auto simp: mapper_total_def list_mapper_def split: if_splits)

definition roomy_fa :: BitmapFrameAllocator where
  "roomy_fa = \<lparr>bitmap = replicate 40 0, total_frames = 320, next_free = 0\<rparr>"

lemma roomy_fa_free: "fa_wf roomy_fa" "card (free_frames roomy_fa) = 320"
proof -
  have "free_frames roomy_fa = {..<320}" by (auto simp: free_frames_def used_def roomy_fa_def)
  then show "card (free_frames roomy_fa) = 320" by simp
qed (simp add: fa_wf_def roomy_fa_def)


section \<open>The timer\<close>

text \<open>The base of the controller is the start of a page, so the offsets of its registers do not leave the page and, with the direct map at the start
  of a page, no register address overflows.\<close>

lemma apic_base_aligned: "fst (read_apic_base_phys cpu_io h) AND 0xFFF = 0"
  by (simp add: read_apic_base_phys_def split_beta Let_def and.assoc)

lemma registers_in_page:
  assumes "4096 dvd unat base" "unat offset < 4096" shows "write_reg cpu_io base offset v h = Some (write_volatile cpu_io (base + ucast offset) v h)"
proof -
  have "unat base < 2 ^ LENGTH(64)" by (rule unsigned_less)
  then have "unat base + unat offset < 2 ^ 64" using assms by (auto elim!: dvdE)
  moreover have "unat (ucast offset :: u64) = unat offset" using assms(2) by (simp add: unsigned_ucast_eq take_bit_nat_eq_self_iff)
  ultimately show ?thesis by (simp add: write_reg_def checked_add_def)
qed

text \<open>The writes that start the timer: divide by 16, vector 32 in periodic mode, and last the count, which starts it.\<close>

lemma timer_programmed:
  assumes "4096 dvd unat base"
  shows "configure_timer cpu_io base TIMER_VECTOR interval h =
    Some (write_volatile cpu_io (base + 0x380) interval (write_volatile cpu_io (base + 0x320) 0x20020 (write_volatile cpu_io (base + 0x3E0) 3 h)))"
  by (simp add: configure_timer_def registers_in_page [OF assms] APIC_TIMER_DIVIDE_def APIC_TIMER_LVT_def APIC_TIMER_INIT_COUNT_def TIMER_VECTOR_def)

end
