(* ===== verification/Swarm.thy ===== *)
theory Swarm
  imports Kernel_Properties Machine_Boot Rust_Text
begin

text \<open>
  \<^verbatim>\<open>main.rs\<close>: the part of \<open>_start\<close> that sets up the swarm of agents once the subsystems run, and the entry functions of the agents.  The
  agents never end; what is modelled of each is one pass of its loop.
\<close>

section \<open>Setting up\<close>

definition perms_supervisor :: PermissionBits where
  "perms_supervisor = perm_union (perm_union SPAWN KILL) DELEGATE"

definition swarm_caps :: "CapabilityTable \<Rightarrow> CapabilityTable option" where
  "swarm_caps t = do {
     (_, t) \<leftarrow> cap_create_root 1 AgentSpawn perms_supervisor t;
     (_, t) \<leftarrow> cap_create_root 2 (Agent 4) WRITE t;
     (_, t) \<leftarrow> cap_create_root 3 (Agent 4) WRITE t;
     (_, t) \<leftarrow> cap_create_root 4 (Channel ''results'') PUBLISH t;
     (_, t) \<leftarrow> cap_create_root 4 (Agent 0) READ t;
     Some t
   }"

definition supervisor_config :: AgentConfig where
  "supervisor_config = \<lparr>agent_name = ''supervisor'', system_prompt = Some ''Manage the research swarm'', model = Auto [''gpt-4''],
     tools = [], config_caps = [1], restart_policy = Permanent, resource_limits = limits_default\<rparr>"

definition research1_config :: AgentConfig where
  "research1_config = \<lparr>agent_name = ''researcher-1'', system_prompt = Some ''Research AI safety papers'',
     model = Remote ''https://api.openai.com/v1/chat'' 0, tools = [''web-fetch''], config_caps = [2], restart_policy = RestartOne,
     resource_limits = limits_default\<rparr>"

definition research2_config :: AgentConfig where
  "research2_config = \<lparr>agent_name = ''researcher-2'', system_prompt = Some ''Research ML optimization techniques'',
     model = Remote ''https://api.openai.com/v1/chat'' 0, tools = [''web-fetch''], config_caps = [3], restart_policy = RestartOne,
     resource_limits = limits_default\<rparr>"

definition aggregator_config :: AgentConfig where
  "aggregator_config = \<lparr>agent_name = ''aggregator'', system_prompt = Some ''Collect and summarize research findings'', model = Auto [''gpt-4''],
     tools = [], config_caps = [4, 5], restart_policy = RestartOne, resource_limits = limits_default\<rparr>"

text \<open>\<open>spawn(..).expect(..)\<close>.\<close>

definition spawn_expect :: "'pt map_fn \<Rightarrow> u64 \<Rightarrow> u64 option \<Rightarrow> AgentConfig \<Rightarrow> u64 \<Rightarrow> 'pt \<times> kernel \<Rightarrow> ('pt \<times> kernel) option" where
  "spawn_expect map_to tr parent_id cfg entry s = do {
     (r, s) \<leftarrow> agent_spawn map_to tr parent_id cfg entry s;
     case r of Inl _ \<Rightarrow> None | Inr _ \<Rightarrow> Some s
   }"

definition swarm_services :: "kernel \<Rightarrow> kernel option" where
  "swarm_services k = do {
     t \<leftarrow> swarm_caps (cap_table k);
     let (_, k) = channel_create ''results'' (k\<lparr>cap_table := t\<rparr>);
     Some (fold register_mailbox [1, 2, 3, 4] k)
   }"

text \<open>The addresses of the four entry functions are parameters.\<close>

definition start_swarm :: "'pt map_fn \<Rightarrow> u64 \<Rightarrow> u64 \<Rightarrow> u64 \<Rightarrow> u64 \<Rightarrow> u64 \<Rightarrow> 'pt \<times> kernel \<Rightarrow> ('pt \<times> kernel) option" where
  "start_swarm map_to tr supervisor researcher1 researcher2 aggregator = (\<lambda>(pt, k). do {
     k \<leftarrow> swarm_services k;
     s \<leftarrow> spawn_expect map_to tr None supervisor_config supervisor (pt, k);
     s \<leftarrow> spawn_expect map_to tr (Some 1) research1_config researcher1 s;
     s \<leftarrow> spawn_expect map_to tr (Some 1) research2_config researcher2 s;
     spawn_expect map_to tr (Some 1) aggregator_config aggregator s
   })"

section \<open>The agents\<close>

text \<open>The loops that wait for a tick: the target, and one pass, in which the task gives way when a reschedule is due.\<close>

definition wait_target :: "u64 \<Rightarrow> kernel \<Rightarrow> u64 option" where
  "wait_target n k = checked_add (ticks k) n"

definition idle_pass :: "u64 \<Rightarrow> kernel \<Rightarrow> kernel option" where
  "idle_pass ret k = (if should_reschedule (cpu k) then do { (_, k) \<leftarrow> k_yield_now ret k; Some k } else Some k)"

definition wait_pass :: "u64 \<Rightarrow> u64 \<Rightarrow> kernel \<Rightarrow> (bool \<times> kernel) option" where
  "wait_pass ret target k = (if ticks k < target then do { k \<leftarrow> idle_pass ret k; Some (False, k) } else Some (True, k))"

definition supervisor_report :: "u32 \<times> kernel \<Rightarrow> (u32 \<times> nat \<times> nat \<times> u64) option" where
  "supervisor_report = (\<lambda>(report_num, k). do {
     report_num \<leftarrow> checked_add report_num 1;
     Some (report_num, reg_count (registry k), task_count (sched (cpu k)), ticks k)
   })"

definition finding_text :: "string \<Rightarrow> string \<Rightarrow> u32 \<Rightarrow> string" where
  "finding_text name topic n = [CHR 0x7B, CHR 0x22] @ ''agent'' @ [CHR 0x22] @ '':'' @ [CHR 0x22] @ name @ [CHR 0x22] @ '','' @ [CHR 0x22] @ ''finding'' @ [CHR 0x22] @ '':''
     @ dec (unat n) @ '','' @ [CHR 0x22] @ ''topic'' @ [CHR 0x22] @ '':'' @ [CHR 0x22] @ topic @ [CHR 0x22, CHR 0x7D]"

definition researcher_send :: "u64 \<Rightarrow> u64 \<Rightarrow> string \<Rightarrow> string \<Rightarrow> u32 \<times> kernel \<Rightarrow> ((IpcError + u64) \<times> u32 \<times> kernel) option" where
  "researcher_send me my_cap name topic = (\<lambda>(finding_num, k). do {
     finding_num \<leftarrow> checked_add finding_num 1;
     (r, k) \<leftarrow> send me 4 Data (bytes_of (finding_text name topic finding_num)) None None my_cap k;
     Some (r, finding_num, k)
   })"

definition researcher_1 :: "u32 \<times> kernel \<Rightarrow> ((IpcError + u64) \<times> u32 \<times> kernel) option" where
  "researcher_1 = researcher_send 2 2 ''researcher-1'' ''AI alignment''"

definition researcher_2 :: "u32 \<times> kernel \<Rightarrow> ((IpcError + u64) \<times> u32 \<times> kernel) option" where
  "researcher_2 = researcher_send 3 3 ''researcher-2'' ''gradient optimization''"

definition inbox_len :: "kernel \<Rightarrow> nat" where
  "inbox_len k = (case bt_get (mailboxes k) 4 of None \<Rightarrow> 0 | Some q \<Rightarrow> length q)"

function aggregator_drain :: "u32 \<Rightarrow> kernel \<Rightarrow> (Message list \<times> u32 \<times> kernel) option" where
  "aggregator_drain total_findings k =
     (case receive 4 k of
        (None, k) \<Rightarrow> Some ([], total_findings, k)
      | (Some msg, k) \<Rightarrow> do {
          total_findings \<leftarrow> checked_add total_findings 1;
          (msgs, total_findings, k) \<leftarrow> aggregator_drain total_findings k;
          Some (msg # msgs, total_findings, k)
        })"
  by pat_completeness auto
termination aggregator_drain
  by (relation "measure (\<lambda>(_, k). inbox_len k)") (auto simp: receive_def inbox_len_def mailbox_pop_def split: option.splits list.splits prod.splits)

declare aggregator_drain.simps [simp del]

section \<open>Runs of the swarm\<close>

datatype turn = Research1 | Research2 | Gather | Tick

record swarm =
  findings1 :: u32
  findings2 :: u32
  collected :: u32
  got :: "Message list"
  kern :: kernel

definition swarm_start :: "kernel \<Rightarrow> swarm" where
  "swarm_start k = \<lparr>findings1 = 0, findings2 = 0, collected = 0, got = [], kern = k\<rparr>"

fun swarm_turn :: "(u64 \<Rightarrow> 'n \<Rightarrow> 'n) \<Rightarrow> turn \<Rightarrow> 'n \<times> swarm \<Rightarrow> ('n \<times> swarm) option" where
  "swarm_turn poll Research1 (n, s) = do {
     (_, c, k) \<leftarrow> researcher_1 (findings1 s, kern s);
     Some (n, s\<lparr>findings1 := c, kern := k\<rparr>)
   }"
| "swarm_turn poll Research2 (n, s) = do {
     (_, c, k) \<leftarrow> researcher_2 (findings2 s, kern s);
     Some (n, s\<lparr>findings2 := c, kern := k\<rparr>)
   }"
| "swarm_turn poll Gather (n, s) = do {
     (msgs, c, k) \<leftarrow> aggregator_drain (collected s) (kern s);
     Some (n, s\<lparr>collected := c, got := got s @ msgs, kern := k\<rparr>)
   }"
| "swarm_turn poll Tick (n, s) = do {
     (n, k) \<leftarrow> timer_handler False poll (n, kern s);
     Some (n, s\<lparr>kern := k\<rparr>)
   }"

text \<open>What the swarm does, without the kernel: two counters, the inbox of the aggregator, which keeps 256 findings and drops more, and the findings
  collected.\<close>

type_synonym board = "nat \<times> nat \<times> (u64 \<times> u8 list) list \<times> (u64 \<times> u8 list) list"

definition note1 :: "nat \<Rightarrow> u64 \<times> u8 list" where
  "note1 n = (2, bytes_of (finding_text ''researcher-1'' ''AI alignment'' (of_nat n)))"

definition note2 :: "nat \<Rightarrow> u64 \<times> u8 list" where
  "note2 n = (3, bytes_of (finding_text ''researcher-2'' ''gradient optimization'' (of_nat n)))"

fun board_turn :: "turn \<Rightarrow> board \<Rightarrow> board" where
  "board_turn Research1 (a, b, inbox, done) = (Suc a, b, if length inbox < 256 then inbox @ [note1 (Suc a)] else inbox, done)"
| "board_turn Research2 (a, b, inbox, done) = (a, Suc b, if length inbox < 256 then inbox @ [note2 (Suc b)] else inbox, done)"
| "board_turn Gather (a, b, inbox, done) = (a, b, [], done @ inbox)"
| "board_turn Tick s = s"

definition note_of :: "Message \<Rightarrow> u64 \<times> u8 list" where
  "note_of m = (sender m, payload m)"

definition on_board :: "swarm \<Rightarrow> board \<Rightarrow> bool" where
  "on_board s = (\<lambda>(a, b, inbox, done). unat (findings1 s) = a \<and> unat (findings2 s) = b \<and> unat (collected s) = length (got s)
     \<and> map note_of (got s) = done \<and> (\<exists>q. bt_get (mailboxes (kern s)) 4 = Some q \<and> map note_of q = inbox))"

definition swarm_live :: "kernel \<Rightarrow> bool" where
  "swarm_live k \<longleftrightarrow> \<not> isl (cap_validate (cap_table k) 2 2 WRITE) \<and> \<not> isl (cap_validate (cap_table k) 3 3 WRITE) \<and> pending k = []"

lemma count_one: "unat (c :: u32) + 1 < 2 ^ 32 \<Longrightarrow> checked_add c 1 = Some (c + 1) \<and> unat (c + 1) = unat c + 1"
  using unat_add_no_overflow [of c 1] by (simp add: checked_add_def)

lemma drain_all:
  "\<lbrakk>bt_get (mailboxes k) 4 = Some q; unat c + length q < 2 ^ 32\<rbrakk>
    \<Longrightarrow> \<exists>k'. aggregator_drain c k = Some (q, c + of_nat (length q), k') \<and> bt_get (mailboxes k') 4 = Some []
          \<and> cap_table k' = cap_table k \<and> pending k' = pending k"
proof (induction q arbitrary: c k)
  case Nil
  then show ?case by (subst aggregator_drain.simps) (simp add: receive_def mailbox_pop_def)
next
  case (Cons m q)
  let ?k = "k\<lparr>mailboxes := bt_insert 4 q (mailboxes k)\<rparr>"
  have c: "checked_add c 1 = Some (c + 1)" "unat (c + 1) = unat c + 1" using count_one [of c] Cons.prems(2) by auto
  obtain k' where "aggregator_drain (c + 1) ?k = Some (q, c + 1 + of_nat (length q), k')" "bt_get (mailboxes k') 4 = Some []"
    "cap_table k' = cap_table k" "pending k' = pending k"
    using Cons.IH [of ?k "c + 1"] Cons.prems c by auto
  with Cons.prems c(1) show ?case by (subst aggregator_drain.simps) (simp add: receive_def mailbox_pop_def algebra_simps)
qed

lemma research_send:
  assumes "\<not> isl (cap_validate (cap_table k) cap me WRITE)" "bt_get (mailboxes k) 4 = Some q" "unat c + 1 < 2 ^ 32"
  shows "\<exists>r k' q'. researcher_send me cap name topic (c, k) = Some (r, c + 1, k') \<and> bt_get (mailboxes k') 4 = Some q'
    \<and> map note_of q' = (if length q < 256 then map note_of q @ [(me, bytes_of (finding_text name topic (c + 1)))] else map note_of q)
    \<and> cap_table k' = cap_table k \<and> pending k' = pending k"
proof -
  obtain x where v: "cap_validate (cap_table k) cap me WRITE = Inr x" using assms(1) by (cases "cap_validate (cap_table k) cap me WRITE") auto
  show ?thesis using assms(2) count_one [OF assms(3)]
    by (auto simp: researcher_send_def send_def v next_message_id_def deliver_def mailbox_push_def MAILBOX_CAPACITY_def note_of_def)
qed

lemma tick_quiet:
  assumes "pending k = []"
  shows "\<exists>n' k'. timer_handler False poll (n, k) = Some (n', k') \<and> cap_table k' = cap_table k \<and> pending k' = pending k \<and> mailboxes k' = mailboxes k"
  using assms
  by (auto simp: timer_handler_def Let_def poll_locked_def k_deadline_tick_def check_timeouts_def expired_requests_def split: prod.splits)

lemma turn_on_board:
  assumes "swarm_live (kern s)" "on_board s (a, b, inbox, done)" "a + 1 < 2 ^ 32" "b + 1 < 2 ^ 32" "length done + length inbox < 2 ^ 32"
  shows "\<exists>n' s'. swarm_turn poll t (n, s) = Some (n', s') \<and> on_board s' (board_turn t (a, b, inbox, done)) \<and> swarm_live (kern s')"
proof -
  let ?k = "kern s"
  obtain q where q: "bt_get (mailboxes ?k) 4 = Some q" "map note_of q = inbox" "length q = length inbox"
    and c: "unat (findings1 s) = a" "unat (findings2 s) = b" "unat (collected s) = length (got s)" "map note_of (got s) = done" "length (got s) = length done"
    using assms(2) by (auto simp: on_board_def)
  have l: "\<not> isl (cap_validate (cap_table ?k) 2 2 WRITE)" "\<not> isl (cap_validate (cap_table ?k) 3 3 WRITE)" "pending ?k = []"
    using assms(1) by (auto simp: swarm_live_def)
  show ?thesis
  proof (cases t)
    case Research1
    have n: "note1 (Suc a) = (2, bytes_of (finding_text ''researcher-1'' ''AI alignment'' (findings1 s + 1)))" "unat (findings1 s + 1) = Suc a"
      using count_one [of "findings1 s"] assms(3) c(1) by (auto simp: note1_def add.commute)
    have small: "unat (findings1 s) + 1 < 2 ^ 32" using assms(3) c(1) by simp
    obtain r k' q' where "researcher_1 (findings1 s, ?k) = Some (r, findings1 s + 1, k')" "bt_get (mailboxes k') 4 = Some q'"
      "map note_of q' = (if length q < 256 then map note_of q @ [note1 (Suc a)] else map note_of q)" "cap_table k' = cap_table ?k" "pending k' = pending ?k"
      using research_send [OF l(1) q(1), of "findings1 s"] small unfolding n(1) researcher_1_def by blast
    then show ?thesis using n(2) c(1-4) l q(2,3) by (auto simp: Research1 on_board_def swarm_live_def)
  next
    case Research2
    have n: "note2 (Suc b) = (3, bytes_of (finding_text ''researcher-2'' ''gradient optimization'' (findings2 s + 1)))" "unat (findings2 s + 1) = Suc b"
      using count_one [of "findings2 s"] assms(4) c(2) by (auto simp: note2_def add.commute)
    have small: "unat (findings2 s) + 1 < 2 ^ 32" using assms(4) c(2) by simp
    obtain r k' q' where "researcher_2 (findings2 s, ?k) = Some (r, findings2 s + 1, k')" "bt_get (mailboxes k') 4 = Some q'"
      "map note_of q' = (if length q < 256 then map note_of q @ [note2 (Suc b)] else map note_of q)" "cap_table k' = cap_table ?k" "pending k' = pending ?k"
      using research_send [OF l(2) q(1), of "findings2 s"] small unfolding n(1) researcher_2_def by blast
    then show ?thesis using n(2) c(1-4) l q(2,3) by (auto simp: Research2 on_board_def swarm_live_def)
  next
    case Gather
    have u: "unat (collected s + of_nat (length q)) = length (got s) + length q"
      using assms(5) c q by (simp add: unat_word_ariths unat_of_nat)
    have "unat (collected s) + length q < 2 ^ 32" using assms(5) c q by simp
    from drain_all [OF q(1) this] obtain k' where "aggregator_drain (collected s) ?k = Some (q, collected s + of_nat (length q), k')"
      "bt_get (mailboxes k') 4 = Some []" "cap_table k' = cap_table ?k" "pending k' = pending ?k" by blast
    with u c(1,2,4) l q(2) show ?thesis by (simp add: Gather on_board_def swarm_live_def)
  next
    case Tick
    obtain n' k' where "timer_handler False poll (n, ?k) = Some (n', k')" "cap_table k' = cap_table ?k" "pending k' = pending ?k" "mailboxes k' = mailboxes ?k"
      using tick_quiet [OF l(3), of poll n] by blast
    then show ?thesis using c(1-4) l q(1,2) by (simp add: Tick on_board_def swarm_live_def)
  qed
qed

lemma run_on_board:
  "\<lbrakk>swarm_live (kern s); on_board s (a, b, inbox, done); a + b + length ts < 2 ^ 32; length done + length inbox \<le> a + b\<rbrakk>
    \<Longrightarrow> \<exists>n' s'. for_each (swarm_turn poll) ts (n, s) = Some (n', s') \<and> on_board s' (fold board_turn ts (a, b, inbox, done))"
proof (induction ts arbitrary: n s a b inbox "done")
  case (Cons t ts)
  obtain n1 s1 where 1: "swarm_turn poll t (n, s) = Some (n1, s1)" "on_board s1 (board_turn t (a, b, inbox, done))" "swarm_live (kern s1)"
    using turn_on_board [OF Cons.prems(1,2), of poll t n] Cons.prems(3,4) by auto
  obtain a' b' inbox' done' where t: "board_turn t (a, b, inbox, done) = (a', b', inbox', done')" by (cases "board_turn t (a, b, inbox, done)")
  then have "a' + b' \<le> a + b + 1" "length done' + length inbox' \<le> a' + b'" using Cons.prems(4) by (cases t; auto)+
  with Cons.IH [OF 1(3), of a' b' inbox' done' n1] 1 Cons.prems(3) t show ?case by auto
qed auto

section \<open>The state the boot leaves\<close>

lemma task_new_ids:
  assumes "task_new map_to tr name pri entry (pt, k) = Some (t, pt', k')"
  shows "\<exists>ids fa. id_alloc (id_allocator k) = Some (task_id t, ids) \<and> k' = k\<lparr>id_allocator := ids, frame_allocator := fa\<rparr> \<and> priority t = pri"
proof -
  from assms obtain ids bottom fr where new: "id_alloc (id_allocator k) = Some (task_id t, ids)" "priority t = pri" and loop:
    "for_each (map_stack_page map_to bottom) [0..<unat STACK_PAGES] ([], pt, k\<lparr>id_allocator := ids\<rparr>) = Some (fr, pt', k')"
    by (auto simp: task_new_def split: bind_splits)
  have "\<exists>fa. snd (snd (fr, pt', k')) = k\<lparr>id_allocator := ids, frame_allocator := fa\<rparr>"
  proof (rule for_each_inv [OF loop])
    show "\<exists>fa. snd (snd ([], pt, k\<lparr>id_allocator := ids\<rparr>)) = k\<lparr>id_allocator := ids, frame_allocator := fa\<rparr>"
      by (rule exI [of _ "frame_allocator k"]) simp
  qed (auto simp: map_stack_page_def alloc_and_map_def Let_def split: bind_splits prod.splits if_splits)
  with new show ?thesis by auto
qed

lemma spawn_expect_result:
  assumes "spawn_expect map_to tr par cfg entry (pt, k) = Some (pt', k')" "id_allocator k = \<lparr>id_next = i, free_list = []\<rparr>"
  shows "\<exists>fa p t. k' = k\<lparr>frame_allocator := fa, id_allocator := \<lparr>id_next = i + 1, free_list = []\<rparr>, mailboxes := bt_insert i [] (mailboxes k),
      registry := add_child par i (register (new_agent i cfg par) (registry k)), cpu := p\<rparr>
    \<and> sched p = push_ready t (sched (cpu k)) \<and> task_id t = i \<and> priority t = Priority.Normal"
proof -
  from assms(1) obtain t k1 where t: "task_new map_to tr (agent_name cfg) Priority.Normal entry (pt, k) = Some (t, pt', k1)"
    and sp: "k_spawn t (register_mailbox (task_id t) k1\<lparr>registry := add_child par (task_id t) (register (new_agent (task_id t) cfg par) (registry k1))\<rparr>) = Some k'"
    by (auto simp: spawn_expect_def agent_spawn_def Let_def register_mailbox_def split: bind_splits if_splits sum.splits)
  from task_new_ids [OF t] obtain ids fa where ids: "id_alloc (id_allocator k) = Some (task_id t, ids)"
    and k1: "k1 = k\<lparr>id_allocator := ids, frame_allocator := fa\<rparr>" "priority t = Priority.Normal" by blast
  have i: "task_id t = i" "ids = \<lparr>id_next = i + 1, free_list = []\<rparr>" using ids assms(2) by (auto simp: id_alloc_def checked_add_Some_iff split: bind_splits)
  have regs: "registry k1 = registry k" "cpu k1 = cpu k" by (simp_all add: k1)
  from sp obtain p where p: "k' = register_mailbox i k1\<lparr>registry := add_child par i (register (new_agent i cfg par) (registry k)), cpu := p\<rparr>"
    "sched p = push_ready t (sched (cpu k))"
    by (auto simp: k_spawn_def sched_spawn_def register_mailbox_def regs i(1) Let_def split: bind_splits if_splits)
  show ?thesis by (intro exI [of _ fa] exI [of _ p] exI [of _ t]) (simp add: p k1 i register_mailbox_def mailbox_new_def)
qed

section \<open>Booting succeeds\<close>

lemma stack_page_step:
  assumes "i < 4" "unat b + 16384 < 2 ^ 64"
  shows "map_stack_page map_to b i (fr, pt, k) =
    do { (f, pt, k) \<leftarrow> alloc_and_map map_to (b + of_nat i * PAGE_SIZE) stack_flags (pt, k); Some (fr @ [start_address f], pt, k) }"
proof -
  have u: "unat (of_nat i :: u64) = i" using assms(1) by (intro unat_of_nat_small) simp
  have mul: "checked_mul (of_nat i) PAGE_SIZE = Some (of_nat i * PAGE_SIZE)"
    unfolding checked_mul_def u using assms(1) by (simp add: PAGE_SIZE_def)
  have off: "unat (of_nat i * PAGE_SIZE) = i * unat PAGE_SIZE" using checked_mul_unat [OF mul] unfolding u .
  have "checked_add b (of_nat i * PAGE_SIZE) = Some (b + of_nat i * PAGE_SIZE)"
    unfolding checked_add_def off using assms by (simp add: PAGE_SIZE_def)
  with mul show ?thesis by (simp add: map_stack_page_def)
qed

lemma map_stack_total:
  assumes m: "mapper_ok map_to mapped" "mapper_total map_to mapped c" and b: "unat b + 16384 < 2 ^ 64" "inj_on (\<lambda>i. b + of_nat i * PAGE_SIZE) {..<4}"
  shows "\<lbrakk>frame_allocator k = Some fa; fa_wf fa; length is * Suc c \<le> card (free_frames fa); distinct is; set is \<subseteq> {..<4};
      mapped pt \<inter> (\<lambda>i. b + of_nat i * PAGE_SIZE) ` set is = {}\<rbrakk>
    \<Longrightarrow> \<exists>fr' pt' fa'. for_each (map_stack_page map_to b) is (fr, pt, k) = Some (fr', pt', k\<lparr>frame_allocator := Some fa'\<rparr>) \<and> fa_wf fa'
      \<and> mapped pt' = mapped pt \<union> (\<lambda>i. b + of_nat i * PAGE_SIZE) ` set is \<and> card (free_frames fa) \<le> card (free_frames fa') + length is * Suc c"
proof (induction "is" arbitrary: fr pt k fa)
  case Nil
  then have "k = k\<lparr>frame_allocator := Some fa\<rparr>" by simp
  with Nil show ?case by (auto intro!: exI [of _ fa])
next
  case (Cons i "is")
  let ?P = "\<lambda>i. b + of_nat i * PAGE_SIZE"
  have new: "?P i \<notin> mapped pt" "mapped pt \<inter> ?P ` set is = {}" "Suc c \<le> card (free_frames fa)" using Cons.prems(3,6) by auto
  from alloc_and_map_total [OF m Cons.prems(1,2) new(3,1)] obtain f pt1 fa1 where
    a: "alloc_and_map map_to (?P i) stack_flags (pt, k) = Some (f, pt1, k\<lparr>frame_allocator := Some fa1\<rparr>)" "fa_wf fa1"
      "mapped pt1 = insert (?P i) (mapped pt)" "card (free_frames fa) \<le> card (free_frames fa1) + Suc c" by blast
  have "?P i \<notin> ?P ` set is" using inj_onD [OF b(2), of i] Cons.prems(4,5) by auto
  then have "mapped pt1 \<inter> ?P ` set is = {}" using a(3) new(2) by auto
  moreover have "length is * Suc c \<le> card (free_frames fa1)" using a(4) Cons.prems(3) by simp
  ultimately obtain fr' pt' fa' where
    "for_each (map_stack_page map_to b) is (fr @ [start_address f], pt1, k\<lparr>frame_allocator := Some fa1\<rparr>) = Some (fr', pt', k\<lparr>frame_allocator := Some fa'\<rparr>)"
    "fa_wf fa'" "mapped pt' = mapped pt1 \<union> ?P ` set is" "card (free_frames fa1) \<le> card (free_frames fa') + length is * Suc c"
    using Cons.IH [of "k\<lparr>frame_allocator := Some fa1\<rparr>" fa1 pt1 "fr @ [start_address f]"] a(2) Cons.prems(4,5) by auto
  with a Cons.prems(5) b(1) show ?case by (auto simp: stack_page_step)
qed

lemma stack_pages_slot:
  assumes "stack_bottom i = Some b" "unat i < MAX_TASKS"
  shows "(\<lambda>j. b + of_nat j * PAGE_SIZE) ` {..<4} = slot_pages i" "unat b + 16384 < 2 ^ 64" "inj_on (\<lambda>j. b + of_nat j * PAGE_SIZE) {..<4}"
proof -
  have ub: "unat b = slot_start (unat i) + 4096" by (rule stack_bottom_value [OF assms(1)])
  then have b: "b = of_nat (slot_start (unat i) + 4096)" by (metis of_nat_unat ucast_id)
  show lt: "unat b + 16384 < 2 ^ 64" using ub assms(2) by (simp add: slot_start_def MAX_TASKS_def)
  have P: "b + of_nat j * PAGE_SIZE = of_nat (slot_start (unat i) + 4096 + 4096 * j)" for j
    unfolding b by (simp add: PAGE_SIZE_def)
  show "(\<lambda>j. b + of_nat j * PAGE_SIZE) ` {..<4} = slot_pages i" by (simp add: P slot_pages_def)
  have u: "unat (b + of_nat j * PAGE_SIZE) = unat b + 4096 * j" if "j < 4" for j
    unfolding P ub using that lt ub by (subst unat_of_nat_small) simp_all
  show "inj_on (\<lambda>j. b + of_nat j * PAGE_SIZE) {..<4}"
    by (rule inj_onI) (metis (no_types, lifting) add_left_cancel lessThan_iff mult_left_cancel u zero_neq_numeral)
qed

lemma slots_disjoint:
  assumes "unat i < MAX_TASKS" "unat j < MAX_TASKS" "i \<noteq> j" shows "slot_pages i \<inter> slot_pages j = {}"
proof -
  have u: "unat (of_nat (slot_start (unat t) + 4096 + 4096 * n) :: u64) = slot_start (unat t) + 4096 + 4096 * n" if "unat t < MAX_TASKS" "n < 4" for t :: u64 and n
    using that by (intro unat_of_nat_small) (simp add: slot_start_def MAX_TASKS_def)
  have "slot_start (unat i) + 4096 + 4096 * n \<noteq> slot_start (unat j) + 4096 + 4096 * l" if "n < 4" "l < 4" for n l
  proof -
    have "unat i < unat j \<or> unat j < unat i" using assms(3) by (metis linorder_neqE_nat word_unat_eq_iff)
    then show ?thesis using that by (auto simp: slot_start_def)
  qed
  then show ?thesis using u [OF assms(1)] u [OF assms(2)] unfolding slot_pages_def by (auto dest: arg_cong [of _ _ unat])
qed

lemma task_new_total:
  assumes m: "mapper_ok map_to mapped" "mapper_total map_to mapped c" and k: "frame_allocator k = Some fa" "fa_wf fa" "4 * Suc c \<le> card (free_frames fa)"
    and i: "id_allocator k = \<lparr>id_next = i, free_list = []\<rparr>" "unat i < MAX_TASKS" "mapped pt \<inter> slot_pages i = {}"
  shows "\<exists>t pt' fa'. task_new map_to tr name pri entry (pt, k) =
      Some (t, pt', k\<lparr>id_allocator := \<lparr>id_next = i + 1, free_list = []\<rparr>, frame_allocator := Some fa'\<rparr>) \<and> task_id t = i \<and> fa_wf fa'
    \<and> mapped pt' = mapped pt \<union> slot_pages i \<and> card (free_frames fa) \<le> card (free_frames fa') + 4 * Suc c"
proof -
  obtain b top where b: "stack_bottom i = Some b" "checked_add b STACK_SIZE = Some top" using stack_bottom_total [OF i(2)] by auto
  note s = stack_pages_slot [OF b(1) i(2)]
  have id: "id_alloc (id_allocator k) = Some (i, \<lparr>id_next = i + 1, free_list = []\<rparr>)"
    using i(1,2) by (simp add: id_alloc_def checked_add_def MAX_TASKS_def)
  have pages: "set [0..<unat STACK_PAGES] = {..<4}" "length [0..<unat STACK_PAGES] = 4" "distinct [0..<unat STACK_PAGES]" by (auto simp: STACK_PAGES_def)
  from map_stack_total [OF m s(2,3), of "k\<lparr>id_allocator := \<lparr>id_next = i + 1, free_list = []\<rparr>\<rparr>" fa "[0..<unat STACK_PAGES]" pt "[]"] k i(3) pages
  obtain fr pt' fa' where
    "for_each (map_stack_page map_to b) [0..<unat STACK_PAGES] ([], pt, k\<lparr>id_allocator := \<lparr>id_next = i + 1, free_list = []\<rparr>\<rparr>)
      = Some (fr, pt', k\<lparr>id_allocator := \<lparr>id_next = i + 1, free_list = []\<rparr>, frame_allocator := Some fa'\<rparr>)"
    "fa_wf fa'" "mapped pt' = mapped pt \<union> slot_pages i" "card (free_frames fa) \<le> card (free_frames fa') + 4 * Suc c"
    unfolding s(1) by (auto simp: s(1))
  with b id show ?thesis by (auto simp: task_new_def)
qed

lemma spawn_total:
  assumes m: "mapper_ok map_to mapped" "mapper_total map_to mapped c" and k: "frame_allocator k = Some fa" "fa_wf fa" "4 * Suc c \<le> card (free_frames fa)"
    and i: "id_allocator k = \<lparr>id_next = i, free_list = []\<rparr>" "unat i < MAX_TASKS" "mapped pt \<inter> slot_pages i = {}"
    and "\<not> children_full (registry k) par" "length (contexts (cpu k)) = MAX_TASKS"
  shows "\<exists>pt' k' fa'. spawn_expect map_to tr par cfg entry (pt, k) = Some (pt', k') \<and> frame_allocator k' = Some fa' \<and> fa_wf fa'
    \<and> mapped pt' = mapped pt \<union> slot_pages i \<and> card (free_frames fa) \<le> card (free_frames fa') + 4 * Suc c \<and> length (contexts (cpu k')) = MAX_TASKS"
proof -
  from task_new_total [OF m k i, of tr "agent_name cfg" Priority.Normal entry] obtain t pt' fa' where t:
    "task_new map_to tr (agent_name cfg) Priority.Normal entry (pt, k)
      = Some (t, pt', k\<lparr>id_allocator := \<lparr>id_next = i + 1, free_list = []\<rparr>, frame_allocator := Some fa'\<rparr>)"
    "task_id t = i" "fa_wf fa'" "mapped pt' = mapped pt \<union> slot_pages i" "card (free_frames fa) \<le> card (free_frames fa') + 4 * Suc c" by blast
  with i(2) assms(9,10) show ?thesis
    by (simp add: spawn_expect_def agent_spawn_def register_mailbox_def k_spawn_def sched_spawn_def store_def)
qed

definition spawned :: "u64 \<Rightarrow> AgentConfig \<Rightarrow> u64 option \<Rightarrow> AgentRegistry \<Rightarrow> AgentRegistry" where
  "spawned i cfg par r = add_child par i (register (new_agent i cfg par) r)"

definition staged :: "('pt \<Rightarrow> u64 set) \<Rightarrow> u64 set \<Rightarrow> nat \<Rightarrow> AgentRegistry \<Rightarrow> u64 list \<Rightarrow> 'pt \<times> kernel \<Rightarrow> bool" where
  "staged mapped M need R ids = (\<lambda>(pt, k). (\<exists>fa. frame_allocator k = Some fa \<and> fa_wf fa \<and> need \<le> card (free_frames fa))
     \<and> id_allocator k = \<lparr>id_next = of_nat (Suc (length ids)), free_list = []\<rparr> \<and> mapped pt = M \<union> \<Union> (slot_pages ` set ids)
     \<and> length (contexts (cpu k)) = MAX_TASKS \<and> registry k = R \<and> swarm_live k \<and> bt_get (mailboxes k) 4 = Some []
     \<and> pri_index Priority.Normal < length (queues (sched (cpu k))) \<and> map task_id (queues (sched (cpu k)) ! pri_index Priority.Normal) = ids)"

lemma spawn_stage:
  assumes m: "mapper_ok map_to mapped" "mapper_total map_to mapped c" and s: "staged mapped M (need + 4 * Suc c) R ids s"
    and i: "i = of_nat (Suc (length ids))" "unat i < MAX_TASKS" "\<forall>j \<in> set ids. j \<noteq> i \<and> unat j < MAX_TASKS" "M \<inter> slot_pages i = {}"
    and "\<not> children_full R par"
  shows "\<exists>s'. spawn_expect map_to tr par cfg entry s = Some s' \<and> staged mapped M need (spawned i cfg par R) (ids @ [i]) s'"
proof -
  obtain pt k where sk: "s = (pt, k)" by (cases s)
  from s obtain fa where fa: "frame_allocator k = Some fa" "fa_wf fa" "need + 4 * Suc c \<le> card (free_frames fa)"
    and st: "id_allocator k = \<lparr>id_next = i, free_list = []\<rparr>" "mapped pt = M \<union> \<Union> (slot_pages ` set ids)" "length (contexts (cpu k)) = MAX_TASKS"
      "registry k = R" "swarm_live k" "bt_get (mailboxes k) 4 = Some []" "pri_index Priority.Normal < length (queues (sched (cpu k)))"
      "map task_id (queues (sched (cpu k)) ! pri_index Priority.Normal) = ids"
    unfolding staged_def sk i(1) by auto
  have "mapped pt \<inter> slot_pages i = {}" using i(2-4) slots_disjoint unfolding st(2) by fastforce
  moreover have "4 * Suc c \<le> card (free_frames fa)" using fa(3) by simp
  ultimately obtain pt' k' fa' where r: "spawn_expect map_to tr par cfg entry (pt, k) = Some (pt', k')" "frame_allocator k' = Some fa'" "fa_wf fa'"
    "mapped pt' = mapped pt \<union> slot_pages i" "card (free_frames fa) \<le> card (free_frames fa') + 4 * Suc c" "length (contexts (cpu k')) = MAX_TASKS"
    using spawn_total [OF m fa(1,2) _ st(1) i(2) _ _ st(3), of pt par tr cfg entry] assms(8) st(4) by blast
  from spawn_expect_result [OF r(1) st(1)] obtain f p t where k': "k' = k\<lparr>frame_allocator := f, id_allocator := \<lparr>id_next = i + 1, free_list = []\<rparr>,
      mailboxes := bt_insert i [] (mailboxes k), registry := spawned i cfg par R, cpu := p\<rparr>"
    "sched p = push_ready t (sched (cpu k))" "task_id t = i" "priority t = Priority.Normal" unfolding spawned_def st(4) by blast
  have "need \<le> card (free_frames fa')" using r(5) fa(3) by simp
  moreover have "i + 1 = of_nat (Suc (length (ids @ [i])))" by (simp add: i(1))
  moreover have "swarm_live k'" using st(5) by (simp add: k'(1) swarm_live_def)
  moreover have "bt_get (mailboxes k') 4 = Some []" using st(6) by (simp add: k'(1))
  moreover have "map task_id (queues (sched (cpu k')) ! pri_index Priority.Normal) = ids @ [i]" "pri_index Priority.Normal < length (queues (sched (cpu k')))"
    using st(7,8) k'(2-4) by (simp_all add: k'(1) push_ready_def Let_def)
  moreover have "id_allocator k' = \<lparr>id_next = i + 1, free_list = []\<rparr>" "registry k' = spawned i cfg par R" by (simp_all add: k'(1))
  ultimately have "staged mapped M need (spawned i cfg par R) (ids @ [i]) (pt', k')"
    using r(2-4,6) st(2) unfolding staged_def by (auto simp del: of_nat_Suc)
  with r(1) sk show ?thesis by blast
qed

lemma create_root_next: "next_id t < 100 \<Longrightarrow> \<exists>t'. cap_create_root own res p t = Some (next_id t, t') \<and> next_id t' = next_id t + 1"
  by (simp add: cap_create_root_def checked_add_def word_less_nat_alt Let_def)

lemma swarm_caps_valid:
  "\<exists>t. swarm_caps cap_new = Some t \<and> \<not> isl (cap_validate t 2 2 WRITE) \<and> \<not> isl (cap_validate t 3 3 WRITE)"
proof -
  obtain t1 where 1: "cap_create_root 1 AgentSpawn perms_supervisor cap_new = Some (1, t1)" "next_id t1 = 2"
    using create_root_next [of cap_new 1 AgentSpawn perms_supervisor] by (auto simp: cap_new_def)
  obtain t2 where 2: "cap_create_root 2 (Agent 4) WRITE t1 = Some (2, t2)" "next_id t2 = 3" using create_root_next [of t1 2 "Agent 4" WRITE] 1(2) by auto
  obtain t3 where 3: "cap_create_root 3 (Agent 4) WRITE t2 = Some (3, t3)" "next_id t3 = 4" using create_root_next [of t2 3 "Agent 4" WRITE] 2(2) by auto
  obtain t4 where 4: "cap_create_root 4 (Channel ''results'') PUBLISH t3 = Some (4, t4)" "next_id t4 = 5" using create_root_next [of t3 4 "Channel ''results''" PUBLISH] 3(2) by auto
  obtain t5 where 5: "cap_create_root 4 (Agent 0) READ t4 = Some (5, t5)" using create_root_next [of t4 4 "Agent 0" READ] 4(2) by auto
  have "swarm_caps cap_new = Some t5" by (simp add: swarm_caps_def 1 2 3 4 5)
  moreover have "\<not> isl (cap_validate t5 2 2 WRITE)" "\<not> isl (cap_validate t5 3 3 WRITE)"
    by (simp_all add: cap_validate_def cap_get_def cap_create_root_slot [OF 5] cap_create_root_slot [OF 4(1)] cap_create_root_slot [OF 3(1)]
        cap_create_root_slot [OF 2(1)] contains_def)
  ultimately show ?thesis by blast
qed

text \<open>The kernel as the initialisation of the subsystems leaves it: no capability, task, agent or pending request yet.  The clock, the file system
  and the other tables may be in any state.\<close>

definition fresh_kernel :: "BitmapFrameAllocator \<Rightarrow> kernel \<Rightarrow> bool" where
  "fresh_kernel fa k \<longleftrightarrow> frame_allocator k = Some fa \<and> cap_table k = cap_new \<and> id_allocator k = id_new \<and> registry k = reg_new \<and> pending k = []
     \<and> sched (cpu k) = sched_new \<and> length (contexts (cpu k)) = MAX_TASKS"

lemma services_ready:
  assumes "fresh_kernel fa k"
  obtains t where "swarm_services k = Some t" "swarm_live t" "bt_get (mailboxes t) 4 = Some []" "frame_allocator t = Some fa"
    "id_allocator t = id_new" "cpu t = cpu k" "registry t = reg_new"
proof -
  obtain t where t: "swarm_caps cap_new = Some t" "\<not> isl (cap_validate t 2 2 WRITE)" "\<not> isl (cap_validate t 3 3 WRITE)"
    using swarm_caps_valid by blast
  have "swarm_services k = Some (fold register_mailbox [1, 2, 3, 4] (snd (channel_create ''results'' (k\<lparr>cap_table := t\<rparr>))))"
    using t(1) assms by (simp add: swarm_services_def fresh_kernel_def split_beta)
  from that [OF this] show thesis using t(2,3) assms
    by (simp add: fresh_kernel_def channel_create_def register_mailbox_def mailbox_new_def swarm_live_def Let_def)
qed

definition swarm_registry :: AgentRegistry where
  "swarm_registry = spawned 4 aggregator_config (Some 1) (spawned 3 research2_config (Some 1) (spawned 2 research1_config (Some 1)
     (spawned 1 supervisor_config None reg_new)))"

lemma swarm_ready:
  assumes m: "mapper_ok map_to mapped" "mapper_total map_to mapped c" and fa: "fresh_kernel fa k" "fa_wf fa" "16 * Suc c \<le> card (free_frames fa)"
    and pt: "\<forall>i \<in> {1, 2, 3, 4}. mapped pt \<inter> slot_pages i = {}"
  shows "\<exists>s. start_swarm map_to tr e1 e2 e3 e4 (pt, k) = Some s \<and> staged mapped (mapped pt) 0 swarm_registry [1, 2, 3, 4] s"
proof -
  obtain t where t: "swarm_services k = Some t" "swarm_live t" "bt_get (mailboxes t) 4 = Some []" "frame_allocator t = Some fa"
    "id_allocator t = id_new" "cpu t = cpu k" "registry t = reg_new" by (rule services_ready [OF fa(1)])
  have "0 + 4 * Suc c + 4 * Suc c + 4 * Suc c + 4 * Suc c \<le> card (free_frames fa)" using fa(3) by linarith
  then have 0: "staged mapped (mapped pt) (0 + 4 * Suc c + 4 * Suc c + 4 * Suc c + 4 * Suc c) reg_new [] (pt, t)"
    using t fa(1,2) by (auto simp: staged_def fresh_kernel_def id_new_def sched_new_def)
  let ?R1 = "spawned 1 supervisor_config None reg_new"
  let ?R2 = "spawned 2 research1_config (Some 1) ?R1"
  let ?R3 = "spawned 3 research2_config (Some 1) ?R2"
  have g: "children_full reg_new None = False" "children_full ?R1 (Some 1) = False" "children_full ?R2 (Some 1) = False" "children_full ?R3 (Some 1) = False"
    by (simp_all add: children_full_def spawned_def reg_get_add_child new_agent_def supervisor_config_def limits_default_def)
  obtain s1 where 1: "spawn_expect map_to tr None supervisor_config e1 (pt, t) = Some s1"
    "staged mapped (mapped pt) (0 + 4 * Suc c + 4 * Suc c + 4 * Suc c) ?R1 ([] @ [1]) s1"
    using spawn_stage [OF m 0, of 1 None tr supervisor_config e1] pt g(1) by (auto simp: MAX_TASKS_def)
  obtain s2 where 2: "spawn_expect map_to tr (Some 1) research1_config e2 s1 = Some s2"
    "staged mapped (mapped pt) (0 + 4 * Suc c + 4 * Suc c) ?R2 (([] @ [1]) @ [2]) s2"
    using spawn_stage [OF m 1(2), of 2 "Some 1" tr research1_config e2] pt g(2) by (auto simp: MAX_TASKS_def)
  obtain s3 where 3: "spawn_expect map_to tr (Some 1) research2_config e3 s2 = Some s3"
    "staged mapped (mapped pt) (0 + 4 * Suc c) ?R3 ((([] @ [1]) @ [2]) @ [3]) s3"
    using spawn_stage [OF m 2(2), of 3 "Some 1" tr research2_config e3] pt g(3) by (auto simp: MAX_TASKS_def)
  obtain s4 where 4: "spawn_expect map_to tr (Some 1) aggregator_config e4 s3 = Some s4"
    "staged mapped (mapped pt) 0 swarm_registry (((([] @ [1]) @ [2]) @ [3]) @ [4]) s4"
    using spawn_stage [OF m 3(2), of 4 "Some 1" tr aggregator_config e4] pt g(4) unfolding swarm_registry_def by (auto simp: MAX_TASKS_def)
  have "start_swarm map_to tr e1 e2 e3 e4 (pt, k) = Some s4" using t(1) 1(1) 2(1) 3(1) 4(1) by (simp add: start_swarm_def)
  with 4(2) show ?thesis by auto
qed

section \<open>Nothing is lost\<close>

text \<open>All findings of a sequence of turns, and the condition that the aggregator collects before 257 of them wait.\<close>

fun all_notes :: "nat \<Rightarrow> nat \<Rightarrow> turn list \<Rightarrow> (u64 \<times> u8 list) list" where
  "all_notes a b [] = []"
| "all_notes a b (Research1 # ts) = note1 (Suc a) # all_notes (Suc a) b ts"
| "all_notes a b (Research2 # ts) = note2 (Suc b) # all_notes a (Suc b) ts"
| "all_notes a b (_ # ts) = all_notes a b ts"

fun keeps_up :: "nat \<Rightarrow> turn list \<Rightarrow> bool" where
  "keeps_up n [] = True"
| "keeps_up n (Gather # ts) = keeps_up 0 ts"
| "keeps_up n (Tick # ts) = keeps_up n ts"
| "keeps_up n (_ # ts) = (n < 256 \<and> keeps_up (Suc n) ts)"

lemma keeps_up_notes:
  "keeps_up (length inbox) ts \<Longrightarrow> fold board_turn ts (a, b, inbox, done) = (a', b', inbox', done') \<Longrightarrow> done' @ inbox' = done @ inbox @ all_notes a b ts"
proof (induction ts arbitrary: a b inbox "done")
  case (Cons t ts)
  then show ?case by (cases t) (auto dest: Cons.IH [rotated])
qed simp

text \<open>C11. The swarm starts and works.  On a freshly initialised kernel with enough frames for the four stacks and their page tables,
  \<open>start_swarm\<close> returns: the four agents run as the tasks 1 to 4, ready in this order, with the other three as children of the supervisor.  From
  then on, in any order of researchers' turns, the aggregator's turns and timer interrupts, nothing panics and the aggregator has received exactly
  what an inbox of 256 findings lets through, in the order of sending and with the right senders and texts; and when it never lets more than 256
  wait, no finding is lost.\<close>

theorem swarm_exact:
  assumes "mapper_ok map_to mapped" "mapper_total map_to mapped c" "fresh_kernel fa k0" "fa_wf fa" "16 * Suc c \<le> card (free_frames fa)"
    and "\<forall>i \<in> {1, 2, 3, 4}. mapped pt \<inter> slot_pages i = {}" "length ts < 2 ^ 32"
  shows "\<exists>pt' k n' s. start_swarm map_to tr e1 e2 e3 e4 (pt, k0) = Some (pt', k)
    \<and> all_ids (registry k) = [1, 2, 3, 4] \<and> map task_id (queues (sched (cpu k)) ! pri_index Priority.Normal) = [1, 2, 3, 4]
    \<and> (\<exists>a. reg_get (registry k) 1 = Some a \<and> config a = supervisor_config \<and> children a = [2, 3, 4])
    \<and> for_each (swarm_turn poll) ts (n, swarm_start k) = Some (n', s) \<and> on_board s (fold board_turn ts (0, 0, [], []))
    \<and> (keeps_up 0 ts \<longrightarrow> (\<exists>q. bt_get (mailboxes (kern s)) 4 = Some q \<and> map note_of (got s @ q) = all_notes 0 0 ts))"
proof -
  obtain pt' k where b: "start_swarm map_to tr e1 e2 e3 e4 (pt, k0) = Some (pt', k)" "registry k = swarm_registry" "swarm_live k"
    "bt_get (mailboxes k) 4 = Some []" "map task_id (queues (sched (cpu k)) ! pri_index Priority.Normal) = [1, 2, 3, 4]"
    using swarm_ready [OF assms(1-6), of tr e1 e2 e3 e4] by (auto simp: staged_def)
  have "on_board (swarm_start k) (0, 0, [], [])" using b(4) by (simp add: on_board_def swarm_start_def)
  moreover have "swarm_live (kern (swarm_start k))" using b(3) by (simp add: swarm_start_def)
  ultimately obtain n' s where s: "for_each (swarm_turn poll) ts (n, swarm_start k) = Some (n', s)" "on_board s (fold board_turn ts (0, 0, [], []))"
    using run_on_board [of "swarm_start k" 0 0 "[]" "[]" ts poll n] assms(7) by auto
  obtain a' b' inbox' done' where f: "fold board_turn ts (0, 0, [], []) = (a', b', inbox', done')" by (cases "fold board_turn ts (0, 0, [], [])")
  have "\<exists>q. bt_get (mailboxes (kern s)) 4 = Some q \<and> map note_of (got s @ q) = all_notes 0 0 ts" if "keeps_up 0 ts"
    using keeps_up_notes [of "[]" ts 0 0 "[]" a' b' inbox' done'] that s(2) f by (auto simp: on_board_def)
  moreover have "all_ids swarm_registry = [1, 2, 3, 4]"
    by (simp add: swarm_registry_def spawned_def all_ids_def add_child_def reg_modify_def register_def new_agent_def reg_new_def bt_keys_def bt_modify_def)
  moreover have "\<exists>a. reg_get swarm_registry 1 = Some a \<and> config a = supervisor_config \<and> children a = [2, 3, 4]"
    by (simp add: swarm_registry_def spawned_def reg_get_add_child new_agent_def)
  ultimately show ?thesis using b s by metis
qed

theorem swarm_exact_witness:
  "\<exists>pt' k n' s q. start_swarm list_mapper 7 1 2 3 4 ([], kernel_start context_empty roomy_fa) = Some (pt', k)
    \<and> for_each (swarm_turn (\<lambda>_ n. n)) [Research1, Tick, Research2, Gather, Research1] (0 :: nat, swarm_start k) = Some (n', s)
    \<and> bt_get (mailboxes (kern s)) 4 = Some q \<and> map note_of (got s @ q) = [note1 1, note2 1, note1 2]"
proof -
  let ?ts = "[Research1, Tick, Research2, Gather, Research1]"
  have f: "fresh_kernel roomy_fa (kernel_start context_empty roomy_fa)"
    by (simp add: fresh_kernel_def kernel_start_def kernel_boot_def boot_cpu_def)
  have room: "16 * Suc 0 \<le> card (free_frames roomy_fa)" "\<forall>i \<in> {1, 2, 3, 4}. set [] \<inter> slot_pages i = {}" "length ?ts < 2 ^ 32"
    by (simp_all add: roomy_fa_free)
  have "keeps_up 0 ?ts" "all_notes 0 0 ?ts = [note1 1, note2 1, note1 2]" by (simp_all add: numeral_2_eq_2)
  with swarm_exact [OF list_mapper_ok list_mapper_total f roomy_fa_free(1) room, of 7 1 2 3 4 "\<lambda>_ n. n" "0 :: nat"] show ?thesis by metis
qed

end
