(* ===== verification/Spec2Isabelle.thy ===== *)
theory Spec2Isabelle
  imports Storage Crypto Userspace Virtio_Net_Theorems Http Swarm
begin

text \<open>
  Oxide OS is a small kernel in Rust (\<^verbatim>\<open>src/oxide-os/kernel/src\<close>) in which agents run as tasks, own capabilities, send each other messages and use storage, the
  network and an inference queue through capability-checked services.  This development models the kernel as HOL functions and proves what its
  parts promise, each alone and together.

  \<^bold>\<open>How the code is modelled.\<close>  A struct is a record and an enum a datatype, integers are words of their width, a \<open>BTreeMap\<close> is an association
  list in the order of its keys, and a string the list of its bytes.  A function that changes state takes and returns it; \<open>Result\<close> is a sum with
  the error on the left.  The kernel image is the debug build, so overflow, an index out of range, \<open>unwrap\<close> on nothing and \<open>panic!\<close> stop the
  kernel: such a function returns an option, and \<open>None\<close> is the panic.  Atomic counters and the operations named \<open>wrapping\<close> wrap.  The static
  variables of the modules are one record (theory \<open>Kernel_State\<close>).  A lock that is taken with \<open>try_lock\<close> has a flag that says whether somebody
  holds it, and the code behind it is skipped when it is set.

  Code that is not part of the repository is a parameter: the devices behind ports and shared memory, the instructions of the processor, the page
  tables of the \<open>x86_64\<close> crate, the TCP/IP stack \<open>smoltcp\<close>, the hash functions, the boot loader's memory map.  What the kernel relies on there is
  a named hypothesis: \<open>mapper_ok\<close> and \<open>mapper_total\<close> (mapping a page), \<open>config_mechanism\<close> (PCI configuration space), \<open>conforming\<close> and \<open>quiet\<close>
  (virtio block device), \<open>dev_step\<close>, \<open>notifies\<close> and \<open>quiet_net\<close> (virtio network device), \<open>timely\<close> (time passes while the network is polled),
  \<open>appends\<close> (segment table).  Each property with such a hypothesis has a witness that instantiates it.

  \<^bold>\<open>The parts and their theories.\<close>

  \<^item> Foundations: \<open>Oxide_Prelude\<close> (integers, checked arithmetic, loops), \<open>Btree_Map\<close>, \<open>Binary_Heap\<close>, \<open>Rust_Text\<close> and \<open>Byte_Codec\<close> (the library
    types the kernel uses), \<open>Port_Io\<close>.
  \<^item> Capabilities (\<^verbatim>\<open>capability/\<close>): \<open>Permissions\<close> and \<open>Cap_Table\<close> model permission bits, resources and the table; \<open>Cap_Theorems\<close> shows
    that revocation reaches exactly the capability and its descendants, lasts, and that delegation never widens authority.
  \<^item> Memory (\<^verbatim>\<open>memory/\<close>, \<^verbatim>\<open>allocator.rs\<close>): \<open>Frame_Allocator\<close> models the bitmap and its initialisation; frames are exclusive and none is lost.
    \<open>Machine_Boot\<close> models the kernel heap, the local interrupt controller (\<^verbatim>\<open>apic.rs\<close>) and the interrupt table (\<^verbatim>\<open>interrupts.rs\<close>).
  \<^item> Tasks (\<^verbatim>\<open>task/\<close>): \<open>Task_Scheduler\<close> models queues, choice of the next task and the register switch; \<open>Kernel_Tasks\<close>, \<open>Task_Lifecycle\<close> and
    \<open>Task_Properties\<close> creation and end of tasks with their stacks, frames and ids.
  \<^item> Messages (\<^verbatim>\<open>ipc/\<close>): \<open>Ipc_Types\<close> and \<open>Kernel_Ipc\<close> model mailboxes, channels, requests and shared memory; \<open>Ipc_Theorems\<close> and
    \<open>Ipc_Properties\<close> show order, delivery, round trips, time-outs and every error.
  \<^item> Timers and inference (\<^verbatim>\<open>timer/\<close>, \<^verbatim>\<open>gpu/\<close>): \<open>Deadline_Queue\<close> and \<open>Gpu_Scheduler\<close>, both over the binary heap.
  \<^item> Agents (\<^verbatim>\<open>agent/\<close>): \<open>Agent_Registry\<close> and \<open>Kernel_Agents\<close> model registration, spawning and killing; \<open>Agent_Tree\<close> shows that killing
    ends and removes exactly a subtree, with the restarts the supervisors count.
  \<^item> Storage (\<^verbatim>\<open>storage/\<close>, \<^verbatim>\<open>pci/\<close>): \<open>Oxide_Fs\<close> and \<open>Context_Store\<close> are the file system and the agents' store in memory, \<open>Disk_Layout\<close> and
    \<open>Disk_Theorems\<close> the file system on disk, \<open>Block_Cache\<close> the cache, \<open>Virtio_Blk\<close>, \<open>Virtio_Blk_Init\<close> and \<open>Virtio_Blk_Theorems\<close> the driver,
    \<open>Pci\<close> the bus it is found on.  \<open>Storage\<close> composes them: files survive a reboot.
  \<^item> Network (\<^verbatim>\<open>net/\<close>): \<open>Virtio_Net\<close> and \<open>Virtio_Net_Theorems\<close> are the driver, \<open>Network\<close> firewall, names, sockets and the TLS stub,
    \<open>Http_Text\<close> and \<open>Http\<close> the client.  Driver and device are two queues of frames; a request leaves the machine only under a capability for
    its target, and returns.
  \<^item> Cryptography (\<^verbatim>\<open>crypto/\<close>): \<open>Crypto\<close> models random numbers, capability tags and signatures.
  \<^item> User mode (\<^verbatim>\<open>userspace/\<close>, \<^verbatim>\<open>gdt.rs\<close>, \<^verbatim>\<open>syscall/\<close>): \<open>Userspace\<close> models executables and the entry into user mode, \<open>Syscalls\<close>
    the system calls and the timer interrupt.
  \<^item> The whole: \<open>Kernel_Steps\<close> is the kernel as a state machine whose steps are system calls, interrupts, IPC, capability operations and agent
    creation in any order; \<open>Kernel_Properties\<close> and this theory hold the properties of its reachable states; \<open>Swarm\<close> models the agents that
    \<^verbatim>\<open>main.rs\<close> starts and shows that their messages arrive.

  \<^bold>\<open>Interfaces.\<close>  Locales state what one part relies on in another, and are interpreted on the kernel's own definitions: \<open>kv_store\<close> (B-tree,
  file system, context store), \<open>heap_order\<close> (deadlines, inference requests), \<open>frame_source\<close> (frame allocator), \<open>sched_env\<close> (the clean-up the
  scheduler calls), \<open>cap_gate\<close> (every service behind a capability), \<open>block_device\<close> (the driver under the cache).

  \<^bold>\<open>Bounds and fuel.\<close>  \<open>kill\<close> calls itself through the supervisor and takes a depth of calls as fuel; on registries that form a forest a
  sufficient depth exists and more changes nothing.  The block driver polls at most 100000000 times, as in the code, and the device's progress
  between two polls is a parameter.  The loops of the HTTP client are partial functions, and they return under \<open>timely\<close> with a clock below
  $2^{60}$ ticks.  The rings have 128 (block) and 256 (network) entries and their indices wrap at $2^{16}$; the theorems hold across the wrap.
  Runs of the block cache have fewer than $2^{64}$ operations and runs of the swarm fewer than $2^{32}$ turns, because the counters there are
  checked.

  \<^bold>\<open>Not modelled.\<close>  Output to the serial port (\<^verbatim>\<open>serial.rs\<close>), the exit port of the emulator (\<^verbatim>\<open>qemu.rs\<close>) and log messages are pure output.
  The initialisation functions of \<^verbatim>\<open>gpu/mod.rs\<close> and \<^verbatim>\<open>userspace/mod.rs\<close> only print.  Loading the descriptor tables and the
  model-specific registers is hardware access.  Memory allocation on the heap is a third-party crate and assumed not to fail.  Tasks run one at a
  time on one processor, and an interrupt is a step between two operations: what happens when an interrupt arrives inside an operation is
  modelled only by the flags of the locks that the handlers try to take.  The requests to the boot loader in \<^verbatim>\<open>main.rs\<close> are its interface;
  the subsystems they start are modelled one by one, and their order is that of \<open>_start\<close>.
\<close>

section \<open>Safety of the whole kernel\<close>

definition stack_numbers :: "Scheduler \<Rightarrow> nat list" where
  "stack_numbers s = concat (map (\<lambda>t. map frame_number (stack_frames t)) (all_tasks s))"

lemma stack_numbers_mset: "mset (stack_numbers s) = stack_indices (footprints s)"
proof -
  have "mset (concat (map (\<lambda>t. map frame_number (stack_frames t)) ts)) = stack_indices (image_mset footprint (mset ts))" for ts
    by (induction ts) (simp_all add: footprint_def)
  then show ?thesis by (simp add: stack_numbers_def footprints_def)
qed

lemma kernel_inv_tasks:
  assumes "kernel_inv k"
  shows "\<exists>fa. frame_allocator k = Some fa \<and> fa_wf fa \<and> distinct (stack_numbers (sched (cpu k)))
      \<and> set (stack_numbers (sched (cpu k))) \<subseteq> {..<total_frames fa} - free_frames fa"
    and "distinct (task_ids (sched (cpu k)) @ free_list (id_allocator k))"
proof -
  let ?s = "sched (cpu k)"
  have r: "resources_ok (footprints ?s) k" using assms by (simp add: kernel_inv_def kern_ok_def)
  then obtain fa where fa: "frame_allocator k = Some fa" "fa_wf fa"
    "mset (stack_numbers ?s) \<subseteq># mset_set ({..<total_frames fa} - free_frames fa)"
    by (auto simp: resources_ok_def stack_numbers_mset)
  then have "distinct (stack_numbers ?s)" by (intro distinct_subset_mset_set) auto
  moreover have "set (stack_numbers ?s) \<subseteq> {..<total_frames fa} - free_frames fa" using set_mset_mono [OF fa(3)] by simp
  ultimately show "\<exists>fa. frame_allocator k = Some fa \<and> fa_wf fa \<and> distinct (stack_numbers ?s)
      \<and> set (stack_numbers ?s) \<subseteq> {..<total_frames fa} - free_frames fa" using fa by blast
  have "mset (task_ids ?s @ free_list (id_allocator k)) \<subseteq># mset_set {i. 0 < i \<and> i < id_next (id_allocator k)}"
    using r by (simp add: resources_ok_def mset_task_ids)
  then show "distinct (task_ids ?s @ free_list (id_allocator k))" by (rule distinct_subset_mset_set) simp
qed

text \<open>C1. Whatever the kernel does, in any order of system calls, interrupts, IPC, capability operations and agent creation, the ids of
  its tasks differ from each other and from every id waiting to be reused, no two stacks share a frame and none of their frames is free,
  no mailbox exceeds its capacity, and every capability is confined by the root it descends from.\<close>

theorem kernel_safety:
  assumes "fa_init entries = Some fa0" "mapper_ok map_to mapped"
    "(kernel_step map_to poll)\<^sup>*\<^sup>* (pt0, n0, kernel_start r fa0) (pt, n, k)"
  shows "distinct (task_ids (sched (cpu k)) @ free_list (id_allocator k))
    \<and> (\<exists>fa. frame_allocator k = Some fa \<and> distinct (stack_numbers (sched (cpu k)))
         \<and> set (stack_numbers (sched (cpu k))) \<inter> free_frames fa = {})
    \<and> (\<forall>t q. bt_get (mailboxes k) t = Some q \<longrightarrow> length q \<le> MAILBOX_CAPACITY)
    \<and> (\<forall>i c. slot (cap_table k) i = Some c \<longrightarrow> (\<exists>j root. slot (cap_table k) j = Some root \<and> parent_cap root = None
         \<and> contains (permissions root) (permissions c) \<and> is_subset_of (resource c) (resource root)))"
proof -
  have inv: "kernel_inv k" using kernel_inv_steps [OF assms(3,2)] kernel_start_inv [OF assms(1)] by simp
  then have wf: "cap_wf (cap_table k)" by (simp add: kernel_inv_def cap_reachable_wf)
  have "\<exists>j root. slot (cap_table k) j = Some root \<and> parent_cap root = None
         \<and> contains (permissions root) (permissions c) \<and> is_subset_of (resource c) (resource root)" if "slot (cap_table k) i = Some c" for i c
    using descends_from_root [OF wf that] descends_confined [OF _ wf] that by blast
  moreover have "length q \<le> MAILBOX_CAPACITY" if "bt_get (mailboxes k) t = Some q" for t q
    using inv that by (auto simp: kernel_inv_def intro: ipc_wf_sel(6))
  ultimately show ?thesis using kernel_inv_tasks [OF inv] by blast
qed

theorem kernel_safety_witness:
  "\<exists>pt k. (kernel_step list_mapper (\<lambda>_ n. n))\<^sup>*\<^sup>* ([], (), kernel_start context_empty demo_fa) (pt, (), k)
     \<and> agent_spawn list_mapper 7 None demo_config 9 ([], kernel_start context_empty demo_fa) = Some (Inr 1, pt, k)
     \<and> distinct (task_ids (sched (cpu k)) @ free_list (id_allocator k)) \<and> distinct (stack_numbers (sched (cpu k)))"
proof -
  obtain pt k where sp: "agent_spawn list_mapper 7 None demo_config 9 ([], kernel_start context_empty demo_fa) = Some (Inr 1, pt, k)"
    by (rule demo_spawn)
  have run: "(kernel_step list_mapper (\<lambda>_ n. n))\<^sup>*\<^sup>* ([], (), kernel_start context_empty demo_fa) (pt, (), k)"
    by (rule r_into_rtranclp) (rule kernel_step.spawn [OF sp])
  from kernel_safety [OF demo_init list_mapper_ok run] sp run show ?thesis by blast
qed

end
